(* ===== verification/Go_Base.thy ===== *)
theory Go_Base
  imports Main
begin

text \<open>
  Shared vocabulary of the development: Go error values, the outcome of a Go call (a value, a
  returned error, a panic, or a call that blocks for ever), computations over a state, and the
  generic lemmas on lists and transition systems that the component theories use.
\<close>

section \<open>Outcomes of Go calls\<close>

text \<open>
  \<open>Errorf m\<close> is an error made with \<open>errors.New\<close> or \<open>fmt.Errorf\<close> from a message of its own,
  \<open>Wrapf m e\<close> is \<open>fmt.Errorf("m: %s", e)\<close>, and \<open>Ext m\<close> is an error that a library or the
  operating system returned.
\<close>

datatype error = Errorf string | Wrapf string error | Ext string

text \<open>
  A call that does not deliver a value either returned an error, panicked, or waits for ever on a
  channel nobody serves.
\<close>

datatype fault = Returned error | Panicked string | Blocked

type_synonym 'a res = "fault + 'a"

definition returns_error :: "'a res \<Rightarrow> bool" where
  "returns_error r \<longleftrightarrow> (\<exists>e. r = Inl (Returned e))"

named_theorems go_simps
  \<open>unfolding rules for outcomes and state computations\<close>

fun wrap_res :: "string \<Rightarrow> 'a res \<Rightarrow> 'a res" where
  "wrap_res m (Inl (Returned e)) = Inl (Returned (Wrapf m e))"
| "wrap_res m (Inl f) = Inl f"
| "wrap_res m (Inr x) = Inr x"

text \<open>\<open>if err != nil { return fmt.Errorf("m") }\<close>: the original error is not part of the new one.\<close>

fun replace_err :: "string \<Rightarrow> 'a res \<Rightarrow> 'a res" where
  "replace_err m (Inl (Returned e)) = Inl (Returned (Errorf m))"
| "replace_err m (Inl f) = Inl f"
| "replace_err m (Inr x) = Inr x"

definition bind_res :: "'a res \<Rightarrow> ('a \<Rightarrow> 'b res) \<Rightarrow> 'b res" where
  "bind_res r f = (case r of Inl e \<Rightarrow> Inl e | Inr x \<Rightarrow> f x)"

text \<open>Go's checked indexing: an index outside the slice or string panics.\<close>

definition index_res :: "'a list \<Rightarrow> nat \<Rightarrow> 'a res" where
  "index_res xs i =
     (if i < length xs then Inr (xs ! i) else Inl (Panicked ''index out of range''))"

text \<open>Go's checked slicing \<open>xs[lo:hi]\<close> of a slice whose capacity is its length.\<close>

definition slice_res :: "'a list \<Rightarrow> int \<Rightarrow> int \<Rightarrow> 'a list res" where
  "slice_res xs lo hi =
     (if 0 \<le> lo \<and> lo \<le> hi \<and> hi \<le> int (length xs)
      then Inr (take (nat hi - nat lo) (drop (nat lo) xs))
      else Inl (Panicked ''slice bounds out of range''))"

lemma bind_res_simps [simp, go_simps]:
  "bind_res (Inl e) f = Inl e"
  "bind_res (Inr x) f = f x"
  by (simp_all add: bind_res_def)

lemma bind_res_Inr_iff [simp]:
  "bind_res r f = Inr y \<longleftrightarrow> (\<exists>x. r = Inr x \<and> f x = Inr y)"
  by (cases r) auto

lemma wrap_res_Inr_iff [simp]: "wrap_res m r = Inr x \<longleftrightarrow> r = Inr x"
  by (cases "(m, r)" rule: wrap_res.cases) auto

lemma wrap_res_fault_iff [simp]:
  "wrap_res m r = Inl Blocked \<longleftrightarrow> r = Inl Blocked"
  "wrap_res m r = Inl (Panicked p) \<longleftrightarrow> r = Inl (Panicked p)"
  by (cases "(m, r)" rule: wrap_res.cases; simp)+

lemma replace_err_Inr_iff [simp]: "replace_err m r = Inr x \<longleftrightarrow> r = Inr x"
  by (cases "(m, r)" rule: replace_err.cases) auto

lemma replace_err_fault_iff [simp]:
  "replace_err m r = Inl Blocked \<longleftrightarrow> r = Inl Blocked"
  "replace_err m r = Inl (Panicked p) \<longleftrightarrow> r = Inl (Panicked p)"
  by (cases "(m, r)" rule: replace_err.cases; simp)+

lemma index_res_Inr [simp]: "index_res xs i = Inr x \<longleftrightarrow> i < length xs \<and> xs ! i = x"
  by (auto simp: index_res_def)

lemma slice_res_ok:
  "\<lbrakk> 0 \<le> lo; lo \<le> hi; hi \<le> int (length xs) \<rbrakk> \<Longrightarrow>
     slice_res xs lo hi = Inr (take (nat hi - nat lo) (drop (nat lo) xs))"
  by (simp add: slice_res_def)

section \<open>Computations over a state\<close>

text \<open>
  A method that changes its receiver or talks to the outside world is a function from the state to
  an outcome and the next state. \<open>bindS\<close> runs two of them in sequence and stops at the first
  fault, as \<open>if err != nil { return err }\<close> does.
\<close>

type_synonym ('s, 'a) io = "'s \<Rightarrow> 'a res \<times> 's"

definition retS :: "'a \<Rightarrow> ('s, 'a) io" where
  "retS x s = (Inr x, s)"

definition faultS :: "fault \<Rightarrow> ('s, 'a) io" where
  "faultS e s = (Inl e, s)"

definition errS :: "string \<Rightarrow> ('s, 'a) io" where
  "errS m = faultS (Returned (Errorf m))"

definition liftS :: "'a res \<Rightarrow> ('s, 'a) io" where
  "liftS r s = (r, s)"

definition bindS :: "('s, 'a) io \<Rightarrow> ('a \<Rightarrow> ('s, 'b) io) \<Rightarrow> ('s, 'b) io" where
  "bindS m f s = (case m s of (Inl e, s') \<Rightarrow> (Inl e, s') | (Inr x, s') \<Rightarrow> f x s')"

definition thenS :: "('s, 'a) io \<Rightarrow> ('s, 'b) io \<Rightarrow> ('s, 'b) io" where
  "thenS m k = bindS m (\<lambda>_. k)"

definition wrapS :: "string \<Rightarrow> ('s, 'a) io \<Rightarrow> ('s, 'a) io" where
  "wrapS msg m s = (case m s of (r, s') \<Rightarrow> (wrap_res msg r, s'))"

definition replaceS :: "string \<Rightarrow> ('s, 'a) io \<Rightarrow> ('s, 'a) io" where
  "replaceS msg m s = (case m s of (r, s') \<Rightarrow> (replace_err msg r, s'))"

text \<open>Run a computation and hand its returned error, if any, to the continuation as a value.\<close>

definition tryS :: "('s, 'a) io \<Rightarrow> ('s, error + 'a) io" where
  "tryS m s =
     (case m s of
        (Inl (Returned e), s') \<Rightarrow> (Inr (Inl e), s')
      | (Inl f, s') \<Rightarrow> (Inl f, s')
      | (Inr x, s') \<Rightarrow> (Inr (Inr x), s'))"

text \<open>\<open>for _, x := range xs { if err := f(x); err != nil { return err } }\<close>\<close>

fun eachS :: "('a \<Rightarrow> ('s, unit) io) \<Rightarrow> 'a list \<Rightarrow> ('s, unit) io" where
  "eachS f [] = retS ()"
| "eachS f (x # xs) = bindS (f x) (\<lambda>_. eachS f xs)"

text \<open>The same loop collecting a value per element.\<close>

fun mapS :: "('a \<Rightarrow> ('s, 'b) io) \<Rightarrow> 'a list \<Rightarrow> ('s, 'b list) io" where
  "mapS f [] = retS []"
| "mapS f (x # xs) = bindS (f x) (\<lambda>y. bindS (mapS f xs) (\<lambda>ys. retS (y # ys)))"

lemma retS_eval [simp, go_simps]: "retS x s = (Inr x, s)"
  by (simp add: retS_def)

lemma faultS_eval [simp, go_simps]: "faultS e s = (Inl e, s)"
  by (simp add: faultS_def)

lemma errS_eval [simp, go_simps]: "errS m s = (Inl (Returned (Errorf m)), s)"
  by (simp add: errS_def)

lemma liftS_eval [simp, go_simps]: "liftS r s = (r, s)"
  by (simp add: liftS_def)

lemma bindS_retS [simp]:
  "bindS (retS x) f = f x"
  "bindS (\<lambda>s. (Inr x, s)) f = f x"
  "bindS (\<lambda>s. (Inl e, s)) f = faultS e"
  by (rule ext; simp add: bindS_def)+

lemma bindS_Inr: "m s = (Inr x, s') \<Longrightarrow> bindS m f s = f x s'"
  by (simp add: bindS_def)

lemma bindS_Inl: "m s = (Inl e, s') \<Longrightarrow> bindS m f s = (Inl e, s')"
  by (simp add: bindS_def)

lemma bindS_Inr_iff:
  "bindS m f s = (Inr y, s'') \<longleftrightarrow> (\<exists>x s'. m s = (Inr x, s') \<and> f x s' = (Inr y, s''))"
  by (auto simp: bindS_def split: prod.splits sum.splits)

lemma bindS_InrE [elim]:
  assumes "bindS m f s = (Inr y, s'')"
  obtains x s' where "m s = (Inr x, s')" and "f x s' = (Inr y, s'')"
  using assms by (auto simp: bindS_Inr_iff)

lemma bindS_assoc: "bindS (bindS m f) g = bindS m (\<lambda>x. bindS (f x) g)"
  by (rule ext) (auto simp: bindS_def split: prod.splits sum.splits)

lemma thenS_Inr_iff:
  "thenS m k s = (Inr y, s'') \<longleftrightarrow> (\<exists>x s'. m s = (Inr x, s') \<and> k s' = (Inr y, s''))"
  by (simp add: thenS_def bindS_Inr_iff)

lemma wrapS_Inr_iff: "wrapS msg m s = (Inr x, s') \<longleftrightarrow> m s = (Inr x, s')"
  by (cases "m s") (simp add: wrapS_def)

lemma wrapS_eval: "m s = (r, s') \<Longrightarrow> wrapS msg m s = (wrap_res msg r, s')"
  by (simp add: wrapS_def)

lemma replaceS_Inr_iff: "replaceS msg m s = (Inr x, s') \<longleftrightarrow> m s = (Inr x, s')"
  by (cases "m s") (simp add: replaceS_def)

lemma tryS_Inr_iff:
  "tryS m s = (Inr r, s') \<longleftrightarrow>
     (\<exists>e. r = Inl e \<and> m s = (Inl (Returned e), s')) \<or> (\<exists>x. r = Inr x \<and> m s = (Inr x, s'))"
  by (auto simp: tryS_def split: prod.splits sum.splits fault.splits)

lemmas io_Inr_iffs = bindS_Inr_iff thenS_Inr_iff wrapS_Inr_iff replaceS_Inr_iff tryS_Inr_iff

lemmas io_defs = bindS_def thenS_def wrapS_def replaceS_def tryS_def

text \<open>
  What every step of a loop keeps, the loop keeps; and what every step establishes for its own
  element and the other steps keep, holds for all elements at the end.
\<close>

lemma eachS_keeps:
  assumes "\<And>x s. x \<in> set xs \<Longrightarrow> P s \<Longrightarrow> P (snd (f x s))"
    and "P s"
  shows "P (snd (eachS f xs s))"
  using assms
proof (induction xs arbitrary: s)
  case Nil
  then show ?case by simp
next
  case (Cons x xs)
  have step: "P (snd (f x s))" using Cons.prems by simp
  show ?case
  proof (cases "f x s")
    case (Pair r s')
    with step have "P s'" by simp
    then have "P (snd (eachS f xs s'))"
      using Cons.prems(1) by (intro Cons.IH) simp_all
    with \<open>P s'\<close> Pair show ?thesis
      by (cases r) (simp_all add: bindS_def)
  qed
qed

lemma eachS_append:
  "eachS f (xs @ ys) = bindS (eachS f xs) (\<lambda>_. eachS f ys)"
  by (induction xs) (simp_all add: bindS_assoc)

section \<open>Lists\<close>

text \<open>
  \<open>append(xs[:i], xs[i+1:]...)\<close>: the list without its element at index \<open>i\<close>.
\<close>

definition drop_index :: "nat \<Rightarrow> 'a list \<Rightarrow> 'a list" where
  "drop_index i xs = take i xs @ drop (Suc i) xs"

text \<open>The search loop \<open>for i, x := range xs { if p(x) { ...; break } }\<close>.\<close>

fun find_index :: "('a \<Rightarrow> bool) \<Rightarrow> 'a list \<Rightarrow> nat option" where
  "find_index p [] = None"
| "find_index p (x # xs) = (if p x then Some 0 else map_option Suc (find_index p xs))"

lemma find_index_Some:
  "find_index p xs = Some i \<Longrightarrow> i < length xs \<and> p (xs ! i) \<and> (\<forall>j<i. \<not> p (xs ! j))"
proof (induction xs arbitrary: i)
  case Nil
  then show ?case by simp
next
  case (Cons x xs)
  show ?case
  proof (cases "p x")
    case True
    with Cons.prems show ?thesis by auto
  next
    case False
    with Cons.prems obtain k where k: "find_index p xs = Some k" and i: "i = Suc k"
      by auto
    from Cons.IH [OF k] i False show ?thesis
      by (auto simp: less_Suc_eq_0_disj)
  qed
qed

lemma find_index_None: "find_index p xs = None \<longleftrightarrow> (\<forall>x \<in> set xs. \<not> p x)"
  by (induction xs) auto

lemma find_index_None_eq [simp]: "find_index (\<lambda>x. x = a) xs = None \<longleftrightarrow> a \<notin> set xs"
  by (auto simp: find_index_None)

lemma find_index_mem: "find_index p xs = Some i \<Longrightarrow> xs ! i \<in> set xs"
  by (auto dest: find_index_Some)


lemma drop_index_Suc [simp]: "drop_index (Suc i) (x # xs) = x # drop_index i xs"
  by (simp add: drop_index_def)

lemma drop_index_0 [simp]: "drop_index 0 (x # xs) = xs"
  by (simp add: drop_index_def)

lemma length_drop_index: "i < length xs \<Longrightarrow> length (drop_index i xs) = length xs - 1"
  by (simp add: drop_index_def)

lemma set_drop_index_subset: "set (drop_index i xs) \<subseteq> set xs"
  by (auto simp: drop_index_def dest: in_set_takeD in_set_dropD)

lemma distinct_drop_index [intro]: "distinct xs \<Longrightarrow> distinct (drop_index i xs)"
proof (induction xs arbitrary: i)
  case Nil
  then show ?case by (simp add: drop_index_def)
next
  case (Cons x xs)
  show ?case
  proof (cases i)
    case 0
    with Cons.prems show ?thesis by simp
  next
    case (Suc k)
    with Cons show ?thesis using set_drop_index_subset [of k xs] by auto
  qed
qed

lemma set_drop_index:
  "distinct xs \<Longrightarrow> i < length xs \<Longrightarrow> set (drop_index i xs) = set xs - {xs ! i}"
proof (induction xs arbitrary: i)
  case Nil
  then show ?case by simp
next
  case (Cons x xs)
  show ?case
  proof (cases i)
    case 0
    with Cons.prems show ?thesis by simp
  next
    case (Suc k)
    with Cons show ?thesis by auto
  qed
qed

lemma drop_last_added:
  assumes "d \<notin> set xs"
  shows "find_index (\<lambda>w. w = d) (xs @ [d]) = Some (length xs)" and "drop_index (length xs) (xs @ [d]) = xs"
  using assms by (induction xs) auto

lemma find_index_append:
  "\<forall>x \<in> set xs. \<not> p x \<Longrightarrow> p y \<Longrightarrow> find_index p (xs @ [y]) = Some (length xs)"
  by (induction xs) auto

lemma drop_index_append [simp]: "drop_index (length xs) (xs @ [y]) = xs"
  by (simp add: drop_index_def)

lemma sum_list_update_less:
  "\<lbrakk> k < length ns; n < ns ! k \<rbrakk> \<Longrightarrow> sum_list (ns[k := n]) < sum_list (ns :: nat list)"
  by (induction ns arbitrary: k) (auto split: nat.splits)

section \<open>Transition systems\<close>

text \<open>
  The interface of every state machine of the development: an initial condition, a step relation
  and an invariant that holds at the start and that every step keeps. The component theories
  interpret it on their own steps and get the invariant of every reachable state from here.
\<close>

inductive reach :: "('s \<Rightarrow> bool) \<Rightarrow> ('s \<Rightarrow> 's \<Rightarrow> bool) \<Rightarrow> 's \<Rightarrow> bool"
  for init step where
  reach_init: "init s \<Longrightarrow> reach init step s"
| reach_step: "reach init step s \<Longrightarrow> step s t \<Longrightarrow> reach init step t"

locale guarded_system =
  fixes init :: "'s \<Rightarrow> bool" and step :: "'s \<Rightarrow> 's \<Rightarrow> bool" and inv :: "'s \<Rightarrow> bool"
  assumes inv_init: "init s \<Longrightarrow> inv s"
    and inv_step: "inv s \<Longrightarrow> step s t \<Longrightarrow> inv t"
begin

lemma reach_inv: "reach init step s \<Longrightarrow> inv s"
  by (induction rule: reach.induct) (auto intro: inv_init inv_step)

lemma steps_inv: "step\<^sup>*\<^sup>* s t \<Longrightarrow> inv s \<Longrightarrow> inv t"
  by (induction rule: rtranclp_induct) (auto intro: inv_step)

end

lemma reach_rtranclp: "reach init step s \<Longrightarrow> step\<^sup>*\<^sup>* s t \<Longrightarrow> reach init step t"
  by (rotate_tac, induction rule: rtranclp_induct) (auto intro: reach_step)

text \<open>
  A part of a system: what a step does to the part is nothing or a step of the part alone. The part of a
  reachable state is then reachable, so that every invariant of the part holds in the system.
\<close>

locale subsystem =
  fixes init :: "'s \<Rightarrow> bool" and step :: "'s \<Rightarrow> 's \<Rightarrow> bool"
    and part_init :: "'p \<Rightarrow> bool" and part_step :: "'p \<Rightarrow> 'p \<Rightarrow> bool" and part :: "'s \<Rightarrow> 'p"
  assumes part_init: "init s \<Longrightarrow> part_init (part s)"
    and part_step: "step s t \<Longrightarrow> part t = part s \<or> part_step (part s) (part t)"
begin

lemma reach_part: "reach init step s \<Longrightarrow> reach part_init part_step (part s)"
proof (induction rule: reach.induct)
  case (reach_init s)
  then show ?case by (intro reach.reach_init part_init)
next
  case (reach_step s t)
  from part_step [OF reach_step.hyps(2)] show ?case
    using reach_step.IH by (elim disjE) (simp, rule reach.reach_step)
qed

end

end
