(* ===== verification/Go_Text.thy ===== *)
theory Go_Text
  imports Go_Base
begin

text \<open>
  The parts of Go's text libraries that the program calls: \<open>strings.Fields\<close>, \<open>strings.Split\<close>,
  \<open>strings.Contains\<close>, \<open>strings.ReplaceAll\<close>, \<open>bufio.Scanner\<close> over lines, \<open>strconv.ParseInt\<close>,
  \<open>strconv.Atoi\<close>, \<open>strconv.Itoa\<close>, and the decoder of \<open>encoding/base64\<close>. Go strings are byte
  strings; a \<open>char\<close> is one byte. White space is ASCII white space.
\<close>

section \<open>Splitting and searching\<close>

definition is_space :: "char \<Rightarrow> bool" where
  "is_space c \<longleftrightarrow> of_char c \<in> {9, 10, 11, 12, 13, 32 :: nat}"

text \<open>\<open>strings.Fields\<close>: the maximal runs of bytes that are not white space.\<close>

fun fields_acc :: "string \<Rightarrow> string \<Rightarrow> string list" where
  "fields_acc w [] = (if w = [] then [] else [rev w])"
| "fields_acc w (c # cs) =
     (if is_space c
      then (if w = [] then fields_acc [] cs else rev w # fields_acc [] cs)
      else fields_acc (c # w) cs)"

definition Fields :: "string \<Rightarrow> string list" where
  "Fields s = fields_acc [] s"

text \<open>\<open>strings.Split(s, sep)\<close> for a separator of one byte.\<close>

fun split_on :: "char \<Rightarrow> string \<Rightarrow> string list" where
  "split_on sep [] = [[]]"
| "split_on sep (c # cs) =
     (if c = sep then [] # split_on sep cs
      else (case split_on sep cs of [] \<Rightarrow> [[c]] | w # ws \<Rightarrow> (c # w) # ws))"

text \<open>\<open>strings.Contains(s, t)\<close>.\<close>

fun has_prefix :: "string \<Rightarrow> string \<Rightarrow> bool" where
  "has_prefix [] s = True"
| "has_prefix (c # cs) [] = False"
| "has_prefix (c # cs) (d # ds) = (c = d \<and> has_prefix cs ds)"

fun contains :: "string \<Rightarrow> string \<Rightarrow> bool" where
  "contains [] t = (t = [])"
| "contains (c # cs) t = (has_prefix t (c # cs) \<or> contains cs t)"

text \<open>\<open>strings.ReplaceAll(s, a, b)\<close> for strings of one byte.\<close>

definition replace_all :: "char \<Rightarrow> char \<Rightarrow> string \<Rightarrow> string" where
  "replace_all a b s = map (\<lambda>c. if c = a then b else c) s"

lemma split_on_not_Nil [simp]: "split_on sep s \<noteq> []"
  by (induction s) (auto split: list.splits)

lemma split_on_no_sep: "sep \<notin> set s \<Longrightarrow> split_on sep s = [s]"
  by (induction s) auto

lemma split_on_append:
  "sep \<notin> set s \<Longrightarrow> split_on sep (s @ sep # t) = s # split_on sep t"
  by (induction s) auto

lemma fields_acc_word:
  "\<forall>c \<in> set s. \<not> is_space c \<Longrightarrow> fields_acc w (s @ t) = fields_acc (rev s @ w) t"
  by (induction s arbitrary: w) auto

lemma fields_acc_spaces:
  "\<forall>c \<in> set s. is_space c \<Longrightarrow> fields_acc [] (s @ t) = fields_acc [] t"
  by (induction s) auto

lemma fields_Cons_word:
  assumes "s \<noteq> []" and "\<forall>c \<in> set s. \<not> is_space c" and "is_space b"
  shows "Fields (s @ b # t) = s # Fields t"
  using assms by (simp add: Fields_def fields_acc_word)

lemma fields_single:
  assumes "s \<noteq> []" and "\<forall>c \<in> set s. \<not> is_space c"
  shows "Fields s = [s]"
  using fields_acc_word [of s "[]" "[]"] assms by (simp add: Fields_def)

lemma fields_spaces: "\<forall>c \<in> set s. is_space c \<Longrightarrow> Fields (s @ t) = Fields t"
  by (simp add: Fields_def fields_acc_spaces)

lemma fields_acc_words:
  "w \<in> set (fields_acc v s) \<Longrightarrow> \<forall>c \<in> set v. \<not> is_space c \<Longrightarrow>
     w \<noteq> [] \<and> (\<forall>c \<in> set w. \<not> is_space c)"
proof (induction s arbitrary: v)
  case Nil
  then show ?case by (cases "v = []") simp_all
next
  case (Cons c s)
  show ?case
  proof (cases "is_space c")
    case False
    with Cons.prems show ?thesis by (intro Cons.IH [of "c # v"]) simp_all
  next
    case True
    with Cons.prems have "w \<in> set (fields_acc [] s) \<or> (v \<noteq> [] \<and> w = rev v)"
      by (cases "v = []") auto
    with Cons.IH [of "[]"] Cons.prems(2) show ?thesis by auto
  qed
qed

lemma fields_words: "w \<in> set (Fields s) \<Longrightarrow> w \<noteq> [] \<and> (\<forall>c \<in> set w. \<not> is_space c)"
  using fields_acc_words [of w "[]" s] by (simp add: Fields_def)

lemma has_prefix_iff: "has_prefix p s \<longleftrightarrow> (\<exists>t. s = p @ t)"
  by (induction p s rule: has_prefix.induct) auto

lemma contains_iff: "contains s t \<longleftrightarrow> (\<exists>a b. s = a @ t @ b)"
proof (induction s)
  case Nil
  then show ?case by auto
next
  case (Cons c s)
  have "(\<exists>a b. c # s = a @ t @ b) \<longleftrightarrow> (\<exists>b. c # s = t @ b) \<or> (\<exists>a b. s = a @ t @ b)"
  proof
    assume "\<exists>a b. c # s = a @ t @ b"
    then obtain a b where ab: "c # s = a @ t @ b" by blast
    show "(\<exists>b. c # s = t @ b) \<or> (\<exists>a b. s = a @ t @ b)"
      using ab by (cases a) auto
  next
    assume "(\<exists>b. c # s = t @ b) \<or> (\<exists>a b. s = a @ t @ b)"
    then show "\<exists>a b. c # s = a @ t @ b"
      by (metis append_Cons append_Nil)
  qed
  with Cons show ?case by (auto simp: has_prefix_iff)
qed

lemma length_replace_all [simp]: "length (replace_all a b s) = length s"
  by (simp add: replace_all_def)

text \<open>
  \<open>bufio.Scanner\<close> with its default line splitter: the lines without their newline and one trailing
  carriage return; a text that ends in a newline has no empty last line. A line of 64 KiB or more
  does not fit the buffer: scanning stops there with \<open>bufio.ErrTooLong\<close>.
\<close>

definition max_token :: nat where "max_token = 65536"

definition drop_cr :: "string \<Rightarrow> string" where
  "drop_cr l = (if l \<noteq> [] \<and> last l = CHR 0x0D then butlast l else l)"

definition raw_lines :: "string \<Rightarrow> string list" where
  "raw_lines s = (let ls = split_on CHR 0x0A s in if last ls = [] then butlast ls else ls)"

definition scan_lines :: "string \<Rightarrow> string list \<times> error option" where
  "scan_lines s =
     (let ls = raw_lines s; ok = takeWhile (\<lambda>l. length l < max_token) ls
      in (map drop_cr ok, if length ok = length ls then None else Some (Ext ''bufio.Scanner: token too long'')))"

lemma raw_lines_join:
  assumes "\<forall>l \<in> set ls. CHR 0x0A \<notin> set l"
  shows "raw_lines (concat (map (\<lambda>l. l @ [CHR 0x0A]) ls)) = ls"
proof -
  have "split_on CHR 0x0A (concat (map (\<lambda>l. l @ [CHR 0x0A]) ls)) = ls @ [[]]"
    using assms by (induction ls) (simp_all add: split_on_append)
  then show ?thesis by (simp add: raw_lines_def)
qed

section \<open>Numbers\<close>

definition digit_val :: "char \<Rightarrow> nat option" where
  "digit_val c =
     (let n = of_char c in
      if 48 \<le> n \<and> n \<le> 57 then Some (n - 48)
      else if 97 \<le> n \<and> n \<le> 122 then Some (n - 97 + 10)
      else if 65 \<le> n \<and> n \<le> 90 then Some (n - 65 + 10)
      else None)"

definition syntax_error :: error where "syntax_error = Ext ''invalid syntax''"
definition range_error :: error where "range_error = Ext ''value out of range''"

definition max_uint64 :: nat where "max_uint64 = 2 ^ 64 - 1"

text \<open>The digit loop of \<open>strconv.ParseUint\<close>: digits from the left, checked against 64 bits.\<close>

fun uint_loop :: "nat \<Rightarrow> nat \<Rightarrow> string \<Rightarrow> error + nat" where
  "uint_loop base n [] = Inr n"
| "uint_loop base n (c # cs) =
     (case digit_val c of
        None \<Rightarrow> Inl syntax_error
      | Some d \<Rightarrow>
          if base \<le> d then Inl syntax_error
          else if max_uint64 < n * base + d then Inl range_error
          else uint_loop base (n * base + d) cs)"

definition parse_uint :: "nat \<Rightarrow> string \<Rightarrow> error + nat" where
  "parse_uint base s = (if s = [] then Inl syntax_error else uint_loop base 0 s)"

text \<open>\<open>strconv.ParseInt(s, base, 64)\<close>; a bit size of 0 means the same on a 64-bit machine.\<close>

definition ParseInt :: "nat \<Rightarrow> string \<Rightarrow> error + int" where
  "ParseInt base s =
     (let (neg, digits) =
        (case s of
           [] \<Rightarrow> (False, [])
         | c # cs \<Rightarrow> if c = CHR ''+'' then (False, cs)
                     else if c = CHR ''-'' then (True, cs) else (False, s))
      in case parse_uint base digits of
           Inl e \<Rightarrow> Inl e
         | Inr un \<Rightarrow>
             if \<not> neg \<and> 2 ^ 63 \<le> un then Inl range_error
             else if neg \<and> 2 ^ 63 < un then Inl range_error
             else Inr (if neg then - int un else int un))"

definition Atoi :: "string \<Rightarrow> error + int" where
  "Atoi s = ParseInt 10 s"

text \<open>Printing a number in a base, most significant digit first.\<close>

definition digit_char :: "nat \<Rightarrow> char" where
  "digit_char d = (if d < 10 then char_of (48 + d) else char_of (97 + (d - 10)))"

lemma digit_char_simps [simp]:
  "digit_char 0 = CHR ''0''" "digit_char (Suc 0) = CHR ''1''" "digit_char 1 = CHR ''1''" "digit_char 2 = CHR ''2''"
  "digit_char 3 = CHR ''3''" "digit_char 4 = CHR ''4''" "digit_char 5 = CHR ''5''"
  "digit_char 6 = CHR ''6''" "digit_char 7 = CHR ''7''" "digit_char 8 = CHR ''8''"
  "digit_char 9 = CHR ''9''" "digit_char 10 = CHR ''a''" "digit_char 11 = CHR ''b''"
  "digit_char 12 = CHR ''c''" "digit_char 13 = CHR ''d''" "digit_char 14 = CHR ''e''"
  "digit_char 15 = CHR ''f''"
  by code_simp+

fun digits_of :: "nat \<Rightarrow> nat \<Rightarrow> string" where
  "digits_of base n =
     (if n < base \<or> base < 2 then [digit_char n]
      else digits_of base (n div base) @ [digit_char (n mod base)])"

declare digits_of.simps [simp del]

definition Itoa :: "int \<Rightarrow> string" where
  "Itoa n = (if n < 0 then CHR ''-'' # digits_of 10 (nat (- n)) else digits_of 10 (nat n))"

text \<open>\<open>%0wx\<close>: base 16, padded with zeros to a width.\<close>

definition hex_pad :: "nat \<Rightarrow> nat \<Rightarrow> string" where
  "hex_pad w n = replicate (w - length (digits_of 16 n)) CHR ''0'' @ digits_of 16 n"

lemma digit_val_less: "digit_val c = Some d \<Longrightarrow> d < 36"
  by (auto simp: digit_val_def Let_def split: if_splits)

lemma digit_val_char:
  assumes "d < 36"
  shows "digit_val (digit_char d) = Some d"
proof (cases "d < 10")
  case True
  then show ?thesis by (simp add: digit_val_def digit_char_def)
next
  case False
  with assms show ?thesis by (simp add: digit_val_def digit_char_def)
qed

lemma uint_loop_append:
  "uint_loop base n (xs @ ys) =
     (case uint_loop base n xs of Inl e \<Rightarrow> Inl e | Inr m \<Rightarrow> uint_loop base m ys)"
  by (induction base n xs rule: uint_loop.induct) (auto split: option.splits)

lemma uint_loop_bound: "uint_loop base n s = Inr m \<Longrightarrow> n \<le> max_uint64 \<Longrightarrow> m \<le> max_uint64"
  by (induction base n s rule: uint_loop.induct) (auto split: option.splits if_splits)

lemma uint_loop_digits:
  assumes "2 \<le> base" and "base \<le> 36" and "n \<le> max_uint64"
  shows "uint_loop base 0 (digits_of base n) = Inr n"
  using assms
proof (induction base n rule: digits_of.induct)
  case (1 base n)
  show ?case
  proof (cases "n < base")
    case True
    with 1 show ?thesis by (simp add: digits_of.simps [of base n] digit_val_char)
  next
    case False
    have "n div base \<le> max_uint64"
      using 1 div_le_dividend order_trans by blast
    with 1 False have ih: "uint_loop base 0 (digits_of base (n div base)) = Inr (n div base)"
      by simp
    have "n mod base < base" using 1 by simp
    moreover from this have "n mod base < 36" using 1(3) by (rule less_le_trans)
    then have "digit_val (digit_char (n mod base)) = Some (n mod base)"
      by (rule digit_val_char)
    ultimately show ?thesis using ih 1 False
      by (simp add: digits_of.simps [of base n] uint_loop_append not_le)
  qed
qed

lemma digits_of_not_Nil [simp]: "digits_of base n \<noteq> []"
  by (subst digits_of.simps) simp

lemma uint_loop_zeros: "2 \<le> base \<Longrightarrow> uint_loop base 0 (replicate k CHR ''0'' @ s) = uint_loop base 0 s"
  by (induction k) (auto simp: digit_val_def)

lemma length_digits_of: "\<lbrakk> 2 \<le> base; n < base ^ Suc k \<rbrakk> \<Longrightarrow> length (digits_of base n) \<le> Suc k"
proof (induction k arbitrary: n)
  case 0
  then show ?case by (simp add: digits_of.simps [of base n])
next
  case (Suc k)
  show ?case
  proof (cases "n < base")
    case True
    then show ?thesis by (simp add: digits_of.simps [of base n])
  next
    case False
    have "n div base < base ^ Suc k"
      using Suc.prems by (simp add: less_mult_imp_div_less mult.commute)
    with Suc.IH Suc.prems(1) False show ?thesis by (simp add: digits_of.simps [of base n])
  qed
qed

text \<open>The characters that printing a number can produce.\<close>

definition number_char :: "char \<Rightarrow> bool" where
  "number_char c \<longleftrightarrow> (\<exists>d. digit_val c = Some d)"

lemma digits_of_chars:
  "2 \<le> base \<Longrightarrow> base \<le> 36 \<Longrightarrow> c \<in> set (digits_of base n) \<Longrightarrow> number_char c"
proof (induction base n rule: digits_of.induct)
  case (1 base n)
  show ?case
  proof (cases "n < base")
    case True
    with 1 have "c = digit_char n" "n < 36" by (simp_all add: digits_of.simps [of base n])
    then show ?thesis using digit_val_char number_char_def by blast
  next
    case False
    with 1 have "c \<in> set (digits_of base (n div base)) \<or> c = digit_char (n mod base)"
      by (auto simp: digits_of.simps [of base n])
    moreover have "n mod base < base" using 1 by simp
    then have "n mod base < 36" using 1 by (meson less_le_trans)
    ultimately show ?thesis using 1 False digit_val_char number_char_def
      by (metis linorder_not_less)
  qed
qed

lemma hex_pad_chars: "c \<in> set (hex_pad w n) \<Longrightarrow> number_char c"
  using digits_of_chars [of 16 c n]
  by (auto simp: hex_pad_def number_char_def digit_val_def)

lemma number_char_simps:
  "number_char c \<Longrightarrow> \<not> is_space c"
  "\<not> number_char CHR ''-''" "\<not> number_char CHR '':''" "\<not> number_char CHR ''+''"
  by (auto simp: number_char_def digit_val_def is_space_def Let_def split: if_splits)

lemma ParseInt_digits:
  assumes "s \<noteq> []" and "\<forall>c \<in> set s. number_char c"
    and "uint_loop base 0 s = Inr n" and "n < 2 ^ 63"
  shows "ParseInt base s = Inr (int n)"
proof -
  from assms(1) obtain c cs where s: "s = c # cs" by (cases s) auto
  with assms(2) have "c \<noteq> CHR ''+''" "c \<noteq> CHR ''-''"
    using number_char_simps by auto
  with s assms(3,4) show ?thesis by (simp add: ParseInt_def parse_uint_def)
qed

lemma ParseInt_hex_pad:
  assumes "n < 2 ^ 63"
  shows "ParseInt 16 (hex_pad w n) = Inr (int n)"
proof (rule ParseInt_digits)
  show "hex_pad w n \<noteq> []" by (simp add: hex_pad_def)
  show "\<forall>c \<in> set (hex_pad w n). number_char c" by (blast intro: hex_pad_chars)
  show "uint_loop 16 0 (hex_pad w n) = Inr n"
    using assms by (simp add: hex_pad_def uint_loop_zeros uint_loop_digits max_uint64_def)
qed (rule assms)

lemma ParseInt_bounds: "ParseInt base s = Inr n \<Longrightarrow> - (2 ^ 63) \<le> n \<and> n < 2 ^ 63"
  by (auto simp: ParseInt_def split: sum.splits prod.splits if_splits)

lemma Atoi_digits: "n < 2 ^ 63 \<Longrightarrow> Atoi (digits_of 10 n) = Inr (int n)"
  unfolding Atoi_def
  by (rule ParseInt_digits)
    (auto intro: digits_of_chars [of 10] simp: uint_loop_digits max_uint64_def)

lemma Atoi_Itoa:
  assumes "- (2 ^ 63) \<le> n" and "n < 2 ^ 63"
  shows "Atoi (Itoa n) = Inr n"
proof (cases "n < 0")
  case False
  with assms Atoi_digits [of "nat n"] show ?thesis by (simp add: Itoa_def nat_less_iff)
next
  case True
  then have "uint_loop 10 0 (digits_of 10 (nat (- n))) = Inr (nat (- n))"
    using assms by (intro uint_loop_digits) (simp_all add: max_uint64_def nat_le_iff)
  with True assms show ?thesis
    by (simp add: Itoa_def Atoi_def ParseInt_def parse_uint_def nat_le_iff)
qed

end
