(* ===== verification/Go_Env.thy ===== *)
theory Go_Env
  imports Go_Base
begin

text \<open>
  What the services of the invoker and of the container runtime share: methods whose receiver is one part
  of a state and whose calls to libraries change another part, tables of handles that are filled on first
  use, and the loops of the clean-up methods.
\<close>

section \<open>A receiver beside an environment\<close>

text \<open>
  \<open>env m\<close> runs a library call on the environment, \<open>modS f\<close> changes the receiver, \<open>askS f\<close> reads it, and
  \<open>recS m\<close> runs a method of the receiver alone.
\<close>

definition env :: "('w, 'a) io \<Rightarrow> ('s \<times> 'w, 'a) io" where
  "env m = (\<lambda>(s, w). case m w of (r, w') \<Rightarrow> (r, (s, w')))"

definition recS :: "('s, 'a) io \<Rightarrow> ('s \<times> 'w, 'a) io" where
  "recS m = (\<lambda>(s, w). case m s of (r, s') \<Rightarrow> (r, (s', w)))"

definition modS :: "('s \<Rightarrow> 's) \<Rightarrow> ('s \<times> 'w, unit) io" where
  "modS f = (\<lambda>(s, w). (Inr (), (f s, w)))"

definition askS :: "('s \<Rightarrow> 'a) \<Rightarrow> ('s, 'a) io" where
  "askS f s = (Inr (f s), s)"

text \<open>The result \<open>(x, err)\<close> of a library as an outcome.\<close>

definition of_sum :: "error + 'a \<Rightarrow> 'a res" where
  "of_sum r = (case r of Inl e \<Rightarrow> Inl (Returned e) | Inr x \<Rightarrow> Inr x)"

text \<open>A call whose error is only logged.\<close>

definition loggedS :: "('s, 'a) io \<Rightarrow> ('s, unit) io" where
  "loggedS m = bindS (tryS m) (\<lambda>_. retS ())"

text \<open>
  \<open>defer cleanup()\<close> around the rest of a function: it runs whether that returns or panics, and the error it
  returns is dropped.
\<close>

definition finallyS :: "('s, 'a) io \<Rightarrow> ('s, unit) io \<Rightarrow> ('s, 'a) io" where
  "finallyS m cleanup s =
     (case m s of
        (Inl Blocked, s') \<Rightarrow> (Inl Blocked, s')
      | (r, s') \<Rightarrow>
          (case cleanup s' of
             (Inr _, s'') \<Rightarrow> (r, s'')
           | (Inl (Returned e), s'') \<Rightarrow> (r, s'')
           | (Inl f, s'') \<Rightarrow> (Inl f, s'')))"

lemma env_eval [simp, go_simps]: "env m (s, w) = (fst (m w), (s, snd (m w)))"
  by (simp add: env_def split: prod.splits)

lemma recS_eval [simp, go_simps]: "recS m (s, w) = (fst (m s), (snd (m s), w))"
  by (simp add: recS_def split: prod.splits)

lemma modS_eval [simp, go_simps]: "modS f (s, w) = (Inr (), (f s, w))"
  by (simp add: modS_def)

lemma askS_eval [simp, go_simps]: "askS f s = (Inr (f s), s)"
  by (simp add: askS_def)

lemma of_sum_simps [simp]: "of_sum (Inl e) = Inl (Returned e)" "of_sum (Inr x) = Inr x"
  by (simp_all add: of_sum_def)

lemma of_sum_Inr_iff [simp]: "of_sum r = Inr x \<longleftrightarrow> r = Inr x"
  by (cases r) simp_all

lemma bindS_pair: "bindS m f s = (case m s of (Inl e, s') \<Rightarrow> (Inl e, s') | (Inr x, s') \<Rightarrow> f x s')"
  by (simp add: bindS_def)

lemma tryS_Inr [simp]: "m s = (Inr x, s') \<Longrightarrow> tryS m s = (Inr (Inr x), s')"
  by (simp add: tryS_def)

lemma tryS_Returned [simp]: "m s = (Inl (Returned e), s') \<Longrightarrow> tryS m s = (Inr (Inl e), s')"
  by (simp add: tryS_def)

lemma loggedS_Inr: "m s = (Inr x, s') \<Longrightarrow> loggedS m s = (Inr (), s')"
  by (simp add: loggedS_def bindS_def)

lemma loggedS_Returned: "m s = (Inl (Returned e), s') \<Longrightarrow> loggedS m s = (Inr (), s')"
  by (simp add: loggedS_def bindS_def)

section \<open>Loops over a state\<close>

lemma eachS_ok: "list_all (\<lambda>x. \<forall>s. f x s = (Inr (), g x s)) xs \<Longrightarrow> eachS f xs s = (Inr (), fold g xs s)"
  by (induction xs arbitrary: s) (simp_all add: bindS_def)

text \<open>The first element that fails ends the loop, and nothing is done for the elements after it.\<close>

lemma eachS_stops:
  "\<lbrakk> eachS f xs s = (Inr (), s1); f x s1 = (Inl e, s2) \<rbrakk> \<Longrightarrow> eachS f (xs @ x # ys) s = (Inl e, s2)"
  by (simp add: eachS_append bindS_def)

lemma eachS_Inr_append:
  "eachS f xs s = (Inr (), s1) \<Longrightarrow> eachS f (xs @ ys) s = eachS f ys s1"
  by (simp add: eachS_append bindS_def)

text \<open>\<open>for _, x := range xs { if err := f(x); err != nil { last = err } }\<close>.\<close>

fun last_errS :: "('a \<Rightarrow> ('s, unit) io) \<Rightarrow> 'a list \<Rightarrow> error option \<Rightarrow> ('s, error option) io" where
  "last_errS f [] err = retS err"
| "last_errS f (x # xs) err =
     bindS (tryS (f x)) (\<lambda>r. last_errS f xs (case r of Inl e \<Rightarrow> Some e | Inr _ \<Rightarrow> err))"

definition fail_some :: "error option \<Rightarrow> ('s, unit) io" where
  "fail_some e = (case e of None \<Rightarrow> retS () | Some e \<Rightarrow> faultS (Returned e))"

lemma fail_some_simps [simp]: "fail_some None = retS ()" "fail_some (Some e) = faultS (Returned e)"
  by (simp_all add: fail_some_def)

lemma find_index_snoc:
  "find_index p (xs @ [y]) =
     (case find_index p xs of Some i \<Rightarrow> Some i | None \<Rightarrow> if p y then Some (length xs) else None)"
  by (induction xs) (auto split: option.splits)

section \<open>Tables of handles\<close>

text \<open>
  A table that hands out the handle of a key and makes it on first use: what is known is returned and
  nothing else happens; what is made is known afterwards under its own key; a making that fails leaves
  the table as it was. \<open>find\<close> reads the table in a state and \<open>get\<close> is the operation of the code.
\<close>

locale handle_table =
  fixes find :: "'s \<Rightarrow> 'k \<Rightarrow> 'h option"
    and get :: "'k \<Rightarrow> ('s, 'h) io"
  assumes get_known: "find s k = Some h \<Longrightarrow> get k s = (Inr h, s)"
    and get_made: "find s k = None \<Longrightarrow> get k s = (Inr h, s') \<Longrightarrow> find s' = (find s)(k \<mapsto> h)"
    and get_failed: "get k s = (Inl e, s') \<Longrightarrow> find s' = find s"
begin

lemma get_find: "get k s = (Inr h, s') \<Longrightarrow> find s' = (find s)(k \<mapsto> h)"
proof (cases "find s k")
  case None
  then show "get k s = (Inr h, s') \<Longrightarrow> ?thesis" by (rule get_made)
next
  case (Some h')
  then show "get k s = (Inr h, s') \<Longrightarrow> ?thesis" using get_known [OF Some] by auto
qed

lemma get_again: "get k s = (Inr h, s') \<Longrightarrow> get k s' = (Inr h, s')"
  by (simp add: get_known get_find)

lemma get_keeps: "find s j = Some h \<Longrightarrow> get k s = (r, s') \<Longrightarrow> find s' j = Some h"
proof (cases r)
  case (Inl e)
  then show "find s j = Some h \<Longrightarrow> get k s = (r, s') \<Longrightarrow> ?thesis" using get_failed by simp
next
  case (Inr h')
  assume j: "find s j = Some h" and g: "get k s = (r, s')"
  show ?thesis
  proof (cases "j = k")
    case True
    with j g show ?thesis using get_known by auto
  next
    case False
    with j g Inr show ?thesis using get_find by simp
  qed
qed

text \<open>However many keys are asked for, a key keeps its handle.\<close>

lemma gets_keep: "find s j = Some h \<Longrightarrow> mapS get ks s = (r, s') \<Longrightarrow> find s' j = Some h"
proof (induction ks arbitrary: s r s')
  case Nil
  then show ?case by simp
next
  case (Cons k ks)
  obtain q s1 where g: "get k s = (q, s1)" by (cases "get k s")
  with Cons.prems have f1: "find s1 j = Some h" using get_keeps by blast
  obtain q2 s2 where m: "mapS get ks s1 = (q2, s2)" by (cases "mapS get ks s1")
  from Cons.IH [OF f1 m] have f2: "find s2 j = Some h" .
  show ?case
  proof (cases q)
    case (Inl e)
    then show ?thesis using Cons.prems g f1 by (simp add: bindS_def)
  next
    case (Inr x)
    then show ?thesis using Cons.prems g m f2 by (cases q2) (auto simp: bindS_def)
  qed
qed

end

text \<open>The handles of a table that starts with no key are made at most once per key.\<close>

end
