(* ===== verification/Proc_Memory.thy ===== *)
theory Proc_Memory
  imports Go_Text "HOL-Library.Word" "HOL-Library.Signed_Division"
begin

text \<open>
  \<open>state/memory.go\<close>: the memory map of a traced process, the saved contents of its writable pages,
  and the restoration of the pages that the kernel's soft-dirty bits mark as written since the
  checkpoint. Addresses, sizes and page indices are \<open>int64\<close> in the code and \<open>int\<close> here;
  \<open>restore_batch_int64\<close> below shows that no value the restoration computes leaves the range of
  \<open>int64\<close>. Divisions are Go's truncating ones.
\<close>

type_synonym byte = "8 word"

section \<open>Data\<close>

record memory =
  m_name :: string
  startOffset :: int
  endOffset :: int
  processOffset :: int
  readable :: bool
  writable :: bool
  executable :: bool
  shared :: bool
  majorDevice :: int
  minorDevice :: int
  iNode :: int
  content :: "byte list"

text \<open>
  What the code sees of a process under \<open>/proc/pid\<close>: the text of \<open>maps\<close>, the bytes of \<open>mem\<close> and
  of \<open>pagemap\<close> by file offset (an offset without a byte cannot be read or written), or the error
  that opening the file returns.
\<close>

record proc =
  maps_file :: "error + string"
  mem_open :: "error option"
  mem_bytes :: "int \<Rightarrow> byte option"
  pagemap_file :: "error + (int \<Rightarrow> byte option)"

definition io_error :: error where "io_error = Ext ''input/output error''"

text \<open>
  \<open>(*os.File).ReadAt\<close> and \<open>WriteAt\<close>: the longest prefix of the range that is there, and an error
  when that is not all of it.
\<close>

definition addrs :: "int \<Rightarrow> int \<Rightarrow> int list" where
  "addrs off n = [off..off + n - 1]"

definition read_at :: "(int \<Rightarrow> byte option) \<Rightarrow> int \<Rightarrow> int \<Rightarrow> byte list" where
  "read_at f off n = map (\<lambda>a. the (f a)) (takeWhile (\<lambda>a. f a \<noteq> None) (addrs off n))"

definition write_at :: "(int \<Rightarrow> byte option) \<Rightarrow> int \<Rightarrow> byte list \<Rightarrow> (int \<Rightarrow> byte option) \<times> nat" where
  "write_at f off bs =
     (let k = length (takeWhile (\<lambda>a. f a \<noteq> None) (addrs off (int (length bs))))
      in (\<lambda>a. if off \<le> a \<and> a < off + int k then Some (bs ! nat (a - off)) else f a, k))"

section \<open>Reading the memory map\<close>

definition perm_flag :: "string \<Rightarrow> nat \<Rightarrow> char \<Rightarrow> bool res" where
  "perm_flag perms i c = bind_res (index_res perms i) (\<lambda>d. Inr (d = c))"

definition parse_hex :: "string \<Rightarrow> string \<Rightarrow> int res" where
  "parse_hex msg s =
     (case ParseInt 16 s of Inl e \<Rightarrow> Inl (Returned (Wrapf msg e)) | Inr n \<Rightarrow> Inr n)"

definition parse_dec :: "string \<Rightarrow> string \<Rightarrow> int res" where
  "parse_dec msg s =
     (case Atoi s of Inl e \<Rightarrow> Inl (Returned (Wrapf msg e)) | Inr n \<Rightarrow> Inr n)"

definition parseMemoryData :: "string \<Rightarrow> string list \<Rightarrow> memory res" where
  "parseMemoryData nm memoryData =
     bind_res (index_res memoryData 0) (\<lambda>d0.
     let offsets = split_on CHR ''-'' d0 in
     bind_res (index_res memoryData 3) (\<lambda>d3.
     let devices = split_on CHR '':'' d3 in
     bind_res (index_res offsets 0) (\<lambda>o0.
     bind_res (parse_hex ''could not parse offset int'' o0) (\<lambda>start.
     bind_res (index_res offsets 1) (\<lambda>o1.
     bind_res (parse_hex ''could not parse offset int'' o1) (\<lambda>end.
     bind_res (index_res memoryData 2) (\<lambda>d2.
     bind_res (parse_hex ''could not parse offset int'' d2) (\<lambda>off.
     bind_res (index_res devices 0) (\<lambda>v0.
     bind_res (parse_hex ''could not parse device int'' v0) (\<lambda>major.
     bind_res (index_res devices 1) (\<lambda>v1.
     bind_res (parse_hex ''could not parse device int'' v1) (\<lambda>minor.
     bind_res (index_res memoryData 4) (\<lambda>d4.
     bind_res (parse_dec ''could not parse iNode int'' d4) (\<lambda>inode.
     bind_res (index_res memoryData 1) (\<lambda>perms.
     bind_res (perm_flag perms 0 CHR ''r'') (\<lambda>r.
     bind_res (perm_flag perms 1 CHR ''w'') (\<lambda>w.
     bind_res (perm_flag perms 2 CHR ''x'') (\<lambda>x.
     bind_res (perm_flag perms 3 CHR ''s'') (\<lambda>s.
     Inr \<lparr>m_name = nm, startOffset = start, endOffset = end, processOffset = off,
          readable = r, writable = w, executable = x, shared = s,
          majorDevice = major, minorDevice = minor, iNode = inode, content = []\<rparr>)))))))))))))))))))"

definition kernel_owned :: "string \<Rightarrow> bool" where
  "kernel_owned nm \<longleftrightarrow> nm = ''[vvar]'' \<or> nm = ''[vdso]'' \<or> nm = ''[vsyscall]''"

definition location_name :: "string list \<Rightarrow> string" where
  "location_name memoryData = (if 6 \<le> length memoryData then memoryData ! 5 else '''')"

fun parse_lines :: "string list \<Rightarrow> memory list res" where
  "parse_lines [] = Inr []"
| "parse_lines (memoryLine # ls) =
     (let memoryData = Fields memoryLine; nm = location_name memoryData in
      if kernel_owned nm then parse_lines ls
      else bind_res (parseMemoryData nm memoryData) (\<lambda>m.
           bind_res (parse_lines ls) (\<lambda>ms. Inr (m # ms))))"

definition newMemoryLocations :: "'a proc_scheme \<Rightarrow> memory list res" where
  "newMemoryLocations p =
     (case maps_file p of
        Inl e \<Rightarrow> Inl (Returned (Wrapf ''could not open maps file'' e))
      | Inr txt \<Rightarrow>
          (case scan_lines txt of (ls, err) \<Rightarrow>
             bind_res (parse_lines ls) (\<lambda>ms.
             case err of
               None \<Rightarrow> Inr ms
             | Some e \<Rightarrow> Inl (Returned (Wrapf ''could not scan maps file'' e)))))"

definition getMemory :: "memory list \<Rightarrow> string \<Rightarrow> memory res" where
  "getMemory memoryLocations memoryName =
     (case find (\<lambda>m. m_name m = memoryName) memoryLocations of
        None \<Rightarrow> Inl (Returned (Errorf (''no memory '' @ memoryName @ '' found'')))
      | Some m \<Rightarrow> Inr m)"

section \<open>Saving and comparing\<close>

fun save_pages :: "(int \<Rightarrow> byte option) \<Rightarrow> memory list \<Rightarrow> unit res \<times> memory list" where
  "save_pages f [] = (Inr (), [])"
| "save_pages f (m # ms) =
     (if \<not> writable m then (case save_pages f ms of (r, ms') \<Rightarrow> (r, m # ms'))
      else let numBytes = endOffset m - startOffset m in
        if numBytes < 0 then (Inl (Panicked ''makeslice: len out of range''), m # ms)
        else let got = read_at f (startOffset m) numBytes;
                 m' = m\<lparr>content := got @ replicate (nat numBytes - length got) 0\<rparr> in
          if int (length got) \<noteq> numBytes
          then (Inl (Returned (Wrapf ''could not read /proc/pid/mem data'' io_error)), m' # ms)
          else (case save_pages f ms of (r, ms') \<Rightarrow> (r, m' # ms')))"

definition SaveWritablePages :: "'a proc_scheme \<Rightarrow> memory list \<Rightarrow> unit res \<times> memory list" where
  "SaveWritablePages p memoryLocations =
     (case mem_open p of
        Some e \<Rightarrow> (Inl (Returned (Wrapf ''could not open /proc/pid/mem'' e)), memoryLocations)
      | None \<Rightarrow> save_pages (mem_bytes p) memoryLocations)"

fun MemorySize :: "memory list \<Rightarrow> int" where
  "MemorySize [] = 0"
| "MemorySize (m # ms) = int (length (content m)) + MemorySize ms"

text \<open>The last location of the new map that is named \<open>[heap]\<close> wins, as in the loop.\<close>

definition ProgramBreakChanged :: "'a proc_scheme \<Rightarrow> memory list \<Rightarrow> bool res" where
  "ProgramBreakChanged p memoryLocations =
     bind_res (wrap_res ''could not get new memory on program break changed check''
                 (newMemoryLocations p)) (\<lambda>newMemory.
     bind_res (getMemory memoryLocations ''[heap]'') (\<lambda>beforeHeap.
     case find (\<lambda>m. m_name m = ''[heap]'') (rev newMemory) of
       None \<Rightarrow> Inl (Returned (Errorf ''no heap in new memory on break change check''))
     | Some afterHeap \<Rightarrow> Inr (endOffset beforeHeap \<noteq> endOffset afterHeap)))"

definition location_differs :: "memory \<Rightarrow> memory \<Rightarrow> bool" where
  "location_differs newMem oldMem \<longleftrightarrow>
     m_name newMem \<noteq> m_name oldMem \<or>
     startOffset newMem \<noteq> startOffset oldMem \<or>
     endOffset newMem \<noteq> endOffset oldMem \<or>
     processOffset newMem \<noteq> processOffset oldMem \<or>
     readable newMem \<noteq> readable oldMem \<or>
     writable newMem \<noteq> writable oldMem \<or>
     executable newMem \<noteq> executable oldMem \<or>
     shared newMem \<noteq> shared oldMem \<or>
     majorDevice newMem \<noteq> majorDevice oldMem \<or>
     minorDevice newMem \<noteq> minorDevice oldMem \<or>
     iNode newMem \<noteq> iNode oldMem"

definition MemoryChanged :: "'a proc_scheme \<Rightarrow> memory list \<Rightarrow> bool res" where
  "MemoryChanged p memoryLocations =
     bind_res (wrap_res ''could not get new memory on memory changed check''
                 (newMemoryLocations p)) (\<lambda>newMemory.
     if length memoryLocations \<noteq> length newMemory then Inr True
     else Inr (list_ex (\<lambda>(n, old). location_differs n old) (zip newMemory memoryLocations)))"

definition NumMemoryLocationsChanged :: "'a proc_scheme \<Rightarrow> memory list \<Rightarrow> bool res" where
  "NumMemoryLocationsChanged p memoryLocations =
     bind_res (wrap_res ''could not get new memory on memory locations changed check''
                 (newMemoryLocations p)) (\<lambda>newMemory.
     Inr (length memoryLocations \<noteq> length newMemory))"

section \<open>What the readers and savers promise\<close>

text \<open>
  The line the kernel prints for a location in \<open>/proc/pid/maps\<close>, as its documentation gives it: the
  address range, the permissions, the offset, the device, the inode, and the name after some
  padding.
\<close>

definition perm_string :: "memory \<Rightarrow> string" where
  "perm_string m =
     [if readable m then CHR ''r'' else CHR ''-'', if writable m then CHR ''w'' else CHR ''-'',
      if executable m then CHR ''x'' else CHR ''-'', if shared m then CHR ''s'' else CHR ''p'']"

definition maps_line :: "nat \<Rightarrow> memory \<Rightarrow> string" where
  "maps_line pad m =
     (hex_pad 8 (nat (startOffset m)) @ CHR ''-'' # hex_pad 8 (nat (endOffset m))) @ CHR '' '' #
     perm_string m @ CHR '' '' #
     hex_pad 8 (nat (processOffset m)) @ CHR '' '' #
     (hex_pad 2 (nat (majorDevice m)) @ CHR '':'' # hex_pad 2 (nat (minorDevice m))) @ CHR '' '' #
     digits_of 10 (nat (iNode m)) @ CHR '' '' #
     replicate pad CHR '' '' @ m_name m"

definition fits63 :: "int \<Rightarrow> bool" where
  "fits63 n \<longleftrightarrow> 0 \<le> n \<and> n < 2 ^ 63"

text \<open>A location whose numbers an \<open>int64\<close> holds and whose name has no white space.\<close>

definition plain_name :: "string \<Rightarrow> bool" where
  "plain_name nm \<longleftrightarrow> (\<forall>c \<in> set nm. \<not> is_space c)"

definition printable :: "memory \<Rightarrow> bool" where
  "printable m \<longleftrightarrow>
     fits63 (startOffset m) \<and> fits63 (endOffset m) \<and> fits63 (processOffset m) \<and>
     fits63 (majorDevice m) \<and> fits63 (minorDevice m) \<and> fits63 (iNode m)"

lemma hex_pad_not_Nil [simp]: "hex_pad w n \<noteq> []"
  by (simp add: hex_pad_def)

lemma hex_pad_no_space: "c \<in> set (hex_pad w n) \<Longrightarrow> \<not> is_space c"
  by (blast dest: hex_pad_chars number_char_simps(1))

lemma hex_pad_no_sep [simp]:
  "CHR ''-'' \<notin> set (hex_pad w n)" "CHR '':'' \<notin> set (hex_pad w n)"
  using hex_pad_chars number_char_simps(2,3) by blast+

lemma digits_no_space: "c \<in> set (digits_of 10 n) \<Longrightarrow> \<not> is_space c"
  using digits_of_chars [of 10] number_char_simps(1) by auto

lemma is_space_blank [simp]: "is_space CHR '' ''" "\<not> is_space CHR ''-''" "\<not> is_space CHR '':''"
  by (simp_all add: is_space_def)

lemma Fields_concat_words:
  "\<forall>w \<in> set ws. w \<noteq> [] \<and> (\<forall>c \<in> set w. \<not> is_space c) \<Longrightarrow>
     Fields (concat (map (\<lambda>w. w @ [CHR '' '']) ws) @ t) = ws @ Fields t"
  by (induction ws) (simp_all add: fields_Cons_word)

lemma Fields_maps_line:
  assumes "plain_name (m_name m)"
  shows "Fields (maps_line pad m) =
     [hex_pad 8 (nat (startOffset m)) @ CHR ''-'' # hex_pad 8 (nat (endOffset m)),
      perm_string m, hex_pad 8 (nat (processOffset m)),
      hex_pad 2 (nat (majorDevice m)) @ CHR '':'' # hex_pad 2 (nat (minorDevice m)),
      digits_of 10 (nat (iNode m))] @ (if m_name m = [] then [] else [m_name m])"
proof -
  have perm: "perm_string m \<noteq> []" "\<forall>c \<in> set (perm_string m). \<not> is_space c"
    by (auto simp: perm_string_def is_space_def)
  have name: "Fields (replicate pad CHR '' '' @ m_name m) = (if m_name m = [] then [] else [m_name m])"
    using assms fields_spaces [of "replicate pad CHR '' ''" "m_name m"] fields_single [of "m_name m"]
    by (auto simp: plain_name_def Fields_def)
  let ?ws = "[hex_pad 8 (nat (startOffset m)) @ CHR ''-'' # hex_pad 8 (nat (endOffset m)),
      perm_string m, hex_pad 8 (nat (processOffset m)),
      hex_pad 2 (nat (majorDevice m)) @ CHR '':'' # hex_pad 2 (nat (minorDevice m)),
      digits_of 10 (nat (iNode m))]"
  have "\<forall>w \<in> set ?ws. w \<noteq> [] \<and> (\<forall>c \<in> set w. \<not> is_space c)"
    using perm by (auto dest: hex_pad_no_space digits_no_space)
  then have "Fields (concat (map (\<lambda>w. w @ [CHR '' '']) ?ws) @ replicate pad CHR '' '' @ m_name m)
      = ?ws @ Fields (replicate pad CHR '' '' @ m_name m)"
    by (rule Fields_concat_words)
  then show ?thesis by (simp add: maps_line_def name)
qed

text \<open>
  \<open>parseMemoryData\<close> reads back the location the kernel printed, with no content, and skipping the
  kernel-owned names reads back exactly the other locations, in order.
\<close>

lemma parse_hex_pad [simp]: "fits63 n \<Longrightarrow> parse_hex msg (hex_pad w (nat n)) = Inr n"
  by (simp add: parse_hex_def fits63_def ParseInt_hex_pad nat_less_iff)

lemma parse_dec_digits [simp]: "fits63 n \<Longrightarrow> parse_dec msg (digits_of 10 (nat n)) = Inr n"
  by (simp add: parse_dec_def fits63_def Atoi_digits nat_less_iff)

lemma split_pair [simp]:
  "split_on CHR ''-'' (hex_pad w a @ CHR ''-'' # hex_pad v b) = [hex_pad w a, hex_pad v b]"
  "split_on CHR '':'' (hex_pad w a @ CHR '':'' # hex_pad v b) = [hex_pad w a, hex_pad v b]"
  by (simp_all add: split_on_append split_on_no_sep)

lemma parseMemoryData_maps_line:
  assumes "plain_name (m_name m)" and "printable m"
  shows "parseMemoryData nm (Fields (maps_line pad m)) = Inr (m\<lparr>m_name := nm, content := []\<rparr>)"
  using assms
  by (simp add: Fields_maps_line parseMemoryData_def index_res_def printable_def Let_def
      perm_flag_def perm_string_def)

lemma location_name_maps_line:
  "plain_name (m_name m) \<Longrightarrow> location_name (Fields (maps_line pad m)) = m_name m"
  by (simp add: Fields_maps_line location_name_def)

lemma parse_lines_maps_lines:
  assumes "\<forall>m \<in> set ms. plain_name (m_name m) \<and> (kernel_owned (m_name m) \<or> printable m)"
  shows "parse_lines (map (maps_line pad) ms) =
     Inr (map (\<lambda>m. m\<lparr>content := []\<rparr>) (filter (\<lambda>m. \<not> kernel_owned (m_name m)) ms))"
  using assms
  by (induction ms) (auto simp: location_name_maps_line parseMemoryData_maps_line Let_def)

text \<open>The text of a \<open>maps\<close> file that lists the given locations.\<close>

definition maps_text :: "nat \<Rightarrow> memory list \<Rightarrow> string" where
  "maps_text pad ms = concat (map (\<lambda>m. maps_line pad m @ [CHR 0x0A]) ms)"

definition maps_ok :: "nat \<Rightarrow> memory \<Rightarrow> bool" where
  "maps_ok pad m \<longleftrightarrow>
     plain_name (m_name m) \<and> (kernel_owned (m_name m) \<or> printable m) \<and>
     length (maps_line pad m) < max_token"

lemma perm_string_no_space: "c \<in> set (perm_string m) \<Longrightarrow> \<not> is_space c"
  by (auto simp: perm_string_def is_space_def split: if_splits)

lemma maps_line_chars:
  assumes "plain_name (m_name m)" and "c \<in> set (maps_line pad m)"
  shows "\<not> is_space c \<or> c = CHR '' ''"
proof -
  from assms(2) have "c \<in> {CHR '' '', CHR ''-'', CHR '':''} \<or> c \<in> set (perm_string m) \<or>
      (\<exists>w n. c \<in> set (hex_pad w n)) \<or> (\<exists>n. c \<in> set (digits_of 10 n)) \<or> c \<in> set (m_name m)"
    unfolding maps_line_def by (simp only: set_append set_simps Un_iff insert_iff set_replicate_conv_if) (fastforce split: if_splits)
  then show ?thesis
    using assms(1) perm_string_no_space hex_pad_no_space digits_no_space
    by (auto simp: plain_name_def)
qed

lemma maps_line_no_newline:
  assumes "plain_name (m_name m)"
  shows "CHR 0x0A \<notin> set (maps_line pad m)" and "CHR 0x0D \<notin> set (maps_line pad m)"
proof -
  have "is_space CHR 0x0A" "is_space CHR 0x0D" by (simp_all add: is_space_def)
  then show "CHR 0x0A \<notin> set (maps_line pad m)" "CHR 0x0D \<notin> set (maps_line pad m)"
    using maps_line_chars [OF assms, of "CHR 0x0A" pad] maps_line_chars [OF assms, of "CHR 0x0D" pad]
    by auto
qed

lemma drop_cr_maps_line: "plain_name (m_name m) \<Longrightarrow> drop_cr (maps_line pad m) = maps_line pad m"
  using maps_line_no_newline(2) [of m pad] last_in_set [of "maps_line pad m"]
  unfolding drop_cr_def by metis

lemma scan_lines_maps_text:
  assumes "\<forall>m \<in> set ms. maps_ok pad m"
  shows "scan_lines (maps_text pad ms) = (map (maps_line pad) ms, None)"
proof -
  have raw: "raw_lines (maps_text pad ms) = map (maps_line pad) ms"
    using raw_lines_join [of "map (maps_line pad) ms"] assms maps_line_no_newline(1)
    by (auto simp: maps_text_def maps_ok_def comp_def)
  have short: "takeWhile (\<lambda>l. length l < max_token) (map (maps_line pad) ms) = map (maps_line pad) ms"
    using assms by (auto simp: takeWhile_eq_all_conv maps_ok_def)
  have "map drop_cr (map (maps_line pad) ms) = map (maps_line pad) ms"
    using assms by (auto simp: maps_ok_def drop_cr_maps_line)
  with raw short show ?thesis unfolding scan_lines_def Let_def by (simp only: if_True refl)
qed

definition visible :: "memory list \<Rightarrow> memory list" where
  "visible ms = map (\<lambda>m. m\<lparr>content := []\<rparr>) (filter (\<lambda>m. \<not> kernel_owned (m_name m)) ms)"

lemma newMemoryLocations_maps_text:
  assumes "maps_file p = Inr (maps_text pad ms)" and "\<forall>m \<in> set ms. maps_ok pad m"
  shows "newMemoryLocations p = Inr (visible ms)"
proof -
  have "parse_lines (map (maps_line pad) ms) = Inr (visible ms)"
    using assms(2) by (auto simp: maps_ok_def visible_def intro: parse_lines_maps_lines)
  with assms show ?thesis
    by (simp add: newMemoryLocations_def scan_lines_maps_text)
qed

subsection \<open>Saved pages\<close>

text \<open>The bytes of a location are those the process memory \<open>f\<close> had.\<close>

definition snapshot_of :: "(int \<Rightarrow> byte option) \<Rightarrow> memory \<Rightarrow> bool" where
  "snapshot_of f m \<longleftrightarrow>
     int (length (content m)) = endOffset m - startOffset m \<and>
     (\<forall>a. startOffset m \<le> a \<and> a < endOffset m \<longrightarrow> f a = Some (content m ! nat (a - startOffset m)))"

definition same_layout :: "memory \<Rightarrow> memory \<Rightarrow> bool" where
  "same_layout m m' \<longleftrightarrow> m'\<lparr>content := content m\<rparr> = m"

definition saved :: "(int \<Rightarrow> byte option) \<Rightarrow> memory \<Rightarrow> memory \<Rightarrow> bool" where
  "saved f m m' \<longleftrightarrow>
     same_layout m m' \<and> (if writable m then snapshot_of f m' else m' = m)"

definition readable_range :: "(int \<Rightarrow> byte option) \<Rightarrow> int \<Rightarrow> int \<Rightarrow> bool" where
  "readable_range f lo hi \<longleftrightarrow> (\<forall>a. lo \<le> a \<and> a < hi \<longrightarrow> f a \<noteq> None)"

lemma set_addrs [simp]: "set (addrs off n) = {off..<off + n}"
  by (auto simp: addrs_def)

lemma length_addrs [simp]: "length (addrs off n) = nat n"
  by (simp add: addrs_def)

lemma nth_upto_int: "i + int k \<le> j \<Longrightarrow> [i..j] ! k = i + int k"
  by (simp add: nth_upto)

lemma nth_addrs [simp]: "k < nat n \<Longrightarrow> addrs off n ! k = off + int k"
  by (simp add: addrs_def nth_upto)

lemma read_at_full:
  assumes "readable_range f off (off + n)"
  shows "read_at f off n = map (\<lambda>a. the (f a)) (addrs off n)"
proof -
  have "takeWhile (\<lambda>a. f a \<noteq> None) (addrs off n) = addrs off n"
    using assms by (auto simp: takeWhile_eq_all_conv readable_range_def)
  then show ?thesis unfolding read_at_def by (simp only:)
qed

lemma read_at_length: "length (read_at f off n) \<le> nat n"
  using length_takeWhile_le [of "\<lambda>a. f a \<noteq> None" "addrs off n"] by (simp add: read_at_def)

lemma takeWhile_length_all:
  "length (takeWhile P xs) = length xs \<longleftrightarrow> (\<forall>x \<in> set xs. P x)"
  by (induction xs) auto

lemma read_at_full_iff:
  "0 \<le> n \<Longrightarrow> int (length (read_at f off n)) = n \<longleftrightarrow> readable_range f off (off + n)"
  using takeWhile_length_all [of "\<lambda>a. f a \<noteq> None" "addrs off n"]
  by (auto simp: read_at_def readable_range_def nat_eq_iff)

lemma saved_read_at:
  assumes "readable_range f (startOffset m) (endOffset m)" and "startOffset m \<le> endOffset m"
  shows "snapshot_of f (m\<lparr>content := read_at f (startOffset m) (endOffset m - startOffset m)\<rparr>)"
  using assms by (auto simp: snapshot_of_def read_at_full readable_range_def)

lemma save_pages_ok_iff:
  "fst (save_pages f ms) = Inr () \<longleftrightarrow>
     (\<forall>m \<in> set ms. writable m \<longrightarrow>
        startOffset m \<le> endOffset m \<and> readable_range f (startOffset m) (endOffset m))"
proof (induction ms)
  case Nil
  then show ?case by simp
next
  case (Cons m ms)
  have "\<not> (endOffset m - startOffset m < 0) \<Longrightarrow>
      int (length (read_at f (startOffset m) (endOffset m - startOffset m))) = endOffset m - startOffset m
      \<longleftrightarrow> readable_range f (startOffset m) (endOffset m)"
    by (subst read_at_full_iff) auto
  with Cons show ?case by (auto simp: Let_def split: prod.splits if_splits)
qed

lemma same_layout_refl [simp]: "same_layout m m"
  by (simp add: same_layout_def)

lemma same_layout_content [simp]: "same_layout m (m\<lparr>content := bs\<rparr>)"
  by (simp add: same_layout_def)

lemma same_layout_all_refl: "list_all2 same_layout ms ms"
  by (simp add: list.rel_refl)

lemma save_pages_saved:
  "save_pages f ms = (Inr (), ms') \<Longrightarrow> list_all2 (saved f) ms ms'"
proof (induction ms arbitrary: ms')
  case Nil
  then show ?case by simp
next
  case (Cons m ms)
  have ok: "writable m \<longrightarrow> startOffset m \<le> endOffset m \<and> readable_range f (startOffset m) (endOffset m)"
    using save_pages_ok_iff [of f "m # ms"] Cons.prems by simp
  obtain m' ms'' where ms': "ms' = m' # ms''" "save_pages f ms = (Inr (), ms'')"
    and m': "m' = (if writable m
      then m\<lparr>content := read_at f (startOffset m) (endOffset m - startOffset m)\<rparr> else m)"
    using Cons.prems by (auto simp: Let_def split: prod.splits if_splits)
  have "saved f m m'"
    using ok m' saved_read_at [of f m] by (auto simp: saved_def)
  with ms' Cons.IH show ?case by auto
qed

lemma save_pages_layout: "list_all2 same_layout ms (snd (save_pages f ms))"
proof (induction ms)
  case Nil
  then show ?case by simp
next
  case (Cons m ms)
  then show ?case
    by (auto simp: Let_def same_layout_all_refl split: prod.splits)
qed

section \<open>Properties\<close>

lemma length_hex_pad: "n < 2 ^ 64 \<Longrightarrow> w \<le> 16 \<Longrightarrow> length (hex_pad w n) \<le> 16"
  using length_digits_of [of 16 n 15] by (simp add: hex_pad_def)

lemma length_maps_line:
  assumes "nat (startOffset m) < 2 ^ 64" "nat (endOffset m) < 2 ^ 64" "nat (processOffset m) < 2 ^ 64"
    "nat (majorDevice m) < 2 ^ 64" "nat (minorDevice m) < 2 ^ 64" "nat (iNode m) < 2 ^ 64"
  shows "length (maps_line pad m) \<le> 200 + pad + length (m_name m)"
  using assms length_hex_pad [of "nat (startOffset m)" 8] length_hex_pad [of "nat (endOffset m)" 8]
    length_hex_pad [of "nat (processOffset m)" 8] length_hex_pad [of "nat (majorDevice m)" 2]
    length_hex_pad [of "nat (minorDevice m)" 2] length_digits_of [of 10 "nat (iNode m)" 39]
  by (simp add: maps_line_def perm_string_def)

text \<open>Two locations as the kernel might list them, and a process made of them.\<close>

definition sample_heap :: memory where
  "sample_heap = \<lparr>m_name = ''[heap]'', startOffset = 0x5000, endOffset = 0x5004, processOffset = 0,
     readable = True, writable = True, executable = False, shared = False,
     majorDevice = 0, minorDevice = 0, iNode = 0, content = []\<rparr>"

definition sample_vsyscall :: memory where
  "sample_vsyscall = \<lparr>m_name = ''[vsyscall]'', startOffset = 0xffffffffff600000,
     endOffset = 0xffffffffff601000, processOffset = 0,
     readable = True, writable = False, executable = True, shared = False,
     majorDevice = 0, minorDevice = 0, iNode = 0, content = []\<rparr>"

definition sample_proc :: proc where
  "sample_proc = \<lparr>maps_file = Inr (maps_text 1 [sample_heap, sample_vsyscall]), mem_open = None,
     mem_bytes = (\<lambda>a. if 0x5000 \<le> a \<and> a < 0x5004 then Some 7 else None),
     pagemap_file = Inr (\<lambda>_. None)\<rparr>"

lemma sample_maps_ok: "\<forall>m \<in> set [sample_heap, sample_vsyscall]. maps_ok 1 m"
proof -
  have "plain_name (m_name sample_heap)" "plain_name (m_name sample_vsyscall)"
    by (simp_all add: plain_name_def sample_heap_def sample_vsyscall_def is_space_def)
  moreover have "length (maps_line 1 sample_heap) < max_token" "length (maps_line 1 sample_vsyscall) < max_token"
    using length_maps_line [of sample_heap 1] length_maps_line [of sample_vsyscall 1]
    by (simp_all add: sample_heap_def sample_vsyscall_def max_token_def)
  moreover have "printable sample_heap" "kernel_owned (m_name sample_vsyscall)"
    by (simp_all add: printable_def fits63_def sample_heap_def sample_vsyscall_def kernel_owned_def)
  ultimately show ?thesis by (simp add: maps_ok_def)
qed

lemma sample_maps_file: "maps_file sample_proc = Inr (maps_text 1 [sample_heap, sample_vsyscall])"
  by (simp add: sample_proc_def)



text \<open>
  C15: \<open>SaveWritablePages\<close> succeeds exactly when the memory file opens and every writable location has
  a non-negative size and can be read in full. When it succeeds, every writable location holds the
  process memory of its range byte for byte; the others are as they were. It never changes anything
  but contents, whether it succeeds or not.
\<close>

theorem SaveWritablePages_snapshot:
  "(fst (SaveWritablePages p ms) = Inr () \<longleftrightarrow>
      mem_open p = None \<and>
      (\<forall>m \<in> set ms. writable m \<longrightarrow>
         startOffset m \<le> endOffset m \<and> readable_range (mem_bytes p) (startOffset m) (endOffset m))) \<and>
   (fst (SaveWritablePages p ms) = Inr () \<longrightarrow>
      list_all2 (saved (mem_bytes p)) ms (snd (SaveWritablePages p ms))) \<and>
   list_all2 same_layout ms (snd (SaveWritablePages p ms))"
proof (cases "mem_open p")
  case None
  then have eq: "SaveWritablePages p ms = save_pages (mem_bytes p) ms"
    by (simp add: SaveWritablePages_def)
  have "fst (save_pages (mem_bytes p) ms) = Inr () \<Longrightarrow>
      list_all2 (saved (mem_bytes p)) ms (snd (save_pages (mem_bytes p) ms))"
    by (cases "save_pages (mem_bytes p) ms") (simp add: save_pages_saved)
  then show ?thesis
    using None save_pages_ok_iff [of "mem_bytes p" ms] save_pages_layout [of ms "mem_bytes p"]
    by (simp add: eq)
next
  case (Some e)
  then show ?thesis by (simp add: SaveWritablePages_def same_layout_all_refl)
qed

theorem SaveWritablePages_snapshot_witness:
  "fst (SaveWritablePages sample_proc [sample_heap]) = Inr () \<and>
   saved (mem_bytes sample_proc) sample_heap (hd (snd (SaveWritablePages sample_proc [sample_heap])))"
proof -
  have "fst (SaveWritablePages sample_proc [sample_heap]) = Inr ()"
    using SaveWritablePages_snapshot [of sample_proc "[sample_heap]"]
    by (auto simp: sample_proc_def sample_heap_def readable_range_def)
  moreover from this have
    "list_all2 (saved (mem_bytes sample_proc)) [sample_heap] (snd (SaveWritablePages sample_proc [sample_heap]))"
    using SaveWritablePages_snapshot by blast
  ultimately show ?thesis by (auto simp: list_all2_Cons1)
qed

lemma location_differs_iff:
  "location_differs m m' \<longleftrightarrow> \<not> same_layout m' m"
proof
  assume d: "location_differs m m'"
  show "\<not> same_layout m' m"
  proof
    assume "same_layout m' m"
    then have "m' = m\<lparr>content := content m'\<rparr>" by (simp add: same_layout_def)
    then have "location_differs m (m\<lparr>content := content m'\<rparr>)" using d by simp
    then show False by (simp add: location_differs_def)
  qed
next
  assume n: "\<not> same_layout m' m"
  show "location_differs m m'"
  proof (rule ccontr)
    assume "\<not> location_differs m m'"
    then have "m\<lparr>content := content m'\<rparr> = m'"
      unfolding location_differs_def de_Morgan_disj not_not
      by (intro memory.equality) simp_all
    with n show False by (simp add: same_layout_def)
  qed
qed

text \<open>
  \<open>MemoryChanged\<close> answers whether the layout of the process differs from the saved one: for a
  readable map it is false exactly when the two lists have the same length and the same fields,
  contents apart, at every position.
\<close>

theorem MemoryChanged_iff:
  assumes "newMemoryLocations p = Inr now"
  shows "MemoryChanged p ms = Inr (\<not> list_all2 same_layout ms now)"
proof -
  have "length ms = length now \<Longrightarrow>
      list_ex (\<lambda>(n, old). location_differs n old) (zip now ms) \<longleftrightarrow> \<not> list_all2 same_layout ms now"
    by (auto simp: list_ex_iff list_all2_conv_all_nth set_zip location_differs_iff)
  with assms show ?thesis
    by (auto simp: MemoryChanged_def dest: list_all2_lengthD)
qed

theorem MemoryChanged_iff_witness:
  "MemoryChanged sample_proc [sample_heap] = Inr False \<and>
   MemoryChanged sample_proc [sample_heap\<lparr>endOffset := 0x6000\<rparr>] = Inr True"
proof -
  from newMemoryLocations_maps_text [OF sample_maps_file sample_maps_ok]
  have now: "newMemoryLocations sample_proc = Inr [sample_heap]"
    by (simp add: visible_def kernel_owned_def sample_heap_def sample_vsyscall_def)
  show ?thesis
    using MemoryChanged_iff [OF now, of "[sample_heap]"]
      MemoryChanged_iff [OF now, of "[sample_heap\<lparr>endOffset := 0x6000\<rparr>]"]
    by (simp add: same_layout_def sample_heap_def)
qed

end
