(* ===== verification/Page_Restore.thy ===== *)
theory Page_Restore
  imports Proc_Memory
begin

text \<open>
  The concurrent part of \<open>state/memory.go\<close>: \<open>RestoreDirtyPages\<close> starts one goroutine per writable
  location, each of which starts eight goroutines over consecutive ranges of its pages
  (\<open>singleMemoryRestoreDirtyPages\<close>, \<open>restoreMemoryBatch\<close>). A goroutine is a \<open>batch\<close> record with its
  local variables; one loop iteration is \<open>batch_step\<close>; the goroutines interleave at the granularity
  of iterations in \<open>pool_step\<close>. An iteration reads the pagemap entry of its own page and writes its
  own page only, so finer interleavings commute with these.
\<close>

section \<open>The goroutines\<close>

definition pagemapEntrySize :: int where "pagemapEntrySize = 8"

definition parallelism :: int where "parallelism = 8"

record batch =
  b_mem :: memory
  b_i :: int
  b_end :: int
  b_pos :: int
  b_entry :: "byte list"
  b_page :: int
  b_byte :: int
  b_dirty :: int
  b_panic :: bool
  b_log :: nat

text \<open>
  The start of a goroutine of \<open>restoreMemoryBatch\<close>. The seek sets the position of its own pagemap
  file; when the file could not be opened, seek and reads fail and are only logged.
\<close>

definition new_batch :: "int \<Rightarrow> 'a proc_scheme \<Rightarrow> int \<Rightarrow> int \<Rightarrow> int \<Rightarrow> memory \<Rightarrow> batch" where
  "new_batch pageSize p startIndex endIndex pagemapStartOffset m =
     (let sectionOffset = startIndex * pageSize in
      \<lparr>b_mem = m, b_i = startIndex, b_end = endIndex,
       b_pos = pagemapStartOffset + startIndex * pagemapEntrySize,
       b_entry = replicate (nat pagemapEntrySize) 0,
       b_page = startOffset m + sectionOffset, b_byte = sectionOffset,
       b_dirty = 0, b_panic = False,
       b_log = (case pagemap_file p of Inl _ \<Rightarrow> 2 | Inr _ \<Rightarrow> 0)\<rparr>)"

text \<open>
  \<open>pagemap.Read(entryBytes)\<close>: the bytes that are there overwrite the front of the buffer and move
  the position; a short read is logged and the loop goes on with the buffer as it is.
\<close>

definition read_entry :: "(error + (int \<Rightarrow> byte option)) \<Rightarrow> int \<Rightarrow> byte list \<Rightarrow> byte list \<times> nat" where
  "read_entry pm pos entryBytes =
     (let got = (case pm of Inl _ \<Rightarrow> [] | Inr f \<Rightarrow> read_at f pos pagemapEntrySize)
      in (got @ drop (length got) entryBytes, length got))"

definition dirty_set :: "byte list \<Rightarrow> bool" where
  "dirty_set entryBytes \<longleftrightarrow> drop_bit 7 (entryBytes ! 6) = 1"

definition batch_step :: "int \<Rightarrow> batch \<times> 'a proc_scheme \<Rightarrow> batch \<times> 'a proc_scheme" where
  "batch_step pageSize = (\<lambda>(b, p).
     let (entry, k) = read_entry (pagemap_file p) (b_pos b) (b_entry b);
         logs = b_log b + (if int k \<noteq> pagemapEntrySize then 1 else 0);
         b1 = b\<lparr>b_entry := entry, b_pos := b_pos b + int k, b_log := logs\<rparr>;
         next = (\<lambda>b'. b'\<lparr>b_i := b_i b + 1, b_page := b_page b + pageSize,
                        b_byte := b_byte b + pageSize\<rparr>)
     in if dirty_set entry then
          (case slice_res (content (b_mem b)) (b_byte b) (b_byte b + pageSize) of
             Inl _ \<Rightarrow> (b1\<lparr>b_dirty := b_dirty b + 1, b_panic := True, b_i := b_end b\<rparr>, p)
           | Inr thisPage \<Rightarrow>
               (let (f', n) = write_at (mem_bytes p) (b_page b) thisPage
                in (next (b1\<lparr>b_dirty := b_dirty b + 1,
                           b_log := logs + (if int n \<noteq> pageSize then 1 else 0)\<rparr>),
                    p\<lparr>mem_bytes := f'\<rparr>)))
        else (next b1, p))"

text \<open>The eight ranges of page indices of \<open>singleMemoryRestoreDirtyPages\<close>.\<close>

definition num_pages :: "int \<Rightarrow> memory \<Rightarrow> int" where
  "num_pages pageSize m = endOffset m sdiv pageSize - startOffset m sdiv pageSize"

definition batch_ranges :: "int \<Rightarrow> (int \<times> int) list" where
  "batch_ranges numPages =
     (let batchSize = numPages sdiv parallelism; remainder = numPages smod parallelism in
      map (\<lambda>i. let startIndex = i * batchSize; endIndex = startIndex + batchSize in
             (startIndex, if i = parallelism - 1 then endIndex + remainder else endIndex))
        [0..parallelism - 1])"

definition singleMemoryRestoreDirtyPages :: "int \<Rightarrow> 'a proc_scheme \<Rightarrow> memory \<Rightarrow> batch list" where
  "singleMemoryRestoreDirtyPages pageSize p m =
     (let pagemapStartOffset = startOffset m sdiv pageSize * pagemapEntrySize in
      map (\<lambda>(lo, hi). new_batch pageSize p lo hi pagemapStartOffset m)
        (batch_ranges (num_pages pageSize m)))"

definition restore_pool :: "int \<Rightarrow> 'a proc_scheme \<Rightarrow> memory list \<Rightarrow> batch list" where
  "restore_pool pageSize p memoryLocations =
     concat (map (singleMemoryRestoreDirtyPages pageSize p) (filter writable memoryLocations))"

definition batch_running :: "batch \<Rightarrow> bool" where
  "batch_running b \<longleftrightarrow> b_i b < b_end b"

inductive pool_step ::
  "int \<Rightarrow> batch list \<times> 'a proc_scheme \<Rightarrow> batch list \<times> 'a proc_scheme \<Rightarrow> bool" for pageSize where
  pool_step: "\<lbrakk> k < length bs; batch_running (bs ! k);
     batch_step pageSize (bs ! k, p) = (b', p') \<rbrakk> \<Longrightarrow>
     pool_step pageSize (bs, p) (bs[k := b'], p')"

inductive_cases pool_stepE: "pool_step pageSize (bs, p) (bs', p')"

definition pool_done :: "batch list \<times> 'a proc_scheme \<Rightarrow> bool" where
  "pool_done c \<longleftrightarrow> (\<forall>b \<in> set (fst c). \<not> batch_running b)"

text \<open>
  \<open>RestoreDirtyPages\<close> returns when every goroutine has called \<open>Done\<close>: it relates the process before
  to a process after some complete interleaving. A panic in a goroutine takes the program down.
\<close>

definition pool_result :: "batch list \<Rightarrow> unit res" where
  "pool_result bs =
     (if list_ex b_panic bs then Inl (Panicked ''slice bounds out of range'') else Inr ())"

definition RestoreDirtyPages ::
  "int \<Rightarrow> 'a proc_scheme \<Rightarrow> memory list \<Rightarrow> unit res \<times> 'a proc_scheme \<Rightarrow> bool" where
  "RestoreDirtyPages pageSize p memoryLocations out \<longleftrightarrow>
     (case mem_open p of
        Some e \<Rightarrow> out = (Inl (Returned (Wrapf ''could not open /proc/pid/mem'' e)), p)
      | None \<Rightarrow> \<exists>bs p'. (pool_step pageSize)\<^sup>*\<^sup>* (restore_pool pageSize p memoryLocations, p) (bs, p') \<and>
                  pool_done (bs, p') \<and> out = (pool_result bs, p'))"

definition pages_left :: "batch \<Rightarrow> nat" where
  "pages_left b = nat (b_end b - b_i b)"

lemma batch_step_pages_left:
  "\<lbrakk> batch_step ps (b, p) = (b', p'); batch_running b \<rbrakk> \<Longrightarrow> pages_left b' < pages_left b"
  by (auto simp: batch_step_def batch_running_def pages_left_def Let_def
      split: prod.splits sum.splits if_splits)

text \<open>One particular schedule, which runs the goroutines one after the other.\<close>

function run_batch :: "int \<Rightarrow> batch \<times> 'a proc_scheme \<Rightarrow> batch \<times> 'a proc_scheme" where
  "run_batch pageSize (b, p) =
     (if batch_running b then run_batch pageSize (batch_step pageSize (b, p)) else (b, p))"
  by pat_completeness auto
termination
proof (relation "measure (\<lambda>(ps, b, p). pages_left b)", simp)
  fix pageSize :: int and b :: batch and p :: "'a proc_scheme"
  assume "batch_running b"
  then show "((pageSize, batch_step pageSize (b, p)), (pageSize, (b, p)))
      \<in> measure (\<lambda>(ps, b, p). pages_left b)"
    by (cases "batch_step pageSize (b, p)") (simp add: batch_step_pages_left)
qed

declare run_batch.simps [simp del]

fun run_pool :: "int \<Rightarrow> batch list \<Rightarrow> 'a proc_scheme \<Rightarrow> batch list \<times> 'a proc_scheme" where
  "run_pool pageSize [] p = ([], p)"
| "run_pool pageSize (b # bs) p =
     (case run_batch pageSize (b, p) of (b', p') \<Rightarrow>
        (case run_pool pageSize bs p' of (bs', p'') \<Rightarrow> (b' # bs', p'')))"

section \<open>Counting\<close>

fun count_loop :: "nat \<Rightarrow> (error + (int \<Rightarrow> byte option)) \<Rightarrow> int \<Rightarrow> byte list \<Rightarrow> int \<Rightarrow> int res" where
  "count_loop 0 pm pos entryBytes dirty = Inr dirty"
| "count_loop (Suc n) pm pos entryBytes dirty =
     (case read_entry pm pos entryBytes of (entry, k) \<Rightarrow>
        if int k \<noteq> pagemapEntrySize
        then Inl (Returned (Wrapf ''could not read pid pagemap'' io_error))
        else count_loop n pm (pos + int k) entry (if dirty_set entry then dirty + 1 else dirty))"

definition CountDirtyPages :: "int \<Rightarrow> 'a proc_scheme \<Rightarrow> memory list \<Rightarrow> string \<Rightarrow> int res" where
  "CountDirtyPages pageSize p memoryLocations memoryName =
     bind_res (getMemory memoryLocations memoryName) (\<lambda>m.
     case pagemap_file p of
       Inl e \<Rightarrow> Inl (Returned (Wrapf ''could not open pid pagemap'' e))
     | Inr f \<Rightarrow>
         count_loop (nat (num_pages pageSize m)) (Inr f)
           (startOffset m sdiv pageSize * pagemapEntrySize) (replicate (nat pagemapEntrySize) 0) 0)"

section \<open>One iteration\<close>

text \<open>A page-aligned location whose saved content is the snapshot \<open>snap\<close>.\<close>

definition aligned_snapshot :: "int \<Rightarrow> (int \<Rightarrow> byte option) \<Rightarrow> memory \<Rightarrow> bool" where
  "aligned_snapshot ps snap m \<longleftrightarrow>
     0 < ps \<and> 0 \<le> startOffset m \<and> startOffset m \<le> endOffset m \<and>
     ps dvd startOffset m \<and> ps dvd endOffset m \<and> snapshot_of snap m"

definition page_no :: "int \<Rightarrow> int \<Rightarrow> int" where
  "page_no ps a = a div ps"

definition page_dirty :: "(int \<Rightarrow> byte option) \<Rightarrow> int \<Rightarrow> bool" where
  "page_dirty f q \<longleftrightarrow> drop_bit 7 (the (f (8 * q + 6))) = 1"

definition pagemap_covers :: "int \<Rightarrow> (int \<Rightarrow> byte option) \<Rightarrow> memory \<Rightarrow> bool" where
  "pagemap_covers ps f m \<longleftrightarrow>
     readable_range f (8 * page_no ps (startOffset m)) (8 * page_no ps (endOffset m))"

definition batch_ok :: "int \<Rightarrow> memory \<Rightarrow> int \<Rightarrow> int \<Rightarrow> batch \<Rightarrow> bool" where
  "batch_ok ps m lo hi b \<longleftrightarrow>
     b_mem b = m \<and> b_end b = hi \<and> lo \<le> b_i b \<and> b_i b \<le> hi \<and>
     b_pos b = 8 * (page_no ps (startOffset m) + b_i b) \<and> length (b_entry b) = 8 \<and>
     b_page b = startOffset m + b_i b * ps \<and> b_byte b = b_i b * ps \<and>
     \<not> b_panic b \<and> b_log b = 0"

lemma num_pages_aligned:
  assumes "aligned_snapshot ps snap m"
  shows "num_pages ps m = page_no ps (endOffset m) - page_no ps (startOffset m)"
    and "num_pages ps m * ps = endOffset m - startOffset m" and "0 \<le> num_pages ps m"
proof -
  from assms have pos: "0 < ps" "0 \<le> startOffset m" "startOffset m \<le> endOffset m"
    and dvd: "ps dvd startOffset m" "ps dvd endOffset m"
    by (simp_all add: aligned_snapshot_def)
  have sdiv: "n sdiv ps = n div ps" if "0 \<le> n" for n
    using that pos by (cases "n = 0") (simp_all add: signed_divide_int_def)
  show *: "num_pages ps m = page_no ps (endOffset m) - page_no ps (startOffset m)"
    using pos by (simp add: num_pages_def page_no_def sdiv)
  show "num_pages ps m * ps = endOffset m - startOffset m"
    unfolding * page_no_def using dvd by (simp add: left_diff_distrib)
  show "0 \<le> num_pages ps m"
    unfolding * page_no_def using pos by (simp add: zdiv_mono1)
qed

lemma read_entry_full:
  assumes "readable_range f pos (pos + 8)" and "length entry = 8"
  shows "read_entry (Inr f) pos entry = (map (\<lambda>a. the (f a)) (addrs pos 8), 8)"
  using assms by (simp add: read_entry_def pagemapEntrySize_def read_at_full)

lemma dirty_set_addrs:
  "dirty_set (map (\<lambda>a. the (f a)) (addrs (8 * q) 8)) \<longleftrightarrow> page_dirty f q"
  by (simp add: dirty_set_def page_dirty_def)

lemma write_at_full:
  assumes "readable_range f off (off + int (length bs))"
  shows "write_at f off bs =
    (\<lambda>a. if off \<le> a \<and> a < off + int (length bs) then Some (bs ! nat (a - off)) else f a, length bs)"
proof -
  have "takeWhile (\<lambda>a. f a \<noteq> None) (addrs off (int (length bs))) = addrs off (int (length bs))"
    using assms by (auto simp: takeWhile_eq_all_conv readable_range_def)
  then have "length (takeWhile (\<lambda>a. f a \<noteq> None) (addrs off (int (length bs)))) = length bs"
    by (simp only: length_addrs nat_int)
  then show ?thesis unfolding write_at_def by (simp only: Let_def)
qed

text \<open>The addresses of page \<open>i\<close> of a location, counted from its start.\<close>

definition page_range :: "int \<Rightarrow> memory \<Rightarrow> int \<Rightarrow> int set" where
  "page_range ps m i = {startOffset m + i * ps ..< startOffset m + (i + 1) * ps}"

definition put_page :: "(int \<Rightarrow> byte option) \<Rightarrow> int set \<Rightarrow> (int \<Rightarrow> byte option) \<Rightarrow> int \<Rightarrow> byte option" where
  "put_page snap A f = (\<lambda>a. if a \<in> A then snap a else f a)"

lemma page_range_inside:
  assumes "aligned_snapshot ps snap m" and "0 \<le> i" and "i < num_pages ps m"
  shows "startOffset m \<le> startOffset m + i * ps"
    and "startOffset m + i * ps + ps \<le> endOffset m"
proof -
  from assms(1) have pos: "0 < ps" by (simp add: aligned_snapshot_def)
  then show "startOffset m \<le> startOffset m + i * ps" using assms(2) by simp
  have "(i + 1) * ps \<le> num_pages ps m * ps"
    using assms(3) pos by (intro mult_right_mono) simp_all
  then show "startOffset m + i * ps + ps \<le> endOffset m"
    using num_pages_aligned(2) [OF assms(1)] by (simp add: distrib_right)
qed

lemma write_page:
  assumes al: "aligned_snapshot ps snap m" and i: "0 \<le> i" "i < num_pages ps m"
    and rd: "readable_range f (startOffset m) (endOffset m)"
  shows "\<exists>pg. slice_res (content m) (i * ps) (i * ps + ps) = Inr pg \<and>
     write_at f (startOffset m + i * ps) pg = (put_page snap (page_range ps m i) f, nat ps)"
proof -
  note inside = page_range_inside [OF al i]
  from al have pos: "0 < ps" and snap: "snapshot_of snap m"
    by (simp_all add: aligned_snapshot_def)
  have len: "int (length (content m)) = endOffset m - startOffset m"
    using snap by (simp add: snapshot_of_def)
  define pg where "pg = take (nat (i * ps + ps) - nat (i * ps)) (drop (nat (i * ps)) (content m))"
  have i0: "0 \<le> i * ps" using i pos by simp
  have sl: "slice_res (content m) (i * ps) (i * ps + ps) = Inr pg"
    unfolding pg_def using i0 pos inside len by (intro slice_res_ok) simp_all
  have diff: "nat (i * ps + ps) - nat (i * ps) = nat ps" using i0 pos by (simp add: nat_diff_distrib)
  have lpg: "length pg = nat ps"
    using i0 pos inside len unfolding pg_def diff by simp
  have rd': "readable_range f (startOffset m + i * ps) (startOffset m + i * ps + int (length pg))"
    using rd inside lpg pos by (auto simp: readable_range_def)
  have "(if startOffset m + i * ps \<le> a \<and> a < startOffset m + i * ps + int (length pg)
         then Some (pg ! nat (a - (startOffset m + i * ps))) else f a)
        = put_page snap (page_range ps m i) f a" for a
  proof (cases "a \<in> page_range ps m i")
    case True
    then have a: "startOffset m + i * ps \<le> a" "a < startOffset m + i * ps + ps"
      by (simp_all add: page_range_def distrib_right)
    then have idx: "nat (i * ps) + nat (a - (startOffset m + i * ps)) = nat (a - startOffset m)"
      using i0 by (simp add: nat_add_distrib [symmetric])
    have "pg ! nat (a - (startOffset m + i * ps)) = content m ! nat (a - startOffset m)"
      using a idx i0 inside len pos unfolding pg_def diff by simp
    moreover have "snap a = Some (content m ! nat (a - startOffset m))"
      using snap a inside pos by (simp add: snapshot_of_def)
    ultimately show ?thesis using True a lpg pos by (simp add: put_page_def)
  next
    case False
    then show ?thesis using lpg pos by (auto simp: page_range_def put_page_def distrib_right)
  qed
  then have "write_at f (startOffset m + i * ps) pg = (put_page snap (page_range ps m i) f, nat ps)"
    using write_at_full [OF rd'] lpg by (simp add: fun_eq_iff)
  with sl show ?thesis by blast
qed

lemma batch_step_ok:
  assumes b: "batch_ok ps m lo hi b" and run: "batch_running b"
    and al: "aligned_snapshot ps snap m" and lo: "0 \<le> lo" and hi: "hi \<le> num_pages ps m"
    and pm: "pagemap_file p = Inr f" and cov: "pagemap_covers ps f m"
    and rd: "readable_range (mem_bytes p) (startOffset m) (endOffset m)"
  shows "\<exists>b'. batch_step ps (b, p) =
       (b', p\<lparr>mem_bytes :=
          if page_dirty f (page_no ps (startOffset m) + b_i b)
          then put_page snap (page_range ps m (b_i b)) (mem_bytes p) else mem_bytes p\<rparr>) \<and>
     batch_ok ps m lo hi b' \<and> b_i b' = b_i b + 1 \<and>
     b_dirty b' = b_dirty b + of_bool (page_dirty f (page_no ps (startOffset m) + b_i b))"
proof -
  let ?q = "page_no ps (startOffset m) + b_i b"
  have i: "0 \<le> b_i b" "b_i b < hi" "b_i b < num_pages ps m"
    using b run lo hi by (auto simp: batch_ok_def batch_running_def)
  have ps: "0 < ps" using al by (simp add: aligned_snapshot_def)
  have "0 \<le> page_no ps (startOffset m)"
    using al by (simp add: page_no_def aligned_snapshot_def pos_imp_zdiv_nonneg_iff)
  then have "readable_range f (8 * ?q) (8 * ?q + 8)"
    using cov i num_pages_aligned(1) [OF al] by (auto simp: pagemap_covers_def readable_range_def)
  then obtain e where entry: "read_entry (pagemap_file p) (b_pos b) (b_entry b) = (e, 8)"
    and e: "dirty_set e = page_dirty f ?q" "length e = 8"
    using b pm by (simp add: batch_ok_def read_entry_full dirty_set_addrs del: distrib_left_numeral)
  from write_page [OF al i(1,3) rd] obtain pg where
    sl: "slice_res (content m) (b_i b * ps) (b_i b * ps + ps) = Inr pg" and
    wr: "write_at (mem_bytes p) (startOffset m + b_i b * ps) pg =
      (put_page snap (page_range ps m (b_i b)) (mem_bytes p), nat ps)"
    by blast
  show ?thesis
  proof (cases "page_dirty f ?q")
    case True
    then show ?thesis
      using b entry sl wr ps i
      by (simp add: batch_step_def batch_ok_def e Let_def pagemapEntrySize_def distrib_right)
  next
    case False
    then show ?thesis
      using b entry i
      by (simp add: batch_step_def batch_ok_def e Let_def pagemapEntrySize_def distrib_right)
  qed
qed

section \<open>The ranges cover every page once\<close>

lemma upto_glue: "\<lbrakk> i \<le> j; j \<le> k \<rbrakk> \<Longrightarrow> [i..j - 1] @ [j..k - 1] = [i..k - 1 :: int]"
  using upto_split1 [of i j "k - 1"] by (cases "j = k") auto

lemma batch_ranges_eq:
  assumes "0 \<le> n"
  shows "batch_ranges n =
    [(0, n div 8), (n div 8, 2 * (n div 8)), (2 * (n div 8), 3 * (n div 8)),
     (3 * (n div 8), 4 * (n div 8)), (4 * (n div 8), 5 * (n div 8)), (5 * (n div 8), 6 * (n div 8)),
     (6 * (n div 8), 7 * (n div 8)), (7 * (n div 8), n)]"
proof -
  have q: "n sdiv 8 = n div 8" and r: "n smod 8 = n mod 8"
    using assms by (cases "n = 0"; simp add: signed_divide_int_def signed_modulo_int_def)+
  have ks: "[0..7 :: int] = [0, 1, 2, 3, 4, 5, 6, 7]" by (simp add: upto_rec1)
  have "8 * (n div 8) + n mod 8 = n" by simp
  then show ?thesis
    by (simp add: batch_ranges_def parallelism_def q r ks Let_def)
qed

lemma batch_ranges_concat:
  assumes "0 \<le> n"
  shows "concat (map (\<lambda>(lo, hi). [lo..hi - 1]) (batch_ranges n)) = [0..n - 1]"
proof -
  define d where "d = n div 8"
  have d: "0 \<le> d" "7 * d \<le> n" using assms by (simp_all add: d_def)
  show ?thesis
    using d by (simp add: batch_ranges_eq [OF assms] d_def [symmetric] upto_glue
        flip: append_assoc)
qed

lemma batch_ranges_bounds:
  "\<lbrakk> 0 \<le> n; (lo, hi) \<in> set (batch_ranges n) \<rbrakk> \<Longrightarrow> 0 \<le> lo \<and> lo \<le> hi \<and> hi \<le> n"
  by (auto simp: batch_ranges_eq)

lemma batch_ranges_cover:
  assumes "0 \<le> q" and "q < n"
  shows "\<exists>(lo, hi) \<in> set (batch_ranges n). lo \<le> q \<and> q < hi"
proof -
  have "q \<in> set (concat (map (\<lambda>(lo, hi). [lo..hi - 1]) (batch_ranges n)))"
    using assms by (simp only: batch_ranges_concat) simp
  then show ?thesis by fastforce
qed

section \<open>Every interleaving restores the checkpoint\<close>

definition saved_area :: "memory list \<Rightarrow> int set" where
  "saved_area ms = (\<Union>m \<in> set (filter writable ms). {startOffset m ..< endOffset m})"

text \<open>
  What the kernel guarantees when the restoration starts: the saved ranges are still mapped, their
  pagemap entries can be read, and a page whose soft-dirty bit is clear has not been written since
  the bits were cleared at the checkpoint.
\<close>

definition soft_dirty_sound :: "int \<Rightarrow> (int \<Rightarrow> byte option) \<Rightarrow> (int \<Rightarrow> byte option) \<Rightarrow> (int \<Rightarrow> byte option) \<Rightarrow> memory \<Rightarrow> bool" where
  "soft_dirty_sound ps f snap now m \<longleftrightarrow>
     (\<forall>a. startOffset m \<le> a \<and> a < endOffset m \<and> \<not> page_dirty f (page_no ps a) \<longrightarrow> now a = snap a)"

definition restorable :: "int \<Rightarrow> (int \<Rightarrow> byte option) \<Rightarrow> 'a proc_scheme \<Rightarrow> memory list \<Rightarrow> bool" where
  "restorable ps snap p ms \<longleftrightarrow>
     mem_open p = None \<and>
     (case pagemap_file p of Inl _ \<Rightarrow> False
      | Inr f \<Rightarrow> \<forall>m \<in> set (filter writable ms).
          aligned_snapshot ps snap m \<and> pagemap_covers ps f m \<and>
          readable_range (mem_bytes p) (startOffset m) (endOffset m) \<and>
          soft_dirty_sound ps f snap (mem_bytes p) m)"

text \<open>What a goroutine that started as \<open>b0\<close> has achieved when it has become \<open>b\<close>.\<close>

definition batch_progress ::
  "int \<Rightarrow> (int \<Rightarrow> byte option) \<Rightarrow> memory list \<Rightarrow> (int \<Rightarrow> byte option) \<Rightarrow> batch \<Rightarrow> batch \<Rightarrow> bool" where
  "batch_progress ps snap ms now b0 b \<longleftrightarrow>
     b_mem b0 \<in> set (filter writable ms) \<and> 0 \<le> b_i b0 \<and> b_end b0 \<le> num_pages ps (b_mem b0) \<and>
     batch_ok ps (b_mem b0) (b_i b0) (b_end b0) b \<and>
     (\<forall>q. b_i b0 \<le> q \<and> q < b_i b \<longrightarrow> (\<forall>a \<in> page_range ps (b_mem b0) q. now a = snap a))"

definition pool_inv ::
  "int \<Rightarrow> (int \<Rightarrow> byte option) \<Rightarrow> 'a proc_scheme \<Rightarrow> memory list \<Rightarrow> batch list \<times> 'a proc_scheme \<Rightarrow> bool" where
  "pool_inv ps snap p0 ms c \<longleftrightarrow>
     restorable ps snap p0 ms \<and>
     snd c = p0\<lparr>mem_bytes := mem_bytes (snd c)\<rparr> \<and>
     (\<forall>a. mem_bytes (snd c) a = mem_bytes p0 a \<or>
          (a \<in> saved_area ms \<and> mem_bytes (snd c) a = snap a)) \<and>
     list_all2 (batch_progress ps snap ms (mem_bytes (snd c))) (restore_pool ps p0 ms) (fst c)"

definition pool_init ::
  "int \<Rightarrow> (int \<Rightarrow> byte option) \<Rightarrow> 'a proc_scheme \<Rightarrow> memory list \<Rightarrow> batch list \<times> 'a proc_scheme \<Rightarrow> bool" where
  "pool_init ps snap p0 ms c \<longleftrightarrow> restorable ps snap p0 ms \<and> c = (restore_pool ps p0 ms, p0)"

lemma restorableE:
  assumes "restorable ps snap p ms"
  obtains f where "pagemap_file p = Inr f" and "mem_open p = None"
    and "\<And>m. m \<in> set (filter writable ms) \<Longrightarrow> aligned_snapshot ps snap m"
    and "\<And>m. m \<in> set (filter writable ms) \<Longrightarrow> pagemap_covers ps f m"
    and "\<And>m. m \<in> set (filter writable ms) \<Longrightarrow>
           readable_range (mem_bytes p) (startOffset m) (endOffset m)"
    and "\<And>m. m \<in> set (filter writable ms) \<Longrightarrow> soft_dirty_sound ps f snap (mem_bytes p) m"
  using assms by (auto simp: restorable_def split: sum.splits)

lemma page_range_page_no:
  assumes "aligned_snapshot ps snap m" and "a \<in> page_range ps m q"
  shows "page_no ps a = page_no ps (startOffset m) + q"
proof -
  from assms(1) have ps: "0 < ps" and "ps dvd startOffset m" by (simp_all add: aligned_snapshot_def)
  then obtain k where k: "startOffset m = ps * k" by blast
  from assms(2) have "0 \<le> a - ps * (k + q)" "a - ps * (k + q) < ps"
    by (simp_all add: page_range_def k algebra_simps)
  then have "a div ps = k + q"
    by (intro int_div_pos_eq [of a ps "k + q" "a - ps * (k + q)"]) simp_all
  then show ?thesis using ps by (simp add: page_no_def k)
qed

lemma page_range_saved_area:
  assumes "aligned_snapshot ps snap m" and "m \<in> set (filter writable ms)"
    and "0 \<le> q" and "q < num_pages ps m"
  shows "page_range ps m q \<subseteq> {startOffset m ..< endOffset m}"
    and "page_range ps m q \<subseteq> saved_area ms"
proof -
  show *: "page_range ps m q \<subseteq> {startOffset m ..< endOffset m}"
    using page_range_inside [OF assms(1,3,4)] by (auto simp: page_range_def distrib_right)
  then show "page_range ps m q \<subseteq> saved_area ms"
    using assms(2) by (auto simp: saved_area_def)
qed

lemma snapshot_Some:
  "\<lbrakk> aligned_snapshot ps snap m; a \<in> {startOffset m ..< endOffset m} \<rbrakk> \<Longrightarrow> snap a \<noteq> None"
  by (auto simp: aligned_snapshot_def snapshot_of_def)

lemma restore_pool_mem:
  "b \<in> set (restore_pool ps p ms) \<longleftrightarrow>
     (\<exists>m \<in> set (filter writable ms). \<exists>(lo, hi) \<in> set (batch_ranges (num_pages ps m)).
        b = new_batch ps p lo hi (startOffset m sdiv ps * pagemapEntrySize) m)"
  by (fastforce simp: restore_pool_def singleMemoryRestoreDirtyPages_def Let_def)

lemma new_batch_ok:
  assumes "aligned_snapshot ps snap m" and "pagemap_file p = Inr f" and "lo \<le> hi"
  shows "batch_ok ps m lo hi (new_batch ps p lo hi (startOffset m sdiv ps * pagemapEntrySize) m)"
proof -
  have "startOffset m sdiv ps = startOffset m div ps"
    using assms(1) by (cases "startOffset m = 0")
      (simp_all add: aligned_snapshot_def signed_divide_int_def)
  with assms(2,3) show ?thesis
    by (simp add: batch_ok_def new_batch_def Let_def pagemapEntrySize_def page_no_def)
qed

lemma new_batch_simps [simp]:
  "b_mem (new_batch ps p lo hi st m) = m"
  "b_i (new_batch ps p lo hi st m) = lo"
  "b_end (new_batch ps p lo hi st m) = hi"
  by (simp_all add: new_batch_def Let_def)

lemma pool_inv_init:
  assumes "pool_init ps snap p ms c"
  shows "pool_inv ps snap p ms c"
proof -
  from assms have r: "restorable ps snap p ms" and c: "c = (restore_pool ps p ms, p)"
    by (simp_all add: pool_init_def)
  from r obtain f where f: "pagemap_file p = Inr f"
    and al: "\<And>m. m \<in> set (filter writable ms) \<Longrightarrow> aligned_snapshot ps snap m"
    by (rule restorableE) blast
  have "batch_progress ps snap ms (mem_bytes p) b b" if "b \<in> set (restore_pool ps p ms)" for b
  proof -
    from that obtain m lo hi where m: "m \<in> set (filter writable ms)"
      and r: "(lo, hi) \<in> set (batch_ranges (num_pages ps m))"
      and b: "b = new_batch ps p lo hi (startOffset m sdiv ps * pagemapEntrySize) m"
      by (auto simp: restore_pool_mem)
    have "0 \<le> lo \<and> lo \<le> hi \<and> hi \<le> num_pages ps m"
      using batch_ranges_bounds [OF num_pages_aligned(3) [OF al [OF m]] r] .
    with new_batch_ok [OF al [OF m] f] m b show ?thesis
      by (auto simp: batch_progress_def)
  qed
  then have "list_all2 (batch_progress ps snap ms (mem_bytes p)) (restore_pool ps p ms) (restore_pool ps p ms)"
    by (simp add: list_all2_same)
  with r c show ?thesis by (simp add: pool_inv_def)
qed

text \<open>Progress is about addresses that have the snapshot's byte; later writes only add such.\<close>

lemma batch_progress_mono:
  "\<lbrakk> batch_progress ps snap ms now b0 b; \<And>a. now a = snap a \<Longrightarrow> now' a = snap a \<rbrakk> \<Longrightarrow>
     batch_progress ps snap ms now' b0 b"
  by (auto simp: batch_progress_def)

lemma mem_bytes_update_base:
  "p = p0\<lparr>mem_bytes := f\<rparr> \<Longrightarrow> p\<lparr>mem_bytes := g\<rparr> = p0\<lparr>mem_bytes := g\<rparr>"
  by simp

lemma list_all2_update:
  assumes "list_all2 P xs ys" and "k < length ys"
    and "\<And>x y. P x y \<Longrightarrow> Q x y" and "Q (xs ! k) y'"
  shows "list_all2 Q xs (ys[k := y'])"
proof -
  have "length xs = length ys" using assms(1) by (rule list_all2_lengthD)
  moreover have "Q (xs ! j) ((ys[k := y']) ! j)" if "j < length ys" for j
    using that assms list_all2_nthD2 [OF assms(1) that] by (cases "j = k") auto
  ultimately show ?thesis by (simp add: list_all2_conv_all_nth)
qed

text \<open>While pages are written back, an address has its old byte or the one of the snapshot.\<close>

definition restoring_bytes ::
  "(int \<Rightarrow> byte option) \<Rightarrow> memory list \<Rightarrow> (int \<Rightarrow> byte option) \<Rightarrow> (int \<Rightarrow> byte option) \<Rightarrow> bool" where
  "restoring_bytes snap ms old now \<longleftrightarrow> (\<forall>a. now a = old a \<or> (a \<in> saved_area ms \<and> now a = snap a))"

lemma restoring_readable:
  assumes "restoring_bytes snap ms old now" and "aligned_snapshot ps snap m"
    and "readable_range old (startOffset m) (endOffset m)"
  shows "readable_range now (startOffset m) (endOffset m)"
  unfolding readable_range_def
proof (intro allI impI)
  fix a
  assume a: "startOffset m \<le> a \<and> a < endOffset m"
  with assms(3) have "old a \<noteq> None" by (simp add: readable_range_def)
  moreover have "snap a \<noteq> None" using snapshot_Some [OF assms(2)] a by simp
  ultimately show "now a \<noteq> None" using assms(1) unfolding restoring_bytes_def by metis
qed

text \<open>The step of a goroutine leaves the page it is at as it is in the snapshot.\<close>

lemma page_restored:
  assumes "soft_dirty_sound ps f snap old m" and al: "aligned_snapshot ps snap m" and m: "m \<in> set (filter writable ms)"
    and "restoring_bytes snap ms old now" and i: "0 \<le> i" "i < num_pages ps m" and a: "a \<in> page_range ps m i"
  shows "(if page_dirty f (page_no ps (startOffset m) + i) then put_page snap (page_range ps m i) now else now) a = snap a"
proof (cases "page_dirty f (page_no ps (startOffset m) + i)")
  case True
  with a show ?thesis by (simp add: put_page_def)
next
  case False
  then have "old a = snap a"
    using assms(1) a page_range_saved_area [OF al m i] page_range_page_no [OF al a] by (auto simp: soft_dirty_sound_def)
  with assms(4) False show ?thesis unfolding restoring_bytes_def by metis
qed

text \<open>The step of one goroutine, for the whole memory and for its own progress.\<close>

lemma batch_progress_step:
  assumes r: "restorable ps snap p0 ms" and p: "p = p0\<lparr>mem_bytes := mem_bytes p\<rparr>"
    and alt: "restoring_bytes snap ms (mem_bytes p0) (mem_bytes p)"
    and prog: "batch_progress ps snap ms (mem_bytes p) b0 b" and run: "batch_running b"
    and st: "batch_step ps (b, p) = (b', p')"
  obtains now where "p' = p\<lparr>mem_bytes := now\<rparr>" and "restoring_bytes snap ms (mem_bytes p0) now"
    and "\<And>a. mem_bytes p a = snap a \<Longrightarrow> now a = snap a" and "batch_progress ps snap ms now b0 b'"
proof -
  define m where "m = b_mem b0"
  from prog have m: "m \<in> set (filter writable ms)" and lo: "0 \<le> b_i b0" and hi: "b_end b0 \<le> num_pages ps m"
    and ok: "batch_ok ps m (b_i b0) (b_end b0) b"
    and before: "\<And>q a. \<lbrakk> b_i b0 \<le> q; q < b_i b; a \<in> page_range ps m q \<rbrakk> \<Longrightarrow> mem_bytes p a = snap a"
    by (auto simp: batch_progress_def m_def)
  from r obtain f where f: "pagemap_file p0 = Inr f" and al: "aligned_snapshot ps snap m" and cov: "pagemap_covers ps f m"
    and rd: "readable_range (mem_bytes p0) (startOffset m) (endOffset m)"
    and sd: "soft_dirty_sound ps f snap (mem_bytes p0) m"
    by (rule restorableE) (use m in blast)
  let ?i = "b_i b"
  let ?now = "if page_dirty f (page_no ps (startOffset m) + ?i)
     then put_page snap (page_range ps m ?i) (mem_bytes p) else mem_bytes p"
  have pmp: "pagemap_file p = Inr f" by (subst p) (simp add: f)
  from batch_step_ok [OF ok run al lo hi pmp cov restoring_readable [OF alt al rd]] st
  have p': "p' = p\<lparr>mem_bytes := ?now\<rparr>" and ok': "batch_ok ps m (b_i b0) (b_end b0) b'" and i': "b_i b' = ?i + 1"
    by auto
  have i: "0 \<le> ?i" "?i < num_pages ps m" using ok run lo hi by (auto simp: batch_ok_def batch_running_def)
  have now: "restoring_bytes snap ms (mem_bytes p0) ?now"
    using alt page_range_saved_area [OF al m i] by (auto simp: put_page_def restoring_bytes_def)
  have mono: "mem_bytes p a = snap a \<Longrightarrow> ?now a = snap a" for a by (simp add: put_page_def)
  have "?now a = snap a" if "b_i b0 \<le> q" "q < b_i b'" "a \<in> page_range ps m q" for q a
  proof (cases "q = ?i")
    case True
    with that(3) show ?thesis using page_restored [OF sd al m alt i] by blast
  next
    case False
    with that i' before mono show ?thesis by simp
  qed
  then have "batch_progress ps snap ms ?now b0 b'"
    unfolding batch_progress_def m_def [symmetric] using m lo hi ok' by blast
  from that [OF p' now mono this] show thesis .
qed

lemma pool_inv_step:
  assumes inv: "pool_inv ps snap p0 ms c" and step: "pool_step ps c c'"
  shows "pool_inv ps snap p0 ms c'"
proof -
  from step obtain k bs p b' p' where c: "c = (bs, p)" and c': "c' = (bs[k := b'], p')"
    and k: "k < length bs" and run: "batch_running (bs ! k)"
    and st: "batch_step ps (bs ! k, p) = (b', p')"
    by (cases rule: pool_step.cases) auto
  from inv c have r: "restorable ps snap p0 ms" and p: "p = p0\<lparr>mem_bytes := mem_bytes p\<rparr>"
    and alt: "restoring_bytes snap ms (mem_bytes p0) (mem_bytes p)"
    and all: "list_all2 (batch_progress ps snap ms (mem_bytes p)) (restore_pool ps p0 ms) bs"
    by (auto simp: pool_inv_def restoring_bytes_def)
  from batch_progress_step [OF r p alt list_all2_nthD2 [OF all k] run st] obtain now where
    p': "p' = p\<lparr>mem_bytes := now\<rparr>" and now: "restoring_bytes snap ms (mem_bytes p0) now"
    and mono: "\<And>a. mem_bytes p a = snap a \<Longrightarrow> now a = snap a"
    and prog: "batch_progress ps snap ms now (restore_pool ps p0 ms ! k) b'" by blast
  have "list_all2 (batch_progress ps snap ms now) (restore_pool ps p0 ms) (bs[k := b'])"
    by (rule list_all2_update [where Q = "batch_progress ps snap ms now", OF all k _ prog])
      (rule batch_progress_mono [OF _ mono])
  moreover have "p' = p0\<lparr>mem_bytes := now\<rparr>" unfolding p' by (rule mem_bytes_update_base [OF p])
  ultimately show ?thesis using r now c' by (simp add: pool_inv_def restoring_bytes_def)
qed

interpretation restore_pool: guarded_system
    "pool_init ps snap p0 ms" "pool_step ps" "pool_inv ps snap p0 ms" for ps snap p0 ms
  by unfold_locales (blast intro: pool_inv_init pool_inv_step)+

lemma pool_reachable_inv:
  assumes "restorable ps snap p ms" and "(pool_step ps)\<^sup>*\<^sup>* (restore_pool ps p ms, p) c"
  shows "pool_inv ps snap p ms c"
  using assms by (intro restore_pool.steps_inv [OF assms(2)] pool_inv_init) (simp add: pool_init_def)

text \<open>The interleavings all stop.\<close>

lemma pool_step_measure:
  assumes "pool_step ps c c'"
  shows "sum_list (map pages_left (fst c')) < sum_list (map pages_left (fst c))"
  using assms
proof (cases rule: pool_step.cases)
  case (pool_step k bs p b' p')
  then have "pages_left b' < pages_left (bs ! k)" by (blast intro: batch_step_pages_left)
  then show ?thesis
    using pool_step sum_list_update_less [of k "map pages_left bs" "pages_left b'"]
    by (simp add: map_update)
qed

lemma pool_wf: "wfp (\<lambda>c' c. pool_step ps c c')"
proof (rule wfp_if_convertible_to_nat [of _ "\<lambda>c. sum_list (map pages_left (fst c))"])
  show "\<And>c' c. pool_step ps c c' \<Longrightarrow>
     sum_list (map pages_left (fst c')) < sum_list (map pages_left (fst c))"
    by (rule pool_step_measure)
qed

lemma pool_not_done: "\<not> pool_done c \<Longrightarrow> \<exists>c'. pool_step ps c c'"
proof -
  assume "\<not> pool_done c"
  then obtain k where "k < length (fst c)" "batch_running (fst c ! k)"
    by (auto simp: pool_done_def in_set_conv_nth)
  then show ?thesis
    by (cases c; cases "batch_step ps (fst c ! k, snd c)") (auto intro: pool_step)
qed

lemma pool_finishes: "\<exists>c'. (pool_step ps)\<^sup>*\<^sup>* c c' \<and> pool_done c'"
proof (induction c rule: wfp_induct_rule [OF pool_wf [of ps]])
  case (1 c)
  show ?case
  proof (cases "pool_done c")
    case True
    then show ?thesis by blast
  next
    case False
    then obtain c1 where "pool_step ps c c1" using pool_not_done by blast
    with 1 show ?thesis by (meson converse_rtranclp_into_rtranclp)
  qed
qed

lemma saved_area_page:
  assumes "a \<in> saved_area ms" and al: "\<And>m. m \<in> set (filter writable ms) \<Longrightarrow> aligned_snapshot ps snap m"
  obtains m q where "m \<in> set (filter writable ms)" and "0 \<le> q" and "q < num_pages ps m"
    and "a \<in> page_range ps m q"
proof -
  from assms(1) obtain m where m: "m \<in> set (filter writable ms)" and a: "startOffset m \<le> a" "a < endOffset m"
    by (auto simp: saved_area_def)
  from al [OF m] have ps: "0 < ps" by (simp add: aligned_snapshot_def)
  define q where "q = (a - startOffset m) div ps"
  have dm: "q * ps + (a - startOffset m) mod ps = a - startOffset m" by (simp add: q_def)
  have bnd: "0 \<le> (a - startOffset m) mod ps" "(a - startOffset m) mod ps < ps" using ps by simp_all
  have "q * ps < num_pages ps m * ps"
    using dm bnd a num_pages_aligned(2) [OF al [OF m]] by simp
  then have "q < num_pages ps m" using ps by (simp add: mult_less_cancel_right)
  moreover have "0 \<le> q" using a ps by (simp add: q_def pos_imp_zdiv_nonneg_iff)
  moreover have "a \<in> page_range ps m q"
    using dm bnd by (simp add: page_range_def distrib_right)
  ultimately show ?thesis using m that by blast
qed

lemma pool_inv_done:
  assumes inv: "pool_inv ps snap p0 ms (bs, p)" and fin: "pool_done (bs, p)"
  shows "p = p0\<lparr>mem_bytes := \<lambda>a. if a \<in> saved_area ms then snap a else mem_bytes p0 a\<rparr>"
proof -
  from inv have r: "restorable ps snap p0 ms" and p: "p = p0\<lparr>mem_bytes := mem_bytes p\<rparr>"
    and alt: "\<And>a. mem_bytes p a = mem_bytes p0 a \<or> (a \<in> saved_area ms \<and> mem_bytes p a = snap a)"
    and all: "list_all2 (batch_progress ps snap ms (mem_bytes p)) (restore_pool ps p0 ms) bs"
    by (auto simp: pool_inv_def)
  from r have al: "\<And>m. m \<in> set (filter writable ms) \<Longrightarrow> aligned_snapshot ps snap m"
    by (rule restorableE) blast
  have "mem_bytes p a = snap a" if a: "a \<in> saved_area ms" for a
  proof -
    from a al obtain m q where m: "m \<in> set (filter writable ms)" and q: "0 \<le> q" "q < num_pages ps m"
      and aq: "a \<in> page_range ps m q"
      by (rule saved_area_page)
    from batch_ranges_cover [OF q] obtain lo hi where r: "(lo, hi) \<in> set (batch_ranges (num_pages ps m))"
      and lh: "lo \<le> q" "q < hi" by blast
    define b0 where "b0 = new_batch ps p0 lo hi (startOffset m sdiv ps * pagemapEntrySize) m"
    have "b0 \<in> set (restore_pool ps p0 ms)"
      using m r by (auto simp: restore_pool_mem b0_def)
    then obtain k where k: "k < length bs" "restore_pool ps p0 ms ! k = b0"
      using list_all2_lengthD [OF all] by (metis in_set_conv_nth)
    have prog: "batch_progress ps snap ms (mem_bytes p) b0 (bs ! k)"
      using list_all2_nthD2 [OF all k(1)] k(2) by simp
    moreover have "\<not> batch_running (bs ! k)"
      using fin k(1) by (simp add: pool_done_def)
    ultimately have "q < b_i (bs ! k)"
      using lh by (auto simp: batch_progress_def batch_ok_def batch_running_def b0_def)
    with prog lh aq show ?thesis by (auto simp: batch_progress_def b0_def)
  qed
  then have "mem_bytes p = (\<lambda>a. if a \<in> saved_area ms then snap a else mem_bytes p0 a)"
    using alt by fastforce
  with p show ?thesis by simp
qed

section \<open>Properties\<close>

lemma RestoreDirtyPages_ok:
  assumes "RestoreDirtyPages ps p ms out" and "restorable ps snap p ms"
  shows "out = (Inr (), p\<lparr>mem_bytes := \<lambda>a. if a \<in> saved_area ms then snap a else mem_bytes p a\<rparr>)"
proof -
  from assms(2) have "mem_open p = None" by (rule restorableE) blast
  with assms(1) obtain bs p' where steps: "(pool_step ps)\<^sup>*\<^sup>* (restore_pool ps p ms, p) (bs, p')"
    and fin: "pool_done (bs, p')" and out: "out = (pool_result bs, p')"
    by (auto simp: RestoreDirtyPages_def)
  from pool_reachable_inv [OF assms(2) steps] have inv: "pool_inv ps snap p ms (bs, p')" .
  then have "\<not> list_ex b_panic bs"
    by (auto simp: pool_inv_def list_all2_conv_all_nth in_set_conv_nth list_ex_iff
        batch_progress_def batch_ok_def)
  then show ?thesis using fin out pool_inv_done [OF inv] by (simp add: pool_result_def)
qed

lemma RestoreDirtyPages_exists: "\<exists>out. RestoreDirtyPages ps p ms out"
proof (cases "mem_open p")
  case None
  from pool_finishes [of ps "(restore_pool ps p ms, p)"] obtain bs p' where
    "(pool_step ps)\<^sup>*\<^sup>* (restore_pool ps p ms, p) (bs, p')" "pool_done (bs, p')"
    by (metis prod.exhaust)
  with None show ?thesis by (auto simp: RestoreDirtyPages_def)
next
  case (Some e)
  then show ?thesis by (auto simp: RestoreDirtyPages_def)
qed

text \<open>The one-after-the-other schedule is one of the interleavings.\<close>

lemma run_batch_steps:
  "run_batch ps (b, p) = (b', p') \<Longrightarrow>
     (pool_step ps)\<^sup>*\<^sup>* (xs @ b # ys, p) (xs @ b' # ys, p') \<and> \<not> batch_running b'"
proof (induction ps "(b, p)" arbitrary: b p rule: run_batch.induct)
  case (1 ps b p)
  show ?case
  proof (cases "batch_running b")
    case True
    obtain b1 p1 where st: "batch_step ps (b, p) = (b1, p1)" by fastforce
    have "pool_step ps (xs @ b # ys, p) ((xs @ b # ys)[length xs := b1], p1)"
      using True st by (intro pool_step) simp_all
    then have one: "pool_step ps (xs @ b # ys, p) (xs @ b1 # ys, p1)" by simp
    have "run_batch ps (b1, p1) = (b', p')"
      using 1(2) True st by (subst (asm) run_batch.simps) simp
    from 1(1) [OF True st this] one show ?thesis
      by (meson converse_rtranclp_into_rtranclp)
  next
    case False
    with 1(2) have "b' = b" "p' = p" by (auto simp: run_batch.simps)
    with False show ?thesis by simp
  qed
qed

lemma run_pool_steps:
  "run_pool ps bs p = (bs', p') \<Longrightarrow>
     (pool_step ps)\<^sup>*\<^sup>* (xs @ bs, p) (xs @ bs', p') \<and> (\<forall>b \<in> set bs'. \<not> batch_running b)"
proof (induction bs arbitrary: xs p bs' p')
  case Nil
  then show ?case by simp
next
  case (Cons b bs)
  obtain b1 p1 where rb: "run_batch ps (b, p) = (b1, p1)" by fastforce
  obtain bs1 p2 where rp: "run_pool ps bs p1 = (bs1, p2)" by fastforce
  from Cons.prems rb rp have eq: "bs' = b1 # bs1" "p' = p2" by simp_all
  from run_batch_steps [OF rb, of xs bs]
  have 1: "(pool_step ps)\<^sup>*\<^sup>* (xs @ b # bs, p) (xs @ b1 # bs, p1)" "\<not> batch_running b1" by simp_all
  from Cons.IH [OF rp, of "xs @ [b1]"]
  have 2: "(pool_step ps)\<^sup>*\<^sup>* (xs @ b1 # bs, p1) (xs @ b1 # bs1, p2)" "\<forall>b \<in> set bs1. \<not> batch_running b"
    by simp_all
  from 1 2 eq show ?case by (auto intro: rtranclp_trans)
qed

lemma count_loop_eq:
  assumes "readable_range f (8 * q) (8 * (q + int n))" and "length entry = 8"
  shows "count_loop n (Inr f) (8 * q) entry d =
     Inr (d + int (length (filter (page_dirty f) [q..q + int n - 1])))"
  using assms
proof (induction n arbitrary: q entry d)
  case 0
  then show ?case by simp
next
  case (Suc n)
  have rd: "readable_range f (8 * q) (8 * q + 8)"
    using Suc.prems(1) by (auto simp: readable_range_def)
  note entry = read_entry_full [OF rd Suc.prems(2)]
  have rest: "readable_range f (8 * (q + 1)) (8 * (q + 1 + int n))"
    using Suc.prems(1) by (auto simp: readable_range_def)
  have split: "[q..q + int (Suc n) - 1] = q # [q + 1..q + 1 + int n - 1]"
    by (subst upto_rec1) (simp_all add: algebra_simps)
  have "8 * q + int 8 = 8 * (q + 1)" by simp
  with entry Suc.IH [OF rest] show ?case
    by (simp only: count_loop.simps split prod.case pagemapEntrySize_def)
      (simp add: dirty_set_addrs)
qed

text \<open>
  A concrete process for the witnesses: one writable location of two pages of eight bytes, saved
  when address \<open>a\<close> held the byte \<open>a\<close>; since then the second page was overwritten with zeros and
  its soft-dirty bit is set.
\<close>

definition ex_snap :: "int \<Rightarrow> byte option" where
  "ex_snap a = (if 16 \<le> a \<and> a < 32 then Some (of_int a) else None)"

definition ex_location :: memory where
  "ex_location = \<lparr>m_name = ''[heap]'', startOffset = 16, endOffset = 32, processOffset = 0,
     readable = True, writable = True, executable = False, shared = False,
     majorDevice = 0, minorDevice = 0, iNode = 0, content = map of_int [16..31]\<rparr>"

definition ex_proc :: proc where
  "ex_proc = \<lparr>maps_file = Inr [], mem_open = None,
     mem_bytes = (\<lambda>a. if 24 \<le> a \<and> a < 32 then Some 0 else ex_snap a),
     pagemap_file = Inr (\<lambda>a. if 16 \<le> a \<and> a < 32 then Some (if a = 30 then 128 else 0) else None)\<rparr>"

lemma ex_content: "\<lbrakk> 16 \<le> a; a < 32 \<rbrakk> \<Longrightarrow> content ex_location ! nat (a - 16) = of_int a"
proof -
  assume a: "16 \<le> a" "a < 32"
  have "map of_int [16..31] ! nat (a - 16) = (of_int ([16..31] ! nat (a - 16)) :: byte)"
    by (rule nth_map) (use a in simp)
  also have "[16..31] ! nat (a - 16) = a"
    using nth_upto [of 16 "nat (a - 16)" 31] a by (simp del: upto_rec_numeral)
  finally show ?thesis by (simp only: ex_location_def memory.select_convs)
qed

lemma ex_snapshot: "snapshot_of ex_snap ex_location"
proof -
  have "int (length (content ex_location)) = 16" by (simp add: ex_location_def)
  moreover have "startOffset ex_location = 16" "endOffset ex_location = 32"
    by (simp_all add: ex_location_def)
  ultimately show ?thesis by (auto simp: snapshot_of_def ex_snap_def ex_content)
qed

lemma ex_aligned: "aligned_snapshot 8 ex_snap ex_location"
  using ex_snapshot by (simp add: aligned_snapshot_def) (simp add: ex_location_def)

lemma ex_restorable: "restorable 8 ex_snap ex_proc [ex_location]"
proof -
  have page2: "a div 8 = 2 \<or> 24 \<le> a" if "16 \<le> a" "a < 32" for a :: int
    using that by presburger
  have page3: "page_dirty (\<lambda>a. if 16 \<le> a \<and> a < 32 then Some (if a = 30 then 128 else 0) else None) 3"
    by (simp add: page_dirty_def)
  have "soft_dirty_sound 8 (\<lambda>a. if 16 \<le> a \<and> a < 32 then Some (if a = 30 then 128 else 0) else None)
      ex_snap (mem_bytes ex_proc) ex_location"
    unfolding soft_dirty_sound_def
  proof (intro allI impI, elim conjE)
    fix a
    assume a: "startOffset ex_location \<le> a" "a < endOffset ex_location"
      and clean: "\<not> page_dirty (\<lambda>a. if 16 \<le> a \<and> a < 32 then Some (if a = 30 then 128 else 0) else None) (page_no 8 a)"
    have "a div 8 = 3" if "24 \<le> a" using that a by (simp add: ex_location_def)
    then have "a < 24" using clean page3 by (force simp: page_no_def)
    then show "mem_bytes ex_proc a = ex_snap a" by (simp add: ex_proc_def)
  qed
  then show ?thesis
    using ex_aligned
    by (simp add: restorable_def ex_proc_def)
      (auto simp: ex_location_def pagemap_covers_def page_no_def readable_range_def ex_snap_def)
qed

text \<open>The result of that schedule as a function, for callers that need one outcome.\<close>

definition restore_dirty_pages :: "int \<Rightarrow> 'a proc_scheme \<Rightarrow> memory list \<Rightarrow> unit res \<times> 'a proc_scheme" where
  "restore_dirty_pages pageSize p memoryLocations =
     (case mem_open p of
        Some e \<Rightarrow> (Inl (Returned (Wrapf ''could not open /proc/pid/mem'' e)), p)
      | None \<Rightarrow>
          (case run_pool pageSize (restore_pool pageSize p memoryLocations) p of
             (bs, p') \<Rightarrow> (pool_result bs, p')))"

lemma restore_dirty_pages_outcome: "RestoreDirtyPages ps p ms (restore_dirty_pages ps p ms)"
proof (cases "mem_open p")
  case None
  obtain bs p' where run: "run_pool ps (restore_pool ps p ms) p = (bs, p')" by fastforce
  from run_pool_steps [OF run, of "[]"] None run show ?thesis
    by (auto simp: RestoreDirtyPages_def restore_dirty_pages_def pool_done_def)
next
  case (Some e)
  then show ?thesis by (simp add: RestoreDirtyPages_def restore_dirty_pages_def)
qed

text \<open>
  C2: Restoring the dirty pages, in whatever order the goroutines run, brings every byte of every
  writable location back to the checkpoint and changes nothing else: the call returns no error, and
  memory afterwards is the snapshot on the saved locations and what it was elsewhere. Assumed of the
  kernel: the saved locations are still mapped, their pagemap entries can be read, and a clear
  soft-dirty bit means that the page was not written.
\<close>

theorem RestoreDirtyPages_restores_snapshot:
  assumes "restorable ps snap p ms" and "RestoreDirtyPages ps p ms (r, p')"
  shows "r = Inr () \<and>
     mem_bytes p' = (\<lambda>a. if a \<in> saved_area ms then snap a else mem_bytes p a) \<and>
     maps_file p' = maps_file p \<and> pagemap_file p' = pagemap_file p"
  using RestoreDirtyPages_ok [OF assms(2,1)] by simp

theorem RestoreDirtyPages_restores_snapshot_witness:
  "\<exists>r p'. RestoreDirtyPages 8 ex_proc [ex_location] (r, p') \<and> restorable 8 ex_snap ex_proc [ex_location] \<and>
     mem_bytes ex_proc 25 = Some 0 \<and> r = Inr () \<and> mem_bytes p' 25 = Some 25"
proof -
  obtain r p' where out: "RestoreDirtyPages 8 ex_proc [ex_location] (r, p')"
    using RestoreDirtyPages_exists [of 8 ex_proc "[ex_location]"] by auto
  have "25 \<in> saved_area [ex_location]" by (simp add: saved_area_def ex_location_def)
  then have "r = Inr ()" "mem_bytes p' 25 = ex_snap 25"
    using RestoreDirtyPages_restores_snapshot [OF ex_restorable out] by simp_all
  then show ?thesis
    using out ex_restorable by (auto simp: ex_snap_def ex_proc_def)
qed

text \<open>
  C13: \<open>RestoreDirtyPages\<close> always returns: no interleaving of its goroutines runs for ever (each step
  takes a page off the pages that are left), and from every process state and list of locations some
  outcome is reached, with no assumption on either.
\<close>

theorem RestoreDirtyPages_terminates:
  "wfp (\<lambda>c' c. pool_step ps c c') \<and> (\<exists>out. RestoreDirtyPages ps p ms out)"
  using pool_wf RestoreDirtyPages_exists by blast

text \<open>
  C24: The eight page ranges that \<open>singleMemoryRestoreDirtyPages\<close> hands to its goroutines are a
  partition of the pages of the location: listed one after the other they are exactly
  \<open>0, 1, ..., numPages - 1\<close>, so that every page is restored by exactly one goroutine, the remainder
  of the division by eight included.
\<close>

theorem batch_ranges_partition:
  assumes "0 \<le> numPages"
  shows "length (batch_ranges numPages) = 8 \<and>
     concat (map (\<lambda>(startIndex, endIndex). [startIndex..endIndex - 1]) (batch_ranges numPages))
       = [0..numPages - 1]"
  using batch_ranges_concat [OF assms] batch_ranges_eq [OF assms] by simp

theorem batch_ranges_partition_witness:
  "length (batch_ranges 19) = 8 \<and>
     concat (map (\<lambda>(startIndex, endIndex). [startIndex..endIndex - 1]) (batch_ranges 19)) = [0..18]"
  using batch_ranges_partition [of 19] by simp

text \<open>
  C25: While the pages are restored, in every interleaving, no goroutine panics on a slice of the saved
  content or logs a failure, and the three offsets it computes (in the pagemap, in the process and in
  the saved content) stay within \<open>int64\<close>, for page sizes of at least eight bytes and locations that end
  below \<open>2^63\<close>.
\<close>

theorem restore_batch_int64:
  assumes "restorable ps snap p ms" and "8 \<le> ps"
    and "\<And>m. m \<in> set ms \<Longrightarrow> endOffset m < 2 ^ 63"
    and "(pool_step ps)\<^sup>*\<^sup>* (restore_pool ps p ms, p) (bs, p')" and "b \<in> set bs"
  shows "\<not> b_panic b \<and> b_log b = 0 \<and> fits63 (b_pos b) \<and> fits63 (b_page b) \<and> fits63 (b_byte b)"
proof -
  from pool_reachable_inv [OF assms(1,4)] assms(5) obtain b0 where
    prog: "batch_progress ps snap ms (mem_bytes p') b0 b"
    by (fastforce simp: pool_inv_def list_all2_conv_all_nth in_set_conv_nth)
  define m where "m = b_mem b0"
  from prog have m: "m \<in> set (filter writable ms)" and ok: "batch_ok ps m (b_i b0) (b_end b0) b"
    and lo: "0 \<le> b_i b0" and hi: "b_end b0 \<le> num_pages ps m"
    by (auto simp: batch_progress_def m_def)
  have al: "aligned_snapshot ps snap m" using assms(1) m by (auto elim: restorableE)
  have i: "0 \<le> b_i b" "b_i b \<le> num_pages ps m" using ok lo hi by (auto simp: batch_ok_def)
  have start: "0 \<le> startOffset m" and ps: "0 < ps" using al by (simp_all add: aligned_snapshot_def)
  have "b_i b * ps \<le> num_pages ps m * ps" using i ps by (intro mult_right_mono) simp_all
  then have page: "b_i b * ps \<le> endOffset m - startOffset m" by (simp only: num_pages_aligned(2) [OF al])
  have last: "endOffset m < 2 ^ 63" using assms(3) m by simp
  have dvd: "page_no ps (endOffset m) * ps = endOffset m"
    using al by (simp add: aligned_snapshot_def page_no_def)
  have q: "page_no ps (startOffset m) + b_i b \<le> page_no ps (endOffset m)"
    using i num_pages_aligned(1) [OF al] by simp
  have q0: "0 \<le> page_no ps (startOffset m)"
    using start ps by (simp add: page_no_def pos_imp_zdiv_nonneg_iff)
  have "page_no ps (endOffset m) * 8 \<le> page_no ps (endOffset m) * ps"
    using assms(2) q q0 i by (intro mult_left_mono) simp_all
  then have pos: "8 * (page_no ps (startOffset m) + b_i b) \<le> endOffset m"
    using q dvd by simp
  have "0 \<le> b_i b * ps" using i ps by simp
  then show ?thesis
    using ok page last pos q0 i start by (simp add: batch_ok_def fits63_def)
qed

theorem restore_batch_int64_witness:
  "list_all (\<lambda>b. \<not> b_panic b \<and> b_log b = 0 \<and> fits63 (b_pos b) \<and> fits63 (b_page b) \<and> fits63 (b_byte b))
     (restore_pool 8 ex_proc [ex_location])"
  unfolding list_all_iff
proof
  fix b
  assume b: "b \<in> set (restore_pool 8 ex_proc [ex_location])"
  show "\<not> b_panic b \<and> b_log b = 0 \<and> fits63 (b_pos b) \<and> fits63 (b_page b) \<and> fits63 (b_byte b)"
    by (rule restore_batch_int64 [OF ex_restorable _ _ rtranclp.rtrancl_refl b])
      (auto simp: ex_location_def)
qed

text \<open>
  \<open>CountDirtyPages\<close> returns the number of pages of the named location whose soft-dirty bit (bit 55
  of the 64-bit pagemap entry) is set, whenever the pagemap covers the location.
\<close>

theorem CountDirtyPages_counts:
  assumes "getMemory ms nm = Inr m" and "pagemap_file p = Inr f"
    and "aligned_snapshot ps snap m" and "pagemap_covers ps f m"
  shows "CountDirtyPages ps p ms nm =
     Inr (int (length (filter (page_dirty f) [page_no ps (startOffset m)..page_no ps (endOffset m) - 1])))"
proof -
  let ?s = "page_no ps (startOffset m)"
  have st: "startOffset m sdiv ps = ?s"
    using assms(3) by (cases "startOffset m = 0")
      (simp_all add: aligned_snapshot_def signed_divide_int_def page_no_def)
  have e: "?s + int (nat (num_pages ps m)) = page_no ps (endOffset m)"
    using num_pages_aligned(1,3) [OF assms(3)] by simp
  have "readable_range f (8 * ?s) (8 * (?s + int (nat (num_pages ps m))))"
    using assms(4) e by (simp add: pagemap_covers_def)
  from count_loop_eq [OF this, of "replicate 8 0" 0] show ?thesis
    using assms(1,2) e st by (simp add: CountDirtyPages_def pagemapEntrySize_def mult.commute)
qed

theorem CountDirtyPages_counts_witness:
  "CountDirtyPages 8 ex_proc [ex_location] ''[heap]'' = Inr 1"
proof -
  define f :: "int \<Rightarrow> byte option" where
    "f = (\<lambda>a. if 16 \<le> a \<and> a < 32 then Some (if a = 30 then 128 else 0) else None)"
  have g: "getMemory [ex_location] ''[heap]'' = Inr ex_location"
    by (simp add: getMemory_def ex_location_def)
  have p: "pagemap_file ex_proc = Inr f" by (simp add: ex_proc_def f_def)
  have c: "pagemap_covers 8 f ex_location"
    by (auto simp: pagemap_covers_def readable_range_def f_def ex_location_def page_no_def)
  have "[page_no 8 (startOffset ex_location)..page_no 8 (endOffset ex_location) - 1] = [2, 3]"
    by (simp add: page_no_def ex_location_def upto_rec1)
  then have "length (filter (page_dirty f)
      [page_no 8 (startOffset ex_location)..page_no 8 (endOffset ex_location) - 1]) = 1"
    by (simp add: page_dirty_def f_def)
  then show ?thesis
    using CountDirtyPages_counts [OF g p ex_aligned c] by simp
qed

end
