(* ===== verification/Trace_Task.thy ===== *)
theory Trace_Task
  imports Go_Text "HOL-Library.Word"
begin

text \<open>
  \<open>controller/ptrace/ptrace.go\<close> and \<open>controller/safewriter/safewriter.go\<close>: a traced thread and the
  goroutine that owns it. All ptrace requests of a thread are made by that goroutine, which waits for
  the thread to stop (\<open>ptraceLoop\<close>), announces the stop on the one-place channel \<open>SignalStop\<close> and
  then serves orders of the controller (\<open>awaitContinueOrders\<close>) until the thread is continued or
  detached. The system calls are the parameters \<open>ptrace_ops\<close> of the model; the world they act on is
  the type variable.
\<close>

unbundle bit_operations_syntax

type_synonym u8 = "8 word"
type_synonym u32 = "32 word"
type_synonym u64 = "64 word"

section \<open>System calls\<close>

text \<open>
  \<open>syscall.PtraceRegs\<close>: the registers the code names, and the others, which it only copies.
\<close>

record ptrace_regs =
  Rax :: u64
  Rdi :: u64
  Rsi :: u64
  Rip :: u64
  Orig_rax :: u64
  other_regs :: "u64 list"

text \<open>
  The raw system calls. \<open>k_ptrace\<close> returns the error number; \<open>k_peek\<close> the bytes read and \<open>k_poke\<close>
  the number of bytes written; \<open>k_wait4\<close> the status; \<open>k_name\<close> is the syscall table of libseccomp and
  \<open>k_copy\<close> writes to the strace output.
\<close>

record 'w ptrace_ops =
  k_ptrace :: "int \<Rightarrow> int \<Rightarrow> int \<Rightarrow> int \<Rightarrow> 'w \<Rightarrow> nat \<times> 'w"
  k_getregs :: "int \<Rightarrow> ('w, ptrace_regs) io"
  k_setregs :: "int \<Rightarrow> ptrace_regs \<Rightarrow> ('w, unit) io"
  k_peek :: "int \<Rightarrow> u64 \<Rightarrow> nat \<Rightarrow> ('w, u8 list) io"
  k_poke :: "int \<Rightarrow> u64 \<Rightarrow> u8 list \<Rightarrow> ('w, nat) io"
  k_singlestep :: "int \<Rightarrow> ('w, unit) io"
  k_cont :: "int \<Rightarrow> int \<Rightarrow> ('w, unit) io"
  k_syscall :: "int \<Rightarrow> int \<Rightarrow> ('w, unit) io"
  k_detach :: "int \<Rightarrow> ('w, unit) io"
  k_wait4 :: "int \<Rightarrow> ('w, u32) io"
  k_tgkill :: "int \<Rightarrow> int \<Rightarrow> int \<Rightarrow> ('w, unit) io"
  k_name :: "u64 \<Rightarrow> error + string"
  k_copy :: "string \<Rightarrow> ('w, unit) io"

definition PTRACE_SEIZE :: int where "PTRACE_SEIZE = 0x4206"
definition PTRACE_EVENT_STOP :: u32 where "PTRACE_EVENT_STOP = 128"
definition SIGTRAP :: int where "SIGTRAP = 5"
definition SIGSTOP :: int where "SIGSTOP = 19"

text \<open>\<open>syscall.WaitStatus\<close> of Go's standard library on Linux.\<close>

definition Exited :: "u32 \<Rightarrow> bool" where
  "Exited w \<longleftrightarrow> w AND 0x7F = 0"

definition Stopped :: "u32 \<Rightarrow> bool" where
  "Stopped w \<longleftrightarrow> w AND 0xFF = 0x7F"

definition StopSignal :: "u32 \<Rightarrow> int" where
  "StopSignal w = (if \<not> Stopped w then - 1 else uint (drop_bit 8 w AND 0xFF))"

text \<open>
  \<open>syscall.Wait4(pid, &waitStat, ...)\<close> stores the status it got from the kernel, which is zero when
  the call failed, and returns the error.
\<close>

definition Wait4 :: "'w ptrace_ops \<Rightarrow> int \<Rightarrow> 'w \<Rightarrow> (u32 \<times> fault option) \<times> 'w" where
  "Wait4 ops pid w =
     (case k_wait4 ops pid w of
        (Inl e, w') \<Rightarrow> ((0, Some e), w')
      | (Inr st, w') \<Rightarrow> ((st, None), w'))"

definition ptrace :: "'w ptrace_ops \<Rightarrow> int \<Rightarrow> int \<Rightarrow> int \<Rightarrow> int \<Rightarrow> ('w, unit) io" where
  "ptrace ops request pid addr data w =
     (case k_ptrace ops request pid addr data w of
        (e1, w') \<Rightarrow> (if e1 \<noteq> 0 then Inl (Returned (Ext (''errno '' @ digits_of 10 e1))) else Inr (), w'))"

definition PtraceSeize :: "'w ptrace_ops \<Rightarrow> int \<Rightarrow> int \<Rightarrow> ('w, unit) io" where
  "PtraceSeize ops pid opts = ptrace ops PTRACE_SEIZE pid 0 opts"

section \<open>The strace writer\<close>

text \<open>
  \<open>SafeWriter.Write\<close> holds the mutex while it copies and releases it on every path. The mutex is a
  flag; locking a held mutex blocks.
\<close>

record safe_writer =
  mux :: bool

definition NewSafeWriter :: safe_writer where
  "NewSafeWriter = \<lparr>mux = False\<rparr>"

definition SafeWriter_Write ::
  "'w ptrace_ops \<Rightarrow> safe_writer \<Rightarrow> string \<Rightarrow> 'w \<Rightarrow> (unit res \<times> safe_writer) \<times> 'w" where
  "SafeWriter_Write ops s out w =
     (if mux s then ((Inl Blocked, s), w)
      else let locked = s\<lparr>mux := True\<rparr> in
        (case k_copy ops out w of
           (r, w') \<Rightarrow> ((r, locked\<lparr>mux := False\<rparr>), w')))"

section \<open>Tasks\<close>

text \<open>
  Where the goroutine of a task is: waiting for the thread, serving orders, returned, or blocked for
  ever inside a function the controller gave it.
\<close>

datatype phase = Waiting | InStop | Ended | Hung

record trace_task =
  Tid :: int
  Gid :: int
  SignalStop :: "u32 option"
  attachOptions :: "int list"
  straceEnabled :: bool
  writer :: safe_writer
  enteringSyscall :: bool
  t_phase :: phase
  t_errors :: "error list"

record task_options =
  AttachOptions :: "int list"
  StraceEnabled :: bool
  StraceOutput :: safe_writer

definition ptraceAttach :: "'w ptrace_ops \<Rightarrow> trace_task \<Rightarrow> ('w, unit) io" where
  "ptraceAttach ops t =
     wrapS ''could not attach'' (PtraceSeize ops (Tid t) (fold (\<lambda>opt opts. opts OR opt) (attachOptions t) 0))"

text \<open>
  \<open>ptraceLoop\<close> starts the goroutine of the task, which attaches to the thread from the operating system thread that it
  keeps, and returns the result of that; when it is no error, the goroutine is at the top of its loop.
  \<open>NewTraceTask\<close> returns the task with its goroutine running, or not at all.
\<close>

definition ptraceLoop :: "'w ptrace_ops \<Rightarrow> trace_task \<Rightarrow> ('w, trace_task) io" where
  "ptraceLoop ops t =
     bindS (ptraceAttach ops t) (\<lambda>_. retS (t\<lparr>enteringSyscall := True, t_phase := Waiting\<rparr>))"

definition NewTraceTask :: "'w ptrace_ops \<Rightarrow> int \<Rightarrow> int \<Rightarrow> task_options \<Rightarrow> ('w, trace_task) io" where
  "NewTraceTask ops tid gid options =
     (let t = \<lparr>Tid = tid, Gid = gid, SignalStop = None, attachOptions = AttachOptions options,
               straceEnabled = StraceEnabled options, writer = StraceOutput options,
               enteringSyscall = False, t_phase = Ended, t_errors = []\<rparr>
      in ptraceLoop ops t)"

definition continueTrace :: "'w ptrace_ops \<Rightarrow> trace_task \<Rightarrow> int \<Rightarrow> ('w, unit) io" where
  "continueTrace ops t signal =
     (if straceEnabled t then k_syscall ops (Tid t) signal else k_cont ops (Tid t) signal)"

definition popWait :: "trace_task \<Rightarrow> trace_task" where
  "popWait t = t\<lparr>SignalStop := None\<rparr>"

definition straceWrite :: "'w ptrace_ops \<Rightarrow> trace_task \<Rightarrow> string \<Rightarrow> ('w, unit) io" where
  "straceWrite ops t out w =
     (case SafeWriter_Write ops (writer t) out w of
        ((r, _), w') \<Rightarrow> (wrap_res ''could not print to strace output'' r, w'))"

definition printSyscall :: "'w ptrace_ops \<Rightarrow> trace_task \<Rightarrow> ('w, unit) io" where
  "printSyscall ops t =
     bindS (wrapS ''cound not get regs'' (k_getregs ops (Tid t))) (\<lambda>regs.
     wrapS ''strace write err''
       (straceWrite ops t
         (case k_name ops (Orig_rax regs) of
            Inr name \<Rightarrow> ''syscall: '' @ name @ [CHR 0x0A]
          | Inl _ \<Rightarrow> ''unknown syscall: '' @ digits_of 10 (unat (Orig_rax regs)) @ [CHR 0x0A])))"

text \<open>A count other than the expected one is an error even when the call itself returned none.\<close>

definition expect2 :: "string \<Rightarrow> ('w, 'a) io \<Rightarrow> ('a \<Rightarrow> nat) \<Rightarrow> ('w, 'a) io" where
  "expect2 msg m count =
     bindS (wrapS msg m) (\<lambda>x. if count x \<noteq> 2 then errS msg else retS x)"

definition runSyscall :: "'w ptrace_ops \<Rightarrow> int \<Rightarrow> ptrace_regs \<Rightarrow> ('w, ptrace_regs) io" where
  "runSyscall ops tid argRegs =
     bindS (wrapS ''could not get task regs'' (k_getregs ops tid)) (\<lambda>startRegs.
     bindS (expect2 ''could not peek data'' (k_peek ops tid (Rip startRegs) 2) length)
       (\<lambda>preSyscallInstruction.
     bindS (expect2 ''could not poke instruction data'' (k_poke ops tid (Rip startRegs) [0x0f, 0x05]) id) (\<lambda>_.
     bindS (wrapS ''could not poke instruction data''
       (k_setregs ops tid (startRegs\<lparr>Rax := Rax argRegs, Rdi := Rdi argRegs, Rsi := Rsi argRegs\<rparr>))) (\<lambda>_.
     bindS (wrapS ''could not continue task'' (k_singlestep ops tid)) (\<lambda>_.
     bindS (wrapS ''could wait on syscall task'' (k_wait4 ops tid)) (\<lambda>_.
     bindS (wrapS ''could not get task regs'' (k_getregs ops tid)) (\<lambda>exitRegs.
     bindS (expect2 ''could not poke instruction data''
       (k_poke ops tid (Rip startRegs) preSyscallInstruction) id) (\<lambda>_.
     bindS (wrapS ''could not reset task regs'' (k_setregs ops tid startRegs)) (\<lambda>_.
     retS exitRegs)))))))))"

section \<open>The loop of the goroutine\<close>

definition end_task :: "trace_task \<Rightarrow> error list \<Rightarrow> trace_task" where
  "end_task t errs = t\<lparr>t_phase := Ended, t_errors := t_errors t @ errs\<rparr>"

text \<open>\<open>t.SignalStop <- status\<close> on a channel with one place, then \<open>awaitContinueOrders\<close>.\<close>

definition send_stop :: "trace_task \<Rightarrow> u32 \<Rightarrow> trace_task res" where
  "send_stop t st =
     (case SignalStop t of
        None \<Rightarrow> Inr (t\<lparr>SignalStop := Some st, t_phase := InStop\<rparr>)
      | Some _ \<Rightarrow> Inl Blocked)"

text \<open>A syscall stop: print on entry, continue, and flip the direction.\<close>

definition syscall_stop :: "'w ptrace_ops \<Rightarrow> trace_task \<Rightarrow> ('w, trace_task) io" where
  "syscall_stop ops t =
     bindS (if enteringSyscall t then tryS (printSyscall ops t) else retS (Inr ())) (\<lambda>printed.
     case printed of
       Inl e \<Rightarrow> retS (end_task t [Wrapf ''could not print syscall'' e])
     | Inr _ \<Rightarrow>
         bindS (tryS (continueTrace ops t 0)) (\<lambda>continued.
         case continued of
           Inl e \<Rightarrow> retS (end_task t [Wrapf ''could not continue after syscall stop'' e])
         | Inr _ \<Rightarrow> retS (t\<lparr>enteringSyscall := \<not> enteringSyscall t\<rparr>)))"

text \<open>One pass through the body of the loop, up to the wait for orders.\<close>

definition loop_wait :: "'w ptrace_ops \<Rightarrow> trace_task \<Rightarrow> ('w, trace_task) io" where
  "loop_wait ops t w =
     (case Wait4 ops (Tid t) w of
        ((waitStat, Some (Returned e)), w') \<Rightarrow>
          (if Exited waitStat then (Inr (end_task t []), w')
           else (Inr (end_task t [Wrapf ''error waiting for child'' e]), w'))
      | ((waitStat, Some f), w') \<Rightarrow> (Inl f, w')
      | ((waitStat, None), w') \<Rightarrow>
          (if drop_bit 16 waitStat = PTRACE_EVENT_STOP then (send_stop t PTRACE_EVENT_STOP, w')
           else if \<not> Stopped waitStat then (Inr (end_task t []), w')
           else if StopSignal waitStat = SIGTRAP OR 0x80 then syscall_stop ops t w'
           else (send_stop t waitStat, w')))"

text \<open>The orders the goroutine serves while the thread is stopped, and its answers.\<close>

datatype 'w order =
    Continue int
  | RunSyscall ptrace_regs
  | Detach
  | InStopFunction "('w, unit) io"

datatype reply =
    HasContinued
  | SyscallReturn ptrace_regs
  | SyscallError error
  | HasDetached
  | NoReply

fun awaitContinueOrders :: "'w ptrace_ops \<Rightarrow> trace_task \<Rightarrow> 'w order \<Rightarrow> ('w, trace_task \<times> reply) io" where
  "awaitContinueOrders ops t (Continue continueSignal) =
     (let t1 = popWait t in
      bindS (tryS (continueTrace ops t1 continueSignal)) (\<lambda>r.
      case r of
        Inl e \<Rightarrow> retS (end_task t1 [Wrapf ''could not continue after syscall stop'' e], NoReply)
      | Inr _ \<Rightarrow> retS (t1\<lparr>t_phase := Waiting\<rparr>, HasContinued)))"
| "awaitContinueOrders ops t (RunSyscall regs) =
     bindS (tryS (runSyscall ops (Tid t) regs)) (\<lambda>r.
     case r of
       Inl e \<Rightarrow> retS (t, SyscallError e)
     | Inr returnRegs \<Rightarrow> retS (t, SyscallReturn returnRegs))"
| "awaitContinueOrders ops t Detach =
     bindS (tryS (k_detach ops (Tid t))) (\<lambda>r.
     case r of
       Inl e \<Rightarrow> retS (end_task t [Wrapf ''could not detach'' e], NoReply)
     | Inr _ \<Rightarrow> retS (end_task t [], HasDetached))"
| "awaitContinueOrders ops t (InStopFunction f) = bindS (f) (\<lambda>_. retS (t, NoReply))"

text \<open>
  A controller that sends an order or reads \<open>SignalStop\<close> waits while the goroutine runs. The number
  bounds the syscall stops the goroutine may pass on the way; running out of it, like a goroutine
  that has returned, means that the controller waits for ever.
\<close>

fun await_orders :: "'w ptrace_ops \<Rightarrow> nat \<Rightarrow> trace_task \<Rightarrow> ('w, trace_task) io" where
  "await_orders ops 0 t = faultS Blocked"
| "await_orders ops (Suc n) t =
     (case t_phase t of
        InStop \<Rightarrow> retS t
      | Waiting \<Rightarrow> bindS (loop_wait ops t) (await_orders ops n)
      | _ \<Rightarrow> faultS Blocked)"

fun await_signal :: "'w ptrace_ops \<Rightarrow> nat \<Rightarrow> trace_task \<Rightarrow> ('w, trace_task \<times> u32) io" where
  "await_signal ops 0 t = faultS Blocked"
| "await_signal ops (Suc n) t =
     (case SignalStop t of
        Some st \<Rightarrow> retS (t\<lparr>SignalStop := None\<rparr>, st)
      | None \<Rightarrow>
          (case t_phase t of
             Waiting \<Rightarrow> bindS (loop_wait ops t) (await_signal ops n)
           | _ \<Rightarrow> faultS Blocked))"

definition send_order :: "'w ptrace_ops \<Rightarrow> nat \<Rightarrow> trace_task \<Rightarrow> 'w order \<Rightarrow> ('w, trace_task \<times> reply) io" where
  "send_order ops n t ord = bindS (await_orders ops n t) (\<lambda>t'. awaitContinueOrders ops t' ord)"

text \<open>
  \<open>(*TraceTask).Stop\<close>: if a stop is announced it is read and put back; otherwise the thread gets a
  \<open>SIGSTOP\<close> and the next announced stop is read and put back.
\<close>

definition put_back :: "trace_task \<Rightarrow> u32 \<Rightarrow> trace_task res" where
  "put_back t st =
     (case SignalStop t of None \<Rightarrow> Inr (t\<lparr>SignalStop := Some st\<rparr>) | Some _ \<Rightarrow> Inl Blocked)"

definition Stop_task :: "'w ptrace_ops \<Rightarrow> nat \<Rightarrow> trace_task \<Rightarrow> ('w, trace_task) io" where
  "Stop_task ops n t =
     (case SignalStop t of
        Some signal \<Rightarrow> liftS (put_back (popWait t) signal)
      | None \<Rightarrow>
          bindS (k_tgkill ops (Gid t) (Tid t) SIGSTOP) (\<lambda>_.
          bindS (await_signal ops n t) (\<lambda>(t', stop). liftS (put_back t' stop))))"

section \<open>Running a system call inside the thread\<close>

text \<open>
  What \<open>ptrace(2)\<close> documents of the four requests that read and write the registers and the memory of
  a stopped thread, for the thread's registers \<open>R\<close> and memory \<open>M\<close> in each world.
\<close>

definition ptrace_faithful ::
  "'w ptrace_ops \<Rightarrow> int \<Rightarrow> ('w \<Rightarrow> ptrace_regs) \<Rightarrow> ('w \<Rightarrow> u64 \<Rightarrow> u8) \<Rightarrow> bool" where
  "ptrace_faithful ops tid R M \<longleftrightarrow>
     (\<forall>w r w'. k_getregs ops tid w = (Inr r, w') \<longrightarrow> r = R w \<and> R w' = R w \<and> M w' = M w) \<and>
     (\<forall>r w w'. k_setregs ops tid r w = (Inr (), w') \<longrightarrow> R w' = r \<and> M w' = M w) \<and>
     (\<forall>a w bs w'. k_peek ops tid a 2 w = (Inr bs, w') \<and> length bs = 2 \<longrightarrow>
        bs = [M w a, M w (a + 1)] \<and> R w' = R w \<and> M w' = M w) \<and>
     (\<forall>a x y w w'. k_poke ops tid a [x, y] w = (Inr 2, w') \<longrightarrow>
        M w' = (M w)(a := x, a + 1 := y) \<and> R w' = R w)"

lemma expect2_Inr_iff:
  "expect2 msg m count w = (Inr x, w') \<longleftrightarrow> m w = (Inr x, w') \<and> count x = 2"
  by (auto simp: expect2_def bindS_Inr_iff wrapS_Inr_iff split: if_splits)

lemma word_ne_plus1 [simp]: "(a :: u64) + 1 \<noteq> a"
  by simp

lemma runSyscall_Inr:
  assumes law: "ptrace_faithful ops tid R M"
    and run: "runSyscall ops tid argRegs w = (Inr out, w')"
  shows "R w' = R w \<and>
    (\<exists>w1 w2 w3.
       R w1 = (R w)\<lparr>Rax := Rax argRegs, Rdi := Rdi argRegs, Rsi := Rsi argRegs\<rparr> \<and>
       M w1 = (M w)(Rip (R w) := 0x0f, Rip (R w) + 1 := 0x05) \<and>
       k_singlestep ops tid w1 = (Inr (), w2) \<and> (\<exists>st. k_wait4 ops tid w2 = (Inr st, w3)) \<and>
       out = R w3 \<and>
       M w' = (M w3)(Rip (R w) := M w (Rip (R w)), Rip (R w) + 1 := M w (Rip (R w) + 1)))"
proof -
  let ?pc = "Rip (R w)"
  from run obtain r0 wa bs wb wc wd we st wf wg wh where
    g0: "k_getregs ops tid w = (Inr r0, wa)" and
    pk: "k_peek ops tid (Rip r0) 2 wa = (Inr bs, wb)" "length bs = 2" and
    po: "k_poke ops tid (Rip r0) [0x0f, 0x05] wb = (Inr 2, wc)" and
    se: "k_setregs ops tid (r0\<lparr>Rax := Rax argRegs, Rdi := Rdi argRegs, Rsi := Rsi argRegs\<rparr>) wc = (Inr (), wd)" and
    ss: "k_singlestep ops tid wd = (Inr (), we)" and
    wt: "k_wait4 ops tid we = (Inr st, wf)" and
    g1: "k_getregs ops tid wf = (Inr out, wg)" and
    pb: "k_poke ops tid (Rip r0) bs wg = (Inr 2, wh)" and
    sr: "k_setregs ops tid r0 wh = (Inr (), w')"
    by (auto simp: runSyscall_def bindS_Inr_iff wrapS_Inr_iff expect2_Inr_iff)
  have l1: "r = R u \<and> R u' = R u \<and> M u' = M u" if "k_getregs ops tid u = (Inr r, u')" for u r u'
    using law that by (simp add: ptrace_faithful_def)
  have l2: "R u' = r \<and> M u' = M u" if "k_setregs ops tid r u = (Inr (), u')" for u r u'
    using law that by (simp add: ptrace_faithful_def)
  have l3: "xs = [M u a, M u (a + 1)] \<and> R u' = R u \<and> M u' = M u"
    if "k_peek ops tid a 2 u = (Inr xs, u')" "length xs = 2" for u a xs u'
    using law that by (simp add: ptrace_faithful_def)
  have l4: "M u' = (M u)(a := x, a + 1 := y) \<and> R u' = R u"
    if "k_poke ops tid a [x, y] u = (Inr 2, u')" for u a x y u'
    using law that unfolding ptrace_faithful_def by blast
  from l1 [OF g0] have A: "r0 = R w" "R wa = R w" "M wa = M w" by simp_all
  from l3 [OF pk] A have B: "bs = [M w ?pc, M w (?pc + 1)]" "R wb = R w" "M wb = M w" by simp_all
  from l4 [OF po] A B have C: "M wc = (M w)(?pc := 0x0f, ?pc + 1 := 0x05)" by simp
  from l2 [OF se] A C have D: "R wd = (R w)\<lparr>Rax := Rax argRegs, Rdi := Rdi argRegs, Rsi := Rsi argRegs\<rparr>"
    "M wd = (M w)(?pc := 0x0f, ?pc + 1 := 0x05)" by simp_all
  from l1 [OF g1] have E: "out = R wf" "M wg = M wf" by simp_all
  from pb A B have "k_poke ops tid ?pc [M w ?pc, M w (?pc + 1)] wg = (Inr 2, wh)" by simp
  from l4 [OF this] E have F: "M wh = (M wf)(?pc := M w ?pc, ?pc + 1 := M w (?pc + 1))" by simp
  from l2 [OF sr] A F have "R w' = R w"
    "M w' = (M wf)(?pc := M w ?pc, ?pc + 1 := M w (?pc + 1))" by simp_all
  with D E ss wt show ?thesis by blast
qed

section \<open>The channel of stops\<close>

text \<open>
  The steps of a task and its surroundings: the goroutine's loop and its orders, the controller's
  reads of \<open>SignalStop\<close> and its putting back of what it read while the thread is still stopped, and
  anything the world does.
\<close>

inductive task_step :: "'w ptrace_ops \<Rightarrow> trace_task \<times> 'w \<Rightarrow> trace_task \<times> 'w \<Rightarrow> bool" for ops where
  step_wait: "\<lbrakk> t_phase t = Waiting; loop_wait ops t w = (Inr t', w') \<rbrakk> \<Longrightarrow>
     task_step ops (t, w) (t', w')"
| step_order: "\<lbrakk> t_phase t = InStop; awaitContinueOrders ops t ord w = (Inr (t', rep), w') \<rbrakk> \<Longrightarrow>
     task_step ops (t, w) (t', w')"
| step_take: "SignalStop t = Some st \<Longrightarrow> task_step ops (t, w) (popWait t, w)"
| step_put: "\<lbrakk> t_phase t \<noteq> Waiting; put_back t st = Inr t' \<rbrakk> \<Longrightarrow> task_step ops (t, w) (t', w)"
| step_world: "task_step ops (t, w) (t, w')"

inductive_cases task_stepE: "task_step ops (t, w) (t', w')"

definition task_init :: "trace_task \<times> 'w \<Rightarrow> bool" where
  "task_init c \<longleftrightarrow> t_phase (fst c) = Waiting \<and> SignalStop (fst c) = None \<and> t_errors (fst c) = []"

definition task_inv :: "trace_task \<times> 'w \<Rightarrow> bool" where
  "task_inv c \<longleftrightarrow>
     (t_phase (fst c) = Waiting \<longrightarrow> SignalStop (fst c) = None) \<and>
     (t_phase (fst c) \<noteq> Ended \<longrightarrow> t_errors (fst c) = []) \<and> length (t_errors (fst c)) \<le> 1"

lemmas task_defs = end_task_def popWait_def send_stop_def put_back_def

lemma end_task_inv: "\<lbrakk> t_errors t = []; length es \<le> 1 \<rbrakk> \<Longrightarrow> task_inv (end_task t es, w)"
  by (simp add: task_inv_def end_task_def)

lemma syscall_stop_inv:
  assumes "syscall_stop ops t w = (Inr t', w')" and "task_inv (t, w0)" and "t_phase t = Waiting"
  shows "task_inv (t', w')"
proof -
  have "t_errors t = []" "SignalStop t = None" using assms(2,3) by (simp_all add: task_inv_def)
  then have ends: "\<And>e u. task_inv (end_task t [e], u)" and
    flip: "\<And>u. task_inv (t\<lparr>enteringSyscall := \<not> enteringSyscall t\<rparr>, u)"
    by (simp_all add: end_task_inv) (simp add: task_inv_def)
  show ?thesis
    using assms(1) ends flip
    by (auto simp: syscall_stop_def bindS_Inr_iff tryS_Inr_iff split: if_splits)
qed

lemma loop_wait_inv:
  assumes "loop_wait ops t w = (Inr t', w')" and "task_inv (t, w0)" and "t_phase t = Waiting"
  shows "task_inv (t', w')"
proof -
  have t: "t_errors t = []" "SignalStop t = None" using assms(2,3) by (simp_all add: task_inv_def)
  have "t' = end_task t [] \<or> (\<exists>e. t' = end_task t [e]) \<or> (\<exists>st. send_stop t st = Inr t') \<or>
      (\<exists>u. syscall_stop ops t u = (Inr t', w'))"
    using assms(1) by (auto simp: loop_wait_def split: prod.splits option.splits fault.splits if_splits)
  then show ?thesis
  proof (elim disjE exE)
    fix st
    assume "send_stop t st = Inr t'"
    with t show ?thesis by (auto simp: send_stop_def task_inv_def)
  next
    fix u
    assume "syscall_stop ops t u = (Inr t', w')"
    then show ?thesis using assms(2,3) by (rule syscall_stop_inv)
  qed (simp_all add: t end_task_inv)
qed

lemma orders_inv:
  assumes "awaitContinueOrders ops t ord w = (Inr (t', rep), w')" and "task_inv (t, w0)"
    and "t_phase t = InStop"
  shows "task_inv (t', w')"
  using assms
  by (cases ord) (auto simp: bindS_Inr_iff tryS_Inr_iff task_inv_def task_defs Let_def)

interpretation task: guarded_system task_init "task_step ops" task_inv for ops
proof unfold_locales
  show "\<And>s. task_init s \<Longrightarrow> task_inv s" by (simp add: task_init_def task_inv_def)
next
  fix s t :: "trace_task \<times> 'a"
  assume "task_inv s" and "task_step ops s t"
  from \<open>task_step ops s t\<close> \<open>task_inv s\<close> show "task_inv t"
  proof (cases rule: task_step.cases)
    case (step_wait t w t' w')
    with \<open>task_inv s\<close> show ?thesis by (simp add: loop_wait_inv)
  next
    case (step_order t ord w t' rep w')
    with \<open>task_inv s\<close> show ?thesis by (simp add: orders_inv)
  qed (auto simp: task_inv_def task_defs split: option.splits)
qed

section \<open>A concrete thread\<close>

text \<open>
  A thread with one set of registers and a memory, and the statuses that waiting for it will
  deliver: the concrete system calls of the witnesses. A single step at the instruction \<open>0f 05\<close> is a
  system call that returns 7.
\<close>

record tracee =
  tr_regs :: ptrace_regs
  tr_mem :: "u64 \<Rightarrow> u8"
  tr_stops :: "u32 list"

definition tracee_ops :: "tracee ptrace_ops" where
  "tracee_ops = \<lparr>
     k_ptrace = (\<lambda>_ _ _ _ w. (0, w)),
     k_getregs = (\<lambda>_ w. (Inr (tr_regs w), w)),
     k_setregs = (\<lambda>_ r w. (Inr (), w\<lparr>tr_regs := r\<rparr>)),
     k_peek = (\<lambda>_ a n w. (Inr (map (\<lambda>i. tr_mem w (a + of_nat i)) [0..<n]), w)),
     k_poke = (\<lambda>_ a bs w. (Inr (length bs),
       w\<lparr>tr_mem := fold (\<lambda>i m. m(a + of_nat i := bs ! i)) [0..<length bs] (tr_mem w)\<rparr>)),
     k_singlestep = (\<lambda>_ w. (Inr (),
       if tr_mem w (Rip (tr_regs w)) = 0x0f
       then w\<lparr>tr_regs := (tr_regs w)\<lparr>Rax := 7, Rip := Rip (tr_regs w) + 2\<rparr>\<rparr> else w)),
     k_cont = (\<lambda>_ sig w. (if sig < 0 then Inl (Returned (Ext ''input/output error'')) else Inr (), w)),
     k_syscall = (\<lambda>_ sig w. (if sig < 0 then Inl (Returned (Ext ''input/output error'')) else Inr (), w)),
     k_detach = (\<lambda>_ w. (Inr (), w)),
     k_wait4 = (\<lambda>_ w. (case tr_stops w of [] \<Rightarrow> (Inl Blocked, w)
                       | st # sts \<Rightarrow> (Inr st, w\<lparr>tr_stops := sts\<rparr>))),
     k_tgkill = (\<lambda>_ _ _ w. (Inr (), w)),
     k_name = (\<lambda>n. if n = 1 then Inr ''write'' else Inl (Ext ''no such syscall'')),
     k_copy = (\<lambda>_ w. (Inr (), w))\<rparr>"

definition ex_regs :: ptrace_regs where
  "ex_regs = \<lparr>Rax = 1, Rdi = 2, Rsi = 3, Rip = 100, Orig_rax = 1, other_regs = []\<rparr>"

definition ex_tracee :: tracee where
  "ex_tracee = \<lparr>tr_regs = ex_regs, tr_mem = (\<lambda>_. 0x90), tr_stops = [0x057F]\<rparr>"

lemma tracee_faithful: "ptrace_faithful tracee_ops tid tr_regs tr_mem"
  by (auto simp: ptrace_faithful_def tracee_ops_def upt_rec [of "Suc 0"] upt_rec [of 0] numeral_2_eq_2)

lemma runSyscall_example:
  "runSyscall tracee_ops 1 (ex_regs\<lparr>Rax := 11\<rparr>) ex_tracee =
     (Inr (ex_regs\<lparr>Rax := 7, Rdi := 2, Rsi := 3, Rip := 102\<rparr>), ex_tracee\<lparr>tr_stops := []\<rparr>)"
  by (simp add: runSyscall_def expect2_def wrapS_def bindS_def tracee_ops_def ex_tracee_def ex_regs_def
      upt_rec [of "Suc 0"] upt_rec [of 0] numeral_2_eq_2 fun_eq_iff)

section \<open>Properties\<close>

text \<open>
  C28: \<open>runSyscall\<close> leaves no trace of itself: when it returns registers, the thread has exactly the
  registers it had before, the two bytes of code at its program counter are back, every other byte is
  what the executed instruction left, and what was executed was one \<open>syscall\<close> instruction at the old
  program counter with the requested number and two arguments and all other registers unchanged; the
  returned registers are those right after it.
\<close>

theorem runSyscall_restores_thread:
  assumes "ptrace_faithful ops tid R M" and "runSyscall ops tid argRegs w = (Inr out, w')"
  shows "R w' = R w \<and>
    M w' (Rip (R w)) = M w (Rip (R w)) \<and> M w' (Rip (R w) + 1) = M w (Rip (R w) + 1) \<and>
    (\<exists>w1 w2 w3.
       R w1 = (R w)\<lparr>Rax := Rax argRegs, Rdi := Rdi argRegs, Rsi := Rsi argRegs\<rparr> \<and>
       M w1 (Rip (R w)) = 0x0f \<and> M w1 (Rip (R w) + 1) = 0x05 \<and>
       k_singlestep ops tid w1 = (Inr (), w2) \<and> (\<exists>st. k_wait4 ops tid w2 = (Inr st, w3)) \<and>
       out = R w3 \<and>
       (\<forall>a. a \<notin> {Rip (R w), Rip (R w) + 1} \<longrightarrow> M w' a = M w3 a))"
proof -
  from runSyscall_Inr [OF assms] obtain w1 w2 w3 st where
    "R w' = R w"
    "R w1 = (R w)\<lparr>Rax := Rax argRegs, Rdi := Rdi argRegs, Rsi := Rsi argRegs\<rparr>"
    "M w1 = (M w)(Rip (R w) := 0x0f, Rip (R w) + 1 := 0x05)"
    "k_singlestep ops tid w1 = (Inr (), w2)" "k_wait4 ops tid w2 = (Inr st, w3)" "out = R w3"
    "M w' = (M w3)(Rip (R w) := M w (Rip (R w)), Rip (R w) + 1 := M w (Rip (R w) + 1))"
    by blast
  then show ?thesis by auto
qed

theorem runSyscall_restores_thread_witness:
  "runSyscall tracee_ops 1 (ex_regs\<lparr>Rax := 11\<rparr>) ex_tracee =
     (Inr (ex_regs\<lparr>Rax := 7, Rdi := 2, Rsi := 3, Rip := 102\<rparr>), ex_tracee\<lparr>tr_stops := []\<rparr>) \<and>
   tr_regs (ex_tracee\<lparr>tr_stops := []\<rparr>) = tr_regs ex_tracee"
  using runSyscall_example runSyscall_restores_thread [OF tracee_faithful runSyscall_example] by simp


definition ex_task :: trace_task where
  "ex_task = \<lparr>Tid = 1, Gid = 1, SignalStop = None, attachOptions = [], straceEnabled = False,
     writer = NewSafeWriter, enteringSyscall = True, t_phase = Waiting, t_errors = []\<rparr>"

lemma ex_task_stops:
  "loop_wait tracee_ops ex_task ex_tracee =
     (Inr (ex_task\<lparr>SignalStop := Some 0x057F, t_phase := InStop\<rparr>), ex_tracee\<lparr>tr_stops := []\<rparr>)"
proof -
  have "drop_bit 16 (0x057F :: u32) = 0" "Stopped 0x057F" "StopSignal 0x057F = 5"
    by code_simp+
  then show ?thesis
    by (simp add: loop_wait_def Wait4_def tracee_ops_def ex_tracee_def ex_task_def send_stop_def
        PTRACE_EVENT_STOP_def SIGTRAP_def)
qed


text \<open>
  An error of the wait itself ends the goroutine in silence: since a failed wait leaves a zero
  status, and a zero status counts as an exit, the branch that reports the error to the controller is
  never taken.
\<close>

theorem wait_error_is_silent:
  assumes "k_wait4 ops (Tid t) w = (Inl (Returned e), w')"
  shows "loop_wait ops t w = (Inr (t\<lparr>t_phase := Ended\<rparr>), w')"
  using assms by (simp add: loop_wait_def Wait4_def Exited_def end_task_def)

theorem wait_error_is_silent_witness:
  "loop_wait (tracee_ops\<lparr>k_wait4 := \<lambda>_ w. (Inl (Returned (Ext ''no child processes'')), w)\<rparr>) ex_task ex_tracee
     = (Inr (ex_task\<lparr>t_phase := Ended\<rparr>), ex_tracee)"
  by (rule wait_error_is_silent) simp

lemma ended_blocks:
  assumes "t_phase t = Ended"
  shows "send_order ops n t ord w = (Inl Blocked, w)"
  using assms by (cases n) (simp_all add: send_order_def bindS_def)

text \<open>
  When continuing the thread fails, the goroutine reports the error to its reporter and returns
  without answering, and whoever sends it another order waits for ever; the sender of the continue
  order itself gets no answer.
\<close>

theorem failed_continue_gets_no_answer:
  assumes "continueTrace ops (popWait t) signal w = (Inl (Returned e), w')"
  shows "\<exists>t'. awaitContinueOrders ops t (Continue signal) w = (Inr (t', NoReply), w') \<and>
     t_phase t' = Ended \<and>
     t_errors t' = t_errors t @ [Wrapf ''could not continue after syscall stop'' e] \<and>
     (\<forall>n ord u. send_order ops n t' ord u = (Inl Blocked, u))"
proof -
  let ?t = "end_task (popWait t) [Wrapf ''could not continue after syscall stop'' e]"
  have "awaitContinueOrders ops t (Continue signal) w = (Inr (?t, NoReply), w')"
    using assms by (simp add: bindS_def tryS_def Let_def)
  then show ?thesis
    by (intro exI [of _ ?t]) (simp add: end_task_def popWait_def ended_blocks)
qed

theorem failed_continue_gets_no_answer_witness:
  "\<exists>t'. awaitContinueOrders tracee_ops ex_task (Continue (- 1)) ex_tracee = (Inr (t', NoReply), ex_tracee) \<and>
     t_phase t' = Ended"
proof -
  have "continueTrace tracee_ops (popWait ex_task) (- 1) ex_tracee =
      (Inl (Returned (Ext ''input/output error'')), ex_tracee)"
    by (simp add: continueTrace_def tracee_ops_def)
  from failed_continue_gets_no_answer [OF this] show ?thesis by blast
qed

end
