(* ===== verification/Proc_State.thy ===== *)
theory Proc_State
  imports Page_Restore Trace_Task
begin

text \<open>
  \<open>state/state.go\<close>, \<open>state/rlimit.go\<close> and \<open>state/filedescriptor.go\<close>: a checkpoint of a process (its
  registers per thread, memory map, file descriptors and limits), and the operations that compare the
  process with it and bring it back. A \<open>map\<close> of the code is an association list in the order in which
  \<open>range\<close> visits it; Go leaves that order open, and nothing here assumes one.
\<close>

section \<open>The process and its threads\<close>

text \<open>
  The process as the operating system shows it in a world \<open>'w\<close>: its \<open>/proc\<close> files, the directories of
  descriptors, its limits. \<open>p_set_mem\<close> is the world after writes to the memory of the process.
\<close>

record 'w proc_ops = "'w ptrace_ops" +
  p_proc :: "int \<Rightarrow> 'w \<Rightarrow> proc"
  p_set_mem :: "int \<Rightarrow> (int \<Rightarrow> byte option) \<Rightarrow> 'w \<Rightarrow> 'w"
  p_fd_names :: "int \<Rightarrow> 'w \<Rightarrow> error + (error + string list)"
  p_fdinfo_names :: "int \<Rightarrow> 'w \<Rightarrow> error + (error + string list)"
  p_fd_link :: "int \<Rightarrow> string \<Rightarrow> 'w \<Rightarrow> error + string"
  p_fd_info :: "int \<Rightarrow> string \<Rightarrow> 'w \<Rightarrow> error + string"
  p_prlimit :: "int \<Rightarrow> int \<Rightarrow> 'w \<Rightarrow> nat \<times> (u64 \<times> u64)"
  p_clear_refs :: "int \<Rightarrow> ('w, unit) io"
  p_open_clear_refs :: "int \<Rightarrow> 'w \<Rightarrow> error option"
  p_task_dir :: "int \<Rightarrow> 'w \<Rightarrow> error + string list"
  p_pagesize :: int
  p_fuel :: nat

text \<open>
  The tasks are objects on the heap that the controller and its checkpoints share: here the map from
  thread ids to tasks, next to the world.
\<close>

record 'w system =
  task_of :: "int \<Rightarrow> trace_task option"
  world :: 'w

definition nil_pointer :: fault where
  "nil_pointer = Panicked ''invalid memory address or nil pointer dereference''"

definition in_world :: "('w, 'a) io \<Rightarrow> ('w system, 'a) io" where
  "in_world m s = (case m (world s) of (r, w') \<Rightarrow> (r, s\<lparr>world := w'\<rparr>))"

text \<open>Run an operation of one task, and keep the task it leaves.\<close>

definition on_task :: "int \<Rightarrow> (trace_task \<Rightarrow> ('w, trace_task \<times> 'a) io) \<Rightarrow> ('w system, 'a) io" where
  "on_task tid f s =
     (case task_of s tid of
        None \<Rightarrow> (Inl nil_pointer, s)
      | Some t \<Rightarrow>
          (case f t (world s) of
             (Inl e, w') \<Rightarrow> (Inl e, s\<lparr>world := w'\<rparr>)
           | (Inr (t', x), w') \<Rightarrow> (Inr x, s\<lparr>task_of := (task_of s)(tid := Some t'), world := w'\<rparr>)))"

text \<open>
  \<open>task.InStopFunction <- f\<close>: the goroutine of the task runs \<open>f\<close> when the thread is stopped; what \<open>f\<close>
  sends on the caller's channels is its value.
\<close>

definition in_stop :: "('w, 'z) proc_ops_scheme \<Rightarrow> int \<Rightarrow> (trace_task \<Rightarrow> ('w, trace_task \<times> 'a) io) \<Rightarrow> ('w system, 'a) io" where
  "in_stop ops tid f =
     on_task tid (\<lambda>t. bindS (await_orders (ptrace_ops.truncate ops) (p_fuel ops) t) f)"

section \<open>Checkpoints\<close>

record file_descriptor =
  fd_name :: string
  fd_link :: string
  fdInfo :: string

record state =
  s_pid :: int
  registers :: "(int \<times> ptrace_regs) list"
  memoryLocations :: "memory list"
  fileDescriptors :: "file_descriptor list"
  rlimits :: "(int \<times> (u64 \<times> u64)) list"

definition resourceList :: "int list" where
  "resourceList = [9, 2, 3]"

definition prlimit :: "('w, 'z) proc_ops_scheme \<Rightarrow> int \<Rightarrow> int \<Rightarrow> 'w \<Rightarrow> (u64 \<times> u64) res" where
  "prlimit ops pid resource w =
     (case p_prlimit ops pid resource w of
        (errNo, lim) \<Rightarrow> if errNo \<noteq> 0 then Inl (Returned (Ext (''errno '' @ digits_of 10 errNo))) else Inr lim)"

fun rlimits_loop :: "('w, 'z) proc_ops_scheme \<Rightarrow> int \<Rightarrow> int list \<Rightarrow> 'w \<Rightarrow> (int \<times> (u64 \<times> u64)) list res" where
  "rlimits_loop ops pid [] w = Inr []"
| "rlimits_loop ops pid (resource # rs) w =
     bind_res (wrap_res ''could not get rlimit'' (prlimit ops pid resource w)) (\<lambda>rlimit.
     bind_res (rlimits_loop ops pid rs w) (\<lambda>ls. Inr ((resource, rlimit) # ls)))"

definition newRlimits :: "('w, 'z) proc_ops_scheme \<Rightarrow> int \<Rightarrow> 'w \<Rightarrow> (int \<times> (u64 \<times> u64)) list res" where
  "newRlimits ops pid w = rlimits_loop ops pid resourceList w"

text \<open>\<open>os.Open\<close> of a directory and \<open>Readdirnames\<close> of it each may fail.\<close>

definition from_ext :: "string \<Rightarrow> error + 'a \<Rightarrow> 'a res" where
  "from_ext msg r = (case r of Inl e \<Rightarrow> Inl (Returned (Wrapf msg e)) | Inr x \<Rightarrow> Inr x)"

fun fd_loop :: "('w, 'z) proc_ops_scheme \<Rightarrow> int \<Rightarrow> (string \<times> string) list \<Rightarrow> 'w \<Rightarrow> file_descriptor list res" where
  "fd_loop ops pid [] w = Inr []"
| "fd_loop ops pid ((fdFile, fdInfoFile) # xs) w =
     (if fdFile \<noteq> fdInfoFile then Inl (Returned (Errorf ''fd file names do not match''))
      else
        bind_res (from_ext ''could not read fd link'' (p_fd_link ops pid fdFile w)) (\<lambda>link.
        bind_res (from_ext ''could not open fdinfo file'' (p_fd_info ops pid fdFile w)) (\<lambda>info.
        bind_res (fd_loop ops pid xs w) (\<lambda>fds.
        Inr (\<lparr>fd_name = fdFile, fd_link = link, fdInfo = info\<rparr> # fds)))))"

definition newFileDescriptors :: "('w, 'z) proc_ops_scheme \<Rightarrow> int \<Rightarrow> 'w \<Rightarrow> file_descriptor list res" where
  "newFileDescriptors ops pid w =
     bind_res (from_ext ''could not open fd directory'' (p_fd_names ops pid w)) (\<lambda>fdDir.
     bind_res (from_ext ''could not open fd info directory'' (p_fdinfo_names ops pid w)) (\<lambda>fdInfoDir.
     bind_res (from_ext ''could not read fd directory'' fdDir) (\<lambda>fdFiles.
     bind_res (from_ext ''could not read fd info directory'' fdInfoDir) (\<lambda>fdInfoFiles.
     if length fdFiles \<noteq> length fdInfoFiles
     then Inl (Returned (Errorf ''not the same amount of fd and fdinfos''))
     else fd_loop ops pid (zip fdFiles fdInfoFiles) w))))"

definition FdsChanged :: "('w, 'z) proc_ops_scheme \<Rightarrow> state \<Rightarrow> 'w \<Rightarrow> bool res" where
  "FdsChanged ops s w =
     bind_res (wrap_res ''could not get new descriptors on change check''
                 (newFileDescriptors ops (s_pid s) w)) (\<lambda>newDescriptors.
     Inr (length newDescriptors \<noteq> length (fileDescriptors s)))"

definition GetFileDescriptors :: "state \<Rightarrow> file_descriptor list" where
  "GetFileDescriptors s = fileDescriptors s"

definition GetRlimits :: "state \<Rightarrow> (int \<times> (u64 \<times> u64)) list" where
  "GetRlimits s = rlimits s"

text \<open>
  The function \<open>NewState\<close> gives to each task. The caller only reads the unbuffered channel \<open>errors\<close>
  after every function has finished, so a function that sends an error there never finishes.
\<close>

definition get_regs_in_stop :: "('w, 'z) proc_ops_scheme \<Rightarrow> trace_task \<Rightarrow> ('w, trace_task \<times> (int \<times> ptrace_regs)) io" where
  "get_regs_in_stop ops t =
     bindS (tryS (k_getregs ops (Tid t))) (\<lambda>r.
     case r of Inl err \<Rightarrow> faultS Blocked | Inr regs \<Rightarrow> retS (t, (Tid t, regs)))"

definition NewState :: "('w, 'z) proc_ops_scheme \<Rightarrow> int \<Rightarrow> int list \<Rightarrow> ('w system, state) io" where
  "NewState ops pid tids =
     bindS (mapS (\<lambda>tid. in_stop ops tid (get_regs_in_stop ops)) tids) (\<lambda>results.
     (\<lambda>s.
       (bind_res (wrap_res ''could not get memory locations'' (newMemoryLocations (p_proc ops pid (world s)))) (\<lambda>ms.
        bind_res (wrap_res ''could not create file descriptor state'' (newFileDescriptors ops pid (world s))) (\<lambda>fds.
        bind_res (wrap_res ''could not create rlimit state'' (newRlimits ops pid (world s))) (\<lambda>ls.
        Inr \<lparr>s_pid = pid, registers = results, memoryLocations = ms,
             fileDescriptors = fds, rlimits = ls\<rparr>))), s)))"

definition set_regs_in_stop :: "('w, 'z) proc_ops_scheme \<Rightarrow> ptrace_regs \<Rightarrow> trace_task \<Rightarrow> ('w, trace_task \<times> unit) io" where
  "set_regs_in_stop ops regs t =
     bindS (tryS (k_setregs ops (Tid t) regs)) (\<lambda>r.
     case r of Inl err \<Rightarrow> faultS Blocked | Inr _ \<Rightarrow> retS (t, ()))"

definition RestoreRegs :: "('w, 'z) proc_ops_scheme \<Rightarrow> state \<Rightarrow> ('w system, unit) io" where
  "RestoreRegs ops s = eachS (\<lambda>(tid, regs). in_stop ops tid (set_regs_in_stop ops regs)) (registers s)"

definition PC :: "state \<Rightarrow> u64 res" where
  "PC s = (case map_of (registers s) (s_pid s) of None \<Rightarrow> Inl nil_pointer | Some regs \<Rightarrow> Inr (Rip regs))"

text \<open>The first key the range visits; a missing task is a nil pointer when it is used.\<close>

definition chooseAnyRegState :: "state \<Rightarrow> int res" where
  "chooseAnyRegState s = (case registers s of [] \<Rightarrow> Inl nil_pointer | (tid, _) # _ \<Rightarrow> Inr tid)"

section \<open>System calls in the process\<close>

definition zero_regs :: ptrace_regs where
  "zero_regs = \<lparr>Rax = 0, Rdi = 0, Rsi = 0, Rip = 0, Orig_rax = 0, other_regs = []\<rparr>"

definition state_runSyscall :: "('w, 'z) proc_ops_scheme \<Rightarrow> state \<Rightarrow> u64 \<Rightarrow> u64 \<Rightarrow> u64 \<Rightarrow> ('w system, u64) io" where
  "state_runSyscall ops s syscallNum arg1 arg2 =
     bindS (liftS (chooseAnyRegState s)) (\<lambda>tid.
     bindS (on_task tid (\<lambda>t. send_order (ptrace_ops.truncate ops) (p_fuel ops) t
              (RunSyscall (zero_regs\<lparr>Rax := syscallNum, Rdi := arg1, Rsi := arg2\<rparr>)))) (\<lambda>reply.
     case reply of
       SyscallReturn returnRegs \<Rightarrow> retS (Rax returnRegs)
     | SyscallError err \<Rightarrow> faultS (Returned err)
     | _ \<Rightarrow> faultS Blocked))"

definition RestoreProgramBreak :: "('w, 'z) proc_ops_scheme \<Rightarrow> state \<Rightarrow> ('w system, unit) io" where
  "RestoreProgramBreak ops s =
     bindS (liftS (getMemory (memoryLocations s) ''[heap]'')) (\<lambda>beforeHeap.
     bindS (state_runSyscall ops s 12 (of_int (endOffset beforeHeap)) 0) (\<lambda>afterOffset.
     if of_int (endOffset beforeHeap) \<noteq> afterOffset
     then errS ''could not return program break to previous value'' else retS ()))"

text \<open>
  The function of \<open>FixupSyscallState\<close> sends the outcome of each call on an unbuffered channel of which
  its caller reads one value: after an error it blocks on its next send, and the task is lost.
\<close>

definition fixup_function ::
  "('w, 'z) proc_ops_scheme \<Rightarrow> trace_task \<Rightarrow> ('w, trace_task \<times> error option) io" where
  "fixup_function ops t =
     bindS (tryS (k_syscall ops (Tid t) 0)) (\<lambda>r1.
     case r1 of
       Inl err \<Rightarrow> (\<lambda>w. (Inr (t\<lparr>t_phase := Hung\<rparr>, Some err), snd (k_wait4 ops (Tid t) w)))
     | Inr _ \<Rightarrow>
         bindS (tryS (k_wait4 ops (Tid t))) (\<lambda>r2.
         retS (case r2 of Inl err \<Rightarrow> (t\<lparr>t_phase := Hung\<rparr>, Some err) | Inr _ \<Rightarrow> (t, None))))"

definition FixupSyscallState :: "('w, 'z) proc_ops_scheme \<Rightarrow> state \<Rightarrow> ('w system, unit) io" where
  "FixupSyscallState ops s =
     bindS (liftS (chooseAnyRegState s)) (\<lambda>tid.
     bindS (in_stop ops tid (fixup_function ops)) (\<lambda>received.
     case received of None \<Rightarrow> retS () | Some err \<Rightarrow> faultS (Returned err)))"

definition calculateNewLocations :: "memory list \<Rightarrow> memory list \<Rightarrow> memory list" where
  "calculateNewLocations oldState newState =
     filter (\<lambda>newLoc. \<not> list_ex (\<lambda>oldLoc. m_name newLoc = m_name oldLoc \<and>
                                         startOffset newLoc = startOffset oldLoc) oldState) newState"

definition unmap_location :: "('w, 'z) proc_ops_scheme \<Rightarrow> state \<Rightarrow> memory \<Rightarrow> ('w system, unit) io" where
  "unmap_location ops s loc =
     bindS (wrapS ''could not unmap new location''
       (state_runSyscall ops s 11 (of_int (startOffset loc)) (of_int (endOffset loc - startOffset loc)))) (\<lambda>returnVal.
     if returnVal \<noteq> 0 then errS ''could not unmap new location'' else retS ())"

definition UnmapNewLocations :: "('w, 'z) proc_ops_scheme \<Rightarrow> state \<Rightarrow> ('w system, unit) io" where
  "UnmapNewLocations ops s =
     bindS (\<lambda>sys. (wrap_res ''could not get new memory on memory changed check''
                      (newMemoryLocations (p_proc ops (s_pid s) (world sys))), sys)) (\<lambda>currentMemory.
     eachS (unmap_location ops s) (calculateNewLocations (memoryLocations s) currentMemory))"

section \<open>Tasks at a stop\<close>

text \<open>
  The task of a thread exists and its goroutine is not waiting for the thread: it serves orders, or it
  is gone and whoever sends it an order waits for ever.
\<close>

definition parked :: "'w system \<Rightarrow> int \<Rightarrow> bool" where
  "parked s tid \<longleftrightarrow> (\<exists>t. task_of s tid = Some t \<and> Tid t = tid \<and> t_phase t \<noteq> Waiting)"

lemma await_orders_in_stop:
  "\<lbrakk> t_phase t = InStop; 0 < n \<rbrakk> \<Longrightarrow> await_orders ops n t = retS t"
  by (cases n) simp_all

lemma await_orders_parked:
  "\<lbrakk> await_orders ops n t w = (Inr t', w'); t_phase t \<noteq> Waiting \<rbrakk> \<Longrightarrow> t' = t \<and> w' = w \<and> t_phase t = InStop"
  by (cases n; cases "t_phase t") simp_all

lemma on_task_Inr:
  assumes "on_task tid f s = (Inr x, s')"
  obtains t t' where "task_of s tid = Some t" and "f t (world s) = (Inr (t', x), world s')"
    and "s' = s\<lparr>task_of := (task_of s)(tid := Some t'), world := world s'\<rparr>"
  using assms by (auto simp: on_task_def split: option.splits prod.splits sum.splits)

lemma in_stop_parked_Inr:
  assumes "parked s tid" and "in_stop ops tid f s = (Inr x, s')"
  obtains t t' where "task_of s tid = Some t" and "Tid t = tid" and "t_phase t = InStop"
    and "f t (world s) = (Inr (t', x), world s')"
    and "s' = s\<lparr>task_of := (task_of s)(tid := Some t'), world := world s'\<rparr>"
proof -
  from assms(2) [unfolded in_stop_def] obtain t t' where t: "task_of s tid = Some t"
    and run: "bindS (await_orders (ptrace_ops.truncate ops) (p_fuel ops) t) f (world s) = (Inr (t', x), world s')"
    and s': "s' = s\<lparr>task_of := (task_of s)(tid := Some t'), world := world s'\<rparr>"
    by (rule on_task_Inr)
  from assms(1) t have tid: "Tid t = tid" "t_phase t \<noteq> Waiting" by (auto simp: parked_def)
  from run obtain u w where "await_orders (ptrace_ops.truncate ops) (p_fuel ops) t (world s) = (Inr u, w)"
    "f u w = (Inr (t', x), world s')" by (auto simp: bindS_Inr_iff)
  with await_orders_parked [OF this(1) tid(2)] t tid s' that show thesis by auto
qed

lemma set_regs_Inr:
  "set_regs_in_stop ops regs t w = (Inr (t', ()), w') \<longleftrightarrow> k_setregs ops (Tid t) regs w = (Inr (), w') \<and> t' = t"
  by (auto simp: set_regs_in_stop_def bindS_Inr_iff tryS_Inr_iff)

lemma get_regs_Inr:
  "get_regs_in_stop ops t w = (Inr (t', x), w') \<longleftrightarrow>
     (\<exists>r. k_getregs ops (Tid t) w = (Inr r, w') \<and> t' = t \<and> x = (Tid t, r))"
  by (auto simp: get_regs_in_stop_def bindS_Inr_iff tryS_Inr_iff)

lemma same_task_of:
  "\<lbrakk> task_of s tid = Some t; s' = s\<lparr>task_of := (task_of s)(tid := Some t), world := w\<rparr> \<rbrakk> \<Longrightarrow>
     task_of s' = task_of s"
  by (auto simp: fun_eq_iff)

lemma set_regs_parked:
  assumes "parked s tid"
    and "in_stop ops tid (set_regs_in_stop ops regs) s = (Inr (), s')"
  shows "k_setregs ops tid regs (world s) = (Inr (), world s')" and "task_of s' = task_of s"
  using in_stop_parked_Inr [OF assms] same_task_of by (metis set_regs_Inr)+

lemma get_regs_parked:
  assumes "parked s tid"
    and "in_stop ops tid (get_regs_in_stop ops) s = (Inr x, s')"
  shows "\<exists>r. x = (tid, r) \<and> k_getregs ops tid (world s) = (Inr r, world s')" and "task_of s' = task_of s"
  using in_stop_parked_Inr [OF assms] same_task_of by (metis get_regs_Inr)+

text \<open>
  The registers of all threads, and what \<open>ptrace(2)\<close> documents of reading and writing those of one
  thread. Reading a thread's registers changes no registers.
\<close>

definition regs_faithful :: "('w, 'z) proc_ops_scheme \<Rightarrow> ('w \<Rightarrow> int \<Rightarrow> ptrace_regs) \<Rightarrow> bool" where
  "regs_faithful ops R \<longleftrightarrow>
     (\<forall>tid w r w'. k_getregs ops tid w = (Inr r, w') \<longrightarrow> r = R w tid \<and> R w' = R w) \<and>
     (\<forall>tid r w w'. k_setregs ops tid r w = (Inr (), w') \<longrightarrow> R w' = (R w)(tid := r))"

lemma RestoreRegs_sets:
  assumes law: "regs_faithful ops R"
    and park: "\<forall>tid \<in> fst ` set rs. parked s tid" and dist: "distinct (map fst rs)"
    and run: "eachS (\<lambda>(tid, regs). in_stop ops tid (set_regs_in_stop ops regs)) rs s = (Inr (), s')"
  shows "R (world s') = (\<lambda>tid. case map_of rs tid of Some r \<Rightarrow> r | None \<Rightarrow> R (world s) tid) \<and>
     task_of s' = task_of s"
  using park dist run
proof (induction rs arbitrary: s)
  case Nil
  then show ?case by simp
next
  case (Cons x rs)
  obtain tid r where x: "x = (tid, r)" by fastforce
  from Cons.prems(3) x obtain s1 where
    one: "in_stop ops tid (set_regs_in_stop ops r) s = (Inr (), s1)" and
    rest: "eachS (\<lambda>(tid, regs). in_stop ops tid (set_regs_in_stop ops regs)) rs s1 = (Inr (), s')"
    by (auto simp: bindS_Inr_iff)
  have p: "parked s tid" using Cons.prems(1) x by simp
  note set1 = set_regs_parked [OF p one]
  have R1: "R (world s1) = (R (world s))(tid := r)"
    using law set1(1) by (simp add: regs_faithful_def)
  have "\<forall>tid \<in> fst ` set rs. parked s1 tid"
    using Cons.prems(1) set1(2) by (simp add: parked_def)
  from Cons.IH [OF this _ rest] Cons.prems(2) x
  have ih: "R (world s') = (\<lambda>t. case map_of rs t of Some q \<Rightarrow> q | None \<Rightarrow> R (world s1) t)"
    "task_of s' = task_of s1" by simp_all
  have "tid \<notin> fst ` set rs" using Cons.prems(2) x by simp
  then have none: "map_of rs tid = None" by (simp add: map_of_eq_None_iff)
  have "R (world s') = (\<lambda>t. case map_of (x # rs) t of Some q \<Rightarrow> q | None \<Rightarrow> R (world s) t)"
  proof (rule ext)
    fix t
    show "R (world s') t = (case map_of (x # rs) t of Some q \<Rightarrow> q | None \<Rightarrow> R (world s) t)"
      using ih(1) R1 x none by (cases "t = tid") (simp_all split: option.splits)
  qed
  with ih(2) set1(2) show ?case by simp
qed

lemma NewState_registers:
  assumes law: "regs_faithful ops R"
    and park: "\<forall>tid \<in> set tids. parked s tid"
    and run: "mapS (\<lambda>tid. in_stop ops tid (get_regs_in_stop ops)) tids s = (Inr rs, s')"
  shows "rs = map (\<lambda>tid. (tid, R (world s) tid)) tids \<and> R (world s') = R (world s) \<and> task_of s' = task_of s"
  using park run
proof (induction tids arbitrary: s rs)
  case Nil
  then show ?case by simp
next
  case (Cons tid tids)
  from Cons.prems(2) obtain x s1 rs' where
    one: "in_stop ops tid (get_regs_in_stop ops) s = (Inr x, s1)" and
    rest: "mapS (\<lambda>tid. in_stop ops tid (get_regs_in_stop ops)) tids s1 = (Inr rs', s')" and
    rs: "rs = x # rs'"
    by (auto simp: bindS_Inr_iff)
  have p: "parked s tid" using Cons.prems(1) by simp
  note get1 = get_regs_parked [OF p one]
  from get1(1) obtain r where r: "x = (tid, r)" "k_getregs ops tid (world s) = (Inr r, world s1)" by blast
  with law have R1: "r = R (world s) tid" "R (world s1) = R (world s)"
    by (simp_all add: regs_faithful_def)
  have "\<forall>tid \<in> set tids. parked s1 tid" using Cons.prems(1) get1(2) by (simp add: parked_def)
  from Cons.IH [OF this rest] R1 rs r get1(2) show ?case by simp
qed

section \<open>A concrete process\<close>

text \<open>
  A process with the registers of its threads, a page of code and the files of \<open>/proc\<close>: the concrete
  parameters of the witnesses. Every wait delivers a group stop, a single step at the instruction
  \<open>0f 05\<close> is a system call that returns its first argument for \<open>brk\<close> and 0 otherwise, and continuing
  a thread overwrites one byte of the heap and its registers.
\<close>

record machine =
  mc_regs :: "int \<Rightarrow> ptrace_regs"
  mc_text :: "u64 \<Rightarrow> u8"
  mc_proc :: proc

definition machine_step :: "int \<Rightarrow> machine \<Rightarrow> machine" where
  "machine_step tid w =
     (let r = mc_regs w tid in
      if mc_text w (Rip r) = 0x0f
      then w\<lparr>mc_regs := (mc_regs w)(tid := r\<lparr>Rax := (if Rax r = 12 then Rdi r else 0), Rip := Rip r + 2\<rparr>)\<rparr>
      else w)"

definition machine_ops :: "machine proc_ops" where
  "machine_ops = \<lparr>
     k_ptrace = (\<lambda>_ _ _ _ w. (0, w)),
     k_getregs = (\<lambda>tid w. (Inr (mc_regs w tid), w)),
     k_setregs = (\<lambda>tid r w. (Inr (), w\<lparr>mc_regs := (mc_regs w)(tid := r)\<rparr>)),
     k_peek = (\<lambda>_ a n w. (Inr (map (\<lambda>i. mc_text w (a + of_nat i)) [0..<n]), w)),
     k_poke = (\<lambda>_ a bs w. (Inr (length bs),
       w\<lparr>mc_text := fold (\<lambda>i m. m(a + of_nat i := bs ! i)) [0..<length bs] (mc_text w)\<rparr>)),
     k_singlestep = (\<lambda>tid w. (Inr (), machine_step tid w)),
     k_cont = (\<lambda>tid _ w. (Inr (), w\<lparr>mc_regs := (mc_regs w)(tid := (mc_regs w tid)\<lparr>Rax := 0\<rparr>),
       mc_proc := (mc_proc w)\<lparr>mem_bytes := (mem_bytes (mc_proc w))(25 := Some 0)\<rparr>\<rparr>)),
     k_syscall = (\<lambda>_ _ w. (Inr (), w)),
     k_detach = (\<lambda>_ w. (Inr (), w)),
     k_wait4 = (\<lambda>_ w. (Inr 0x137F, w)),
     k_tgkill = (\<lambda>_ _ _ w. (Inr (), w)),
     k_name = (\<lambda>n. Inr ''call''),
     k_copy = (\<lambda>_ w. (Inr (), w)),
     p_proc = (\<lambda>_ w. mc_proc w),
     p_set_mem = (\<lambda>_ f w. w\<lparr>mc_proc := (mc_proc w)\<lparr>mem_bytes := f\<rparr>\<rparr>),
     p_fd_names = (\<lambda>_ _. Inr (Inr [''0''])),
     p_fdinfo_names = (\<lambda>_ _. Inr (Inr [''0''])),
     p_fd_link = (\<lambda>_ _ _. Inr ''/dev/null''),
     p_fd_info = (\<lambda>_ _ _. Inr ''pos: 0''),
     p_prlimit = (\<lambda>_ _ _. (0, (0, 0))),
     p_clear_refs = (\<lambda>_ w. (Inr (), w)),
     p_open_clear_refs = (\<lambda>_ _. None),
     p_task_dir = (\<lambda>_ _. Inr [''1'']),
     p_pagesize = 8,
     p_fuel = 2\<rparr>"

lemma machine_regs_faithful: "regs_faithful machine_ops mc_regs"
  by (auto simp: regs_faithful_def machine_ops_def)

lemma machine_ptrace_faithful:
  "ptrace_faithful (ptrace_ops.truncate machine_ops) tid (\<lambda>w. mc_regs w tid) mc_text"
  by (auto simp: ptrace_faithful_def machine_ops_def ptrace_ops.defs upt_rec [of "Suc 0"] upt_rec [of 0]
      numeral_2_eq_2)

definition ex_machine :: machine where
  "ex_machine = \<lparr>mc_regs = (\<lambda>_. ex_regs), mc_text = (\<lambda>_. 0x90), mc_proc = ex_proc\<rparr>"

definition stopped_task :: "int \<Rightarrow> trace_task" where
  "stopped_task tid = ex_task\<lparr>Tid := tid, SignalStop := Some 0x137F, t_phase := InStop\<rparr>"

definition ex_system :: "machine system" where
  "ex_system = \<lparr>task_of = (\<lambda>tid. if tid \<in> {1, 2} then Some (stopped_task tid) else None), world = ex_machine\<rparr>"

definition ex_state :: state where
  "ex_state = \<lparr>s_pid = 1, registers = [(1, ex_regs), (2, ex_regs)], memoryLocations = [ex_location],
     fileDescriptors = [], rlimits = []\<rparr>"

lemma ex_parked: "tid \<in> {1, 2} \<Longrightarrow> parked (ex_system\<lparr>world := w\<rparr>) tid"
  by (auto simp: parked_def ex_system_def stopped_task_def ex_task_def)

lemma machine_fuel: "0 < p_fuel machine_ops"
  by (simp add: machine_ops_def)

section \<open>Properties\<close>

lemma NewState_Inr:
  assumes "NewState ops pid tids s0 = (Inr st, s1)"
  shows "mapS (\<lambda>tid. in_stop ops tid (get_regs_in_stop ops)) tids s0 = (Inr (registers st), s1)"
    and "s_pid st = pid"
    and "newMemoryLocations (p_proc ops pid (world s1)) = Inr (memoryLocations st)"
    and "newFileDescriptors ops pid (world s1) = Inr (fileDescriptors st)"
    and "newRlimits ops pid (world s1) = Inr (rlimits st)"
  using assms by (auto simp: NewState_def bindS_Inr_iff)

text \<open>
  C27: Registers go back to the checkpoint: if \<open>NewState\<close> took a checkpoint of stopped threads and,
  whatever happened in between, \<open>RestoreRegs\<close> on it returns no error while those threads are stopped
  again, then each of the threads has exactly the registers it had at the checkpoint, and no other
  thread's registers and no task changed.
\<close>

theorem RestoreRegs_restores_checkpoint:
  assumes "regs_faithful ops R" and "distinct tids"
    and "\<forall>tid \<in> set tids. parked s0 tid" and "NewState ops pid tids s0 = (Inr st, s1)"
    and "\<forall>tid \<in> set tids. parked s2 tid" and "RestoreRegs ops st s2 = (Inr (), s3)"
  shows "R (world s3) = (\<lambda>tid. if tid \<in> set tids then R (world s0) tid else R (world s2) tid) \<and>
     task_of s3 = task_of s2"
proof -
  have regs: "registers st = map (\<lambda>tid. (tid, R (world s0) tid)) tids"
    using NewState_registers [OF assms(1,3) NewState_Inr(1) [OF assms(4)]] by blast
  have keys: "map fst (registers st) = tids" by (simp add: regs comp_def)
  have park: "\<forall>tid \<in> fst ` set (registers st). parked s2 tid"
    using assms(5) keys by (metis set_map)
  have dist: "distinct (map fst (registers st))" using assms(2) keys by simp
  have "map_of (registers st) tid = (if tid \<in> set tids then Some (R (world s0) tid) else None)" for tid
    unfolding regs by (simp add: map_of_map_restrict restrict_map_def)
  then show ?thesis
    using RestoreRegs_sets [OF assms(1) park dist assms(6) [unfolded RestoreRegs_def]]
    by (auto simp: fun_eq_iff)
qed

lemma ex_newMemoryLocations: "maps_file p = Inr [] \<Longrightarrow> newMemoryLocations p = Inr []"
  by (simp add: newMemoryLocations_def scan_lines_def raw_lines_def)

lemma ex_newFileDescriptors:
  "newFileDescriptors machine_ops pid w = Inr [\<lparr>fd_name = ''0'', fd_link = ''/dev/null'', fdInfo = ''pos: 0''\<rparr>]"
  by (simp add: newFileDescriptors_def from_ext_def machine_ops_def)

lemma ex_newRlimits: "newRlimits machine_ops pid w = Inr [(9, (0, 0)), (2, (0, 0)), (3, (0, 0))]"
  by (simp add: newRlimits_def resourceList_def prlimit_def machine_ops_def)

lemma ex_getregs_in_stop:
  "tid \<in> {1, 2} \<Longrightarrow> in_stop machine_ops tid (get_regs_in_stop machine_ops) ex_system =
     (Inr (tid, ex_regs), ex_system)"
  by (auto simp: in_stop_def on_task_def ex_system_def get_regs_in_stop_def bindS_def tryS_def
      stopped_task_def ex_task_def machine_ops_def fun_eq_iff ex_machine_def numeral_2_eq_2)

definition ex_checkpoint :: state where
  "ex_checkpoint = \<lparr>s_pid = 1, registers = [(1, ex_regs), (2, ex_regs)], memoryLocations = [],
     fileDescriptors = [\<lparr>fd_name = ''0'', fd_link = ''/dev/null'', fdInfo = ''pos: 0''\<rparr>],
     rlimits = [(9, (0, 0)), (2, (0, 0)), (3, (0, 0))]\<rparr>"

lemma ex_NewState: "NewState machine_ops 1 [1, 2] ex_system = (Inr ex_checkpoint, ex_system)"
proof -
  have "newMemoryLocations (p_proc machine_ops 1 (world ex_system)) = Inr []"
    by (rule ex_newMemoryLocations) (simp add: machine_ops_def ex_system_def ex_machine_def ex_proc_def)
  then show ?thesis
    by (simp add: NewState_def bindS_def ex_getregs_in_stop ex_newFileDescriptors ex_newRlimits ex_checkpoint_def)
qed

definition zeroed_machine :: machine where
  "zeroed_machine = ex_machine\<lparr>mc_regs := \<lambda>_. zero_regs\<rparr>"

lemma ex_setregs_in_stop:
  "tid \<in> {1, 2} \<Longrightarrow> in_stop machine_ops tid (set_regs_in_stop machine_ops r) (ex_system\<lparr>world := w\<rparr>) =
     (Inr (), ex_system\<lparr>world := w\<lparr>mc_regs := (mc_regs w)(tid := r)\<rparr>\<rparr>)"
  by (auto simp: in_stop_def on_task_def ex_system_def set_regs_in_stop_def bindS_def tryS_def
      stopped_task_def ex_task_def machine_ops_def fun_eq_iff numeral_2_eq_2)

theorem RestoreRegs_restores_checkpoint_witness:
  "\<exists>s3. RestoreRegs machine_ops ex_checkpoint (ex_system\<lparr>world := zeroed_machine\<rparr>) = (Inr (), s3) \<and>
     mc_regs (world s3) 2 = ex_regs \<and> mc_regs (world s3) 3 = zero_regs \<and> ex_regs \<noteq> zero_regs"
proof -
  obtain s3 where s3: "RestoreRegs machine_ops ex_checkpoint (ex_system\<lparr>world := zeroed_machine\<rparr>) = (Inr (), s3)"
    by (simp add: RestoreRegs_def ex_checkpoint_def bindS_def ex_setregs_in_stop)
  have p0: "\<forall>tid \<in> set [1, 2]. parked ex_system tid"
    using ex_parked [of _ "world ex_system"] by simp
  have p2: "\<forall>tid \<in> set [1, 2]. parked (ex_system\<lparr>world := zeroed_machine\<rparr>) tid"
    using ex_parked by simp
  have "mc_regs (world s3) = (\<lambda>tid. if tid \<in> set [1, 2] then mc_regs (world ex_system) tid
      else mc_regs (world (ex_system\<lparr>world := zeroed_machine\<rparr>)) tid)"
    using RestoreRegs_restores_checkpoint
      [OF machine_regs_faithful _ p0 ex_NewState p2 s3] by simp
  then show ?thesis
    using s3 by (simp add: ex_system_def ex_machine_def zeroed_machine_def ex_regs_def zero_regs_def)
qed

text \<open>A computation that never returns an error to its caller.\<close>

definition quiet :: "('s, 'a) io \<Rightarrow> bool" where
  "quiet m \<longleftrightarrow> (\<forall>s e s'. m s \<noteq> (Inl (Returned e), s'))"

lemma quiet_bindS [intro]: "\<lbrakk> quiet m; \<And>x. quiet (f x) \<rbrakk> \<Longrightarrow> quiet (bindS m f)"
  unfolding quiet_def bindS_def by (clarsimp split: prod.splits sum.splits)

lemma quiet_basic [simp]: "quiet (retS x)" "quiet (faultS Blocked)" "quiet (tryS m)"
  by (auto simp: quiet_def tryS_def split: prod.splits sum.splits fault.splits)

lemma quiet_loop_wait: "quiet (loop_wait ops t)"
  by (auto simp: quiet_def loop_wait_def send_stop_def syscall_stop_def bindS_def tryS_def
      split: prod.splits option.splits fault.splits sum.splits if_splits)

lemma quiet_await_orders: "quiet (await_orders ops n t)"
  by (induction n arbitrary: t) (auto split: phase.splits intro!: quiet_bindS quiet_loop_wait)

lemma quiet_on_task: "(\<And>t. quiet (f t)) \<Longrightarrow> quiet (on_task tid f)"
  unfolding quiet_def on_task_def nil_pointer_def
  by (clarsimp split: prod.splits option.splits sum.splits)

lemma quiet_in_stop: "(\<And>t. quiet (f t)) \<Longrightarrow> quiet (in_stop ops tid f)"
  unfolding in_stop_def by (intro quiet_on_task quiet_bindS quiet_await_orders)

lemma quiet_set_regs: "quiet (set_regs_in_stop ops regs t)"
  unfolding set_regs_in_stop_def by (intro quiet_bindS) (auto split: sum.splits)

lemma quiet_eachS: "(\<And>x. quiet (f x)) \<Longrightarrow> quiet (eachS f xs)"
  by (induction xs) (auto intro!: quiet_bindS)

text \<open>
  The error branch of \<open>RestoreRegs\<close> is dead: for all system calls, checkpoints and systems it
  never returns an error. When the kernel refuses to set the registers of a thread, the function given
  to the task waits for ever on the unbuffered channel that the caller only reads afterwards, so the
  call never returns and the remaining threads keep their registers.
\<close>

theorem RestoreRegs_never_reports:
  "fst (RestoreRegs ops st s) \<noteq> Inl (Returned e)"
proof -
  have "quiet (RestoreRegs ops st)"
    unfolding RestoreRegs_def by (intro quiet_eachS) (auto intro!: quiet_in_stop quiet_set_regs)
  then show ?thesis
    by (cases "RestoreRegs ops st s") (auto simp: quiet_def)
qed

text \<open>
  The addresses of a location, and a new memory map in which every saved location is still mapped
  under its name and start, possibly longer.
\<close>

definition span :: "memory \<Rightarrow> int set" where
  "span m = {startOffset m..<endOffset m}"

definition still_mapped :: "memory list \<Rightarrow> memory list \<Rightarrow> bool" where
  "still_mapped olds news \<longleftrightarrow>
     (\<forall>old \<in> set olds. \<exists>n \<in> set news. m_name n = m_name old \<and> startOffset n = startOffset old \<and>
        endOffset old \<le> endOffset n)"

definition disjoint_map :: "memory list \<Rightarrow> bool" where
  "disjoint_map news \<longleftrightarrow>
     (\<forall>m \<in> set news. \<forall>n \<in> set news. m = n \<or> span m \<inter> span n = {})"

lemma new_location_iff:
  "m \<in> set (calculateNewLocations olds news) \<longleftrightarrow>
     m \<in> set news \<and> (\<forall>old \<in> set olds. m_name m \<noteq> m_name old \<or> startOffset m \<noteq> startOffset old)"
  by (auto simp: calculateNewLocations_def list_ex_iff)

text \<open>
  Unmapping spares what was saved: when the new memory map consists of disjoint locations and
  every saved location still starts at its place under its name and has not shrunk, no location that
  \<open>UnmapNewLocations\<close> unmaps contains an address of a saved location; and every location of the new
  map that it leaves alone starts a saved location.
\<close>

theorem calculateNewLocations_spares_saved:
  assumes "disjoint_map news" and "still_mapped olds news"
  shows "(\<forall>m \<in> set (calculateNewLocations olds news). \<forall>old \<in> set olds. span m \<inter> span old = {}) \<and>
     (\<forall>m \<in> set news - set (calculateNewLocations olds news). \<exists>old \<in> set olds.
        m_name m = m_name old \<and> startOffset m = startOffset old)"
proof (intro conjI ballI)
  fix m old
  assume m: "m \<in> set (calculateNewLocations olds news)" and old: "old \<in> set olds"
  from old assms(2) obtain n where n: "n \<in> set news" "m_name n = m_name old"
    "startOffset n = startOffset old" "endOffset old \<le> endOffset n"
    by (auto simp: still_mapped_def)
  have "m \<noteq> n" using m n(2,3) old by (auto simp: new_location_iff)
  then have "span m \<inter> span n = {}"
    using assms(1) m n(1) by (auto simp: disjoint_map_def new_location_iff)
  then show "span m \<inter> span old = {}" using n(3,4) by (auto simp: span_def)
next
  fix m
  assume "m \<in> set news - set (calculateNewLocations olds news)"
  then show "\<exists>old \<in> set olds. m_name m = m_name old \<and> startOffset m = startOffset old"
    by (auto simp: new_location_iff)
qed

definition loc :: "string \<Rightarrow> int \<Rightarrow> int \<Rightarrow> memory" where
  "loc nm lo hi = ex_location\<lparr>m_name := nm, startOffset := lo, endOffset := hi, content := []\<rparr>"

lemma loc_simps [simp]: "m_name (loc nm lo hi) = nm" "startOffset (loc nm lo hi) = lo" "endOffset (loc nm lo hi) = hi"
  by (simp_all add: loc_def)

theorem calculateNewLocations_spares_saved_witness:
  "calculateNewLocations [loc ''[heap]'' 16 32] [loc ''[heap]'' 16 40, loc ''lib'' 64 72] = [loc ''lib'' 64 72] \<and>
   span (loc ''lib'' 64 72) \<inter> span (loc ''[heap]'' 16 32) = {}"
proof -
  have d: "disjoint_map [loc ''[heap]'' 16 40, loc ''lib'' 64 72]"
    by (auto simp: disjoint_map_def span_def)
  have s: "still_mapped [loc ''[heap]'' 16 32] [loc ''[heap]'' 16 40, loc ''lib'' 64 72]"
    by (auto simp: still_mapped_def)
  have c: "calculateNewLocations [loc ''[heap]'' 16 32] [loc ''[heap]'' 16 40, loc ''lib'' 64 72] = [loc ''lib'' 64 72]"
    by (simp add: calculateNewLocations_def)
  from calculateNewLocations_spares_saved [OF d s] show ?thesis by (simp add: c)
qed

text \<open>
  A location that grows downwards is taken for a new one: once the stack has grown below its
  start at the checkpoint, \<open>UnmapNewLocations\<close> would unmap the whole of it, the saved part included.
\<close>

theorem grown_stack_is_unmapped:
  assumes "old \<in> set olds" and "\<forall>other \<in> set olds. m_name other = m_name old \<longrightarrow> other = old"
    and "grown \<in> set news" and "m_name grown = m_name old"
    and "startOffset grown < startOffset old" and "endOffset grown = endOffset old"
  shows "grown \<in> set (calculateNewLocations olds news) \<and> span old \<subseteq> span grown"
  using assms by (auto simp: new_location_iff span_def)

theorem grown_stack_is_unmapped_witness:
  "loc ''[stack]'' 48 96 \<in> set (calculateNewLocations [loc ''[stack]'' 64 96] [loc ''[stack]'' 48 96]) \<and>
   span (loc ''[stack]'' 64 96) \<subseteq> span (loc ''[stack]'' 48 96)"
  using grown_stack_is_unmapped [of "loc ''[stack]'' 64 96" "[loc ''[stack]'' 64 96]" "loc ''[stack]'' 48 96"
      "[loc ''[stack]'' 48 96]"] by simp

lemma order_RunSyscall_Inr:
  assumes "awaitContinueOrders ops t (RunSyscall regs) w = (Inr (t', SyscallReturn out), w')"
  shows "t' = t" and "runSyscall ops (Tid t) regs w = (Inr out, w')"
proof -
  obtain q w1 where run: "runSyscall ops (Tid t) regs w = (q, w1)" by fastforce
  have "t' = t \<and> q = Inr out \<and> w1 = w'"
  proof (cases q)
    case (Inl e)
    with assms run show ?thesis by (cases e) (simp_all add: bindS_def tryS_def)
  next
    case (Inr y)
    with assms run show ?thesis by (simp add: bindS_def tryS_def)
  qed
  with run show "t' = t" "runSyscall ops (Tid t) regs w = (Inr out, w')" by simp_all
qed

lemma state_runSyscall_Inr:
  assumes "state_runSyscall ops st n a b s = (Inr v, s')"
    and "registers st = (tid, r) # rs" and "parked s tid"
  shows "\<exists>out. runSyscall (ptrace_ops.truncate ops) tid (zero_regs\<lparr>Rax := n, Rdi := a, Rsi := b\<rparr>) (world s) =
      (Inr out, world s') \<and> v = Rax out \<and> task_of s' = task_of s"
proof -
  let ?order = "RunSyscall (zero_regs\<lparr>Rax := n, Rdi := a, Rsi := b\<rparr>)"
  from assms(1,2) obtain reply s1 where
    send: "on_task tid (\<lambda>t. send_order (ptrace_ops.truncate ops) (p_fuel ops) t ?order) s = (Inr reply, s1)"
    and fin: "(case reply of SyscallReturn returnRegs \<Rightarrow> retS (Rax returnRegs)
       | SyscallError err \<Rightarrow> faultS (Returned err) | _ \<Rightarrow> faultS Blocked) s1 = (Inr v, s')"
    unfolding state_runSyscall_def chooseAnyRegState_def bindS_Inr_iff by auto
  from fin have v: "\<exists>out. reply = SyscallReturn out \<and> v = Rax out" and "s1 = s'"
    by (cases reply; simp)+
  note send = send [unfolded \<open>s1 = s'\<close>]
  from send obtain t t' where t: "task_of s tid = Some t"
    and run: "send_order (ptrace_ops.truncate ops) (p_fuel ops) t ?order (world s) = (Inr (t', reply), world s')"
    and s': "s' = s\<lparr>task_of := (task_of s)(tid := Some t'), world := world s'\<rparr>"
    by (rule on_task_Inr)
  from assms(3) t have tid: "Tid t = tid" "t_phase t \<noteq> Waiting" by (auto simp: parked_def)
  from run obtain u w where aw: "await_orders (ptrace_ops.truncate ops) (p_fuel ops) t (world s) = (Inr u, w)"
    and rs: "awaitContinueOrders (ptrace_ops.truncate ops) u ?order w = (Inr (t', reply), world s')"
    by (auto simp: send_order_def bindS_Inr_iff)
  from await_orders_parked [OF aw tid(2)] have u: "u = t" "w = world s" by simp_all
  from v obtain out where out: "reply = SyscallReturn out" "v = Rax out" by blast
  note res = order_RunSyscall_Inr [OF rs [unfolded out u]]
  have "task_of s' = task_of s" by (rule same_task_of [OF t s' [unfolded res(1)]])
  with res out tid(1) show ?thesis by auto
qed

text \<open>
  \<open>RestoreProgramBreak\<close> does one \<open>brk\<close> in one stopped thread: when it returns no error, that
  thread executed a \<open>syscall\<close> instruction with number 12 and the end of the saved heap as its argument,
  the kernel answered with exactly that address, and the thread's registers and the two bytes of code
  at its program counter are what they were.
\<close>

theorem RestoreProgramBreak_sets_break:
  assumes "ptrace_faithful (ptrace_ops.truncate ops) tid R M"
    and "registers st = (tid, r) # rs" and "parked s tid"
    and "RestoreProgramBreak ops st s = (Inr (), s')"
  shows "\<exists>heap w1 w2 w3.
     getMemory (memoryLocations st) ''[heap]'' = Inr heap \<and>
     Rax (R w1) = 12 \<and> Rdi (R w1) = of_int (endOffset heap) \<and> Rip (R w1) = Rip (R (world s)) \<and>
     M w1 (Rip (R w1)) = 0x0f \<and> M w1 (Rip (R w1) + 1) = 0x05 \<and>
     k_singlestep ops tid w1 = (Inr (), w2) \<and> (\<exists>stat. k_wait4 ops tid w2 = (Inr stat, w3)) \<and>
     Rax (R w3) = of_int (endOffset heap) \<and>
     R (world s') = R (world s) \<and>
     (\<forall>a \<in> {Rip (R (world s)), Rip (R (world s)) + 1}. M (world s') a = M (world s) a) \<and>
     task_of s' = task_of s"
proof -
  from assms(4) obtain heap where heap: "getMemory (memoryLocations st) ''[heap]'' = Inr heap" and
    run: "state_runSyscall ops st 12 (of_int (endOffset heap)) 0 s = (Inr (of_int (endOffset heap)), s')"
    by (auto simp: RestoreProgramBreak_def bindS_Inr_iff split: if_splits)
  from state_runSyscall_Inr [OF run assms(2-3)] obtain out where
    out: "runSyscall (ptrace_ops.truncate ops) tid
      (zero_regs\<lparr>Rax := 12, Rdi := of_int (endOffset heap), Rsi := 0\<rparr>) (world s) = (Inr out, world s')"
    "Rax out = of_int (endOffset heap)" "task_of s' = task_of s" by auto
  have trunc: "k_singlestep (ptrace_ops.truncate ops) = k_singlestep ops"
    "k_wait4 (ptrace_ops.truncate ops) = k_wait4 ops" by (simp_all add: ptrace_ops.defs)
  from runSyscall_Inr [OF assms(1) out(1)] obtain w1 w2 w3 stat where w:
    "R (world s') = R (world s)"
    "R w1 = (R (world s))\<lparr>Rax := 12, Rdi := of_int (endOffset heap), Rsi := 0\<rparr>"
    "M w1 = (M (world s))(Rip (R (world s)) := 0x0f, Rip (R (world s)) + 1 := 0x05)"
    "k_singlestep ops tid w1 = (Inr (), w2)" "k_wait4 ops tid w2 = (Inr stat, w3)" "out = R w3"
    "M (world s') = (M w3)(Rip (R (world s)) := M (world s) (Rip (R (world s))),
       Rip (R (world s)) + 1 := M (world s) (Rip (R (world s)) + 1))"
    unfolding trunc by auto
  show ?thesis
    by (rule exI [of _ heap], rule exI [of _ w1], rule exI [of _ w2], rule exI [of _ w3])
      (use w heap out(2,3) in auto)
qed

lemma ex_heap: "getMemory [ex_location] ''[heap]'' = Inr ex_location"
  by (simp add: getMemory_def ex_location_def)

lemma ex_RestoreProgramBreak: "RestoreProgramBreak machine_ops ex_state ex_system = (Inr (), ex_system)"
proof -
  have "runSyscall (ptrace_ops.truncate machine_ops) 1
      (zero_regs\<lparr>Rax := 12, Rdi := 32, Rsi := 0\<rparr>) ex_machine =
      (Inr (ex_regs\<lparr>Rax := 32, Rdi := 32, Rsi := 0, Rip := 102\<rparr>), ex_machine)"
    by (simp add: runSyscall_def expect2_def wrapS_def bindS_def machine_ops_def ex_machine_def ex_regs_def
        ptrace_ops.defs machine_step_def zero_regs_def Let_def
        upt_rec [of "Suc 0"] upt_rec [of 0] numeral_2_eq_2 fun_eq_iff)
  note run = this
  have e: "endOffset ex_location = 32" by (simp add: ex_location_def)
  have t: "task_of ex_system 1 = Some (stopped_task 1)" "world ex_system = ex_machine"
    "Tid (stopped_task 1) = 1" "t_phase (stopped_task 1) = InStop"
    by (simp_all add: ex_system_def stopped_task_def)
  have same: "ex_system\<lparr>task_of := (task_of ex_system)(1 \<mapsto> stopped_task 1), world := ex_machine\<rparr> = ex_system"
    by (simp add: ex_system_def fun_eq_iff)
  have reply: "send_order (ptrace_ops.truncate machine_ops) (p_fuel machine_ops) (stopped_task 1)
      (RunSyscall (zero_regs\<lparr>Rax := 12, Rdi := 32, Rsi := 0\<rparr>)) ex_machine =
      (Inr (stopped_task 1, SyscallReturn (ex_regs\<lparr>Rax := 32, Rdi := 32, Rsi := 0, Rip := 102\<rparr>)), ex_machine)"
    using t(3,4) machine_fuel run
    by (simp only: send_order_def await_orders_in_stop bindS_retS awaitContinueOrders.simps)
      (simp add: bindS_def tryS_def)
  have call: "state_runSyscall machine_ops ex_state 12 32 0 ex_system = (Inr 32, ex_system)"
    by (simp only: state_runSyscall_def chooseAnyRegState_def ex_state_def state.select_convs list.case
        prod.case bindS_def liftS_eval sum.case on_task_def t option.case reply same reply.case retS_eval)
      simp
  have ms: "memoryLocations ex_state = [ex_location]" by (simp add: ex_state_def)
  show ?thesis
    by (simp add: RestoreProgramBreak_def ms ex_heap bindS_def e call)
qed

theorem RestoreProgramBreak_sets_break_witness:
  "RestoreProgramBreak machine_ops ex_state ex_system = (Inr (), ex_system) \<and>
   (\<exists>w3 :: machine. Rax (mc_regs w3 1) = 32)"
proof -
  have p: "parked ex_system 1" using ex_parked [of 1 "world ex_system"] by simp
  have reg: "registers ex_state = (1, ex_regs) # [(2, ex_regs)]" by (simp add: ex_state_def)
  have ms: "memoryLocations ex_state = [ex_location]" by (simp add: ex_state_def)
  note res = RestoreProgramBreak_sets_break
    [OF machine_ptrace_faithful reg p ex_RestoreProgramBreak]
  from res obtain heap and w3 :: machine where "getMemory (memoryLocations ex_state) ''[heap]'' = Inr heap"
    "Rax (mc_regs w3 1) = of_int (endOffset heap)"
    by (elim exE conjE) (erule (1) that)
  moreover have "endOffset ex_location = 32" by (simp add: ex_location_def)
  ultimately show ?thesis using ex_RestoreProgramBreak by (auto simp: ms ex_heap)
qed

end
