(* ===== verification/Controller_Core.thy ===== *)
theory Controller_Core
  imports Proc_State
begin

text \<open>
  \<open>controller/controller.go\<close>: the controller of one worker process. It owns the traced tasks and the
  checkpoints of the process, talks to it over its standard streams with one JSON message per line,
  and stops, checkpoints, restores and continues it. The tasks are in the shared \<open>system\<close> of
  \<open>Proc_State\<close>; a task is identified with its thread, as is right for a controller that attaches once.
\<close>

section \<open>Messages\<close>

text \<open>
  A decoded JSON value (\<open>interface{}\<close>) and a message. Encoding and decoding are functions of
  \<open>encoding/json\<close> and parameters here; so are the pipes of the process.
\<close>

datatype json =
    JNull
  | JBool bool
  | JNumber string
  | JString string
  | JArray "json list"
  | JObject "(string \<times> json) list"

record message =
  msg_type :: string
  msg_data :: json

record 'w ctrl_ops = "'w proc_ops" +
  c_marshal :: "message \<Rightarrow> error + string"
  c_unmarshal :: "string \<Rightarrow> message option"
  c_read_line :: "('w, string) io"
  c_write :: "string \<Rightarrow> ('w, unit) io"
  c_close_streams :: "'w \<Rightarrow> 'w"

record 'w controller =
  c_pid :: int
  has_streams :: bool
  traceTasks :: "int list"
  checkpoints :: "state list"
  attached :: bool
  ptraceOptions :: task_options
  sys :: "'w system"

definition on_sys :: "('w system, 'a) io \<Rightarrow> ('w controller, 'a) io" where
  "on_sys m c = (case m (sys c) of (r, s) \<Rightarrow> (r, c\<lparr>sys := s\<rparr>))"

definition on_world :: "('w, 'a) io \<Rightarrow> ('w controller, 'a) io" where
  "on_world m = on_sys (in_world m)"

definition NewController :: "'w \<Rightarrow> 'w controller" where
  "NewController w =
     \<lparr>c_pid = 0, has_streams = False, traceTasks = [], checkpoints = [], attached = False,
      ptraceOptions = \<lparr>AttachOptions = [], StraceEnabled = False, StraceOutput = NewSafeWriter\<rparr>,
      sys = \<lparr>task_of = (\<lambda>_. None), world = w\<rparr>\<rparr>"

definition PTRACE_O_TRACESYSGOOD :: int where "PTRACE_O_TRACESYSGOOD = 1"

definition WithSyscallTrace :: "'w controller \<Rightarrow> 'w controller" where
  "WithSyscallTrace c = c\<lparr>ptraceOptions :=
     \<lparr>AttachOptions = AttachOptions (ptraceOptions c) @ [PTRACE_O_TRACESYSGOOD],
      StraceEnabled = True, StraceOutput = NewSafeWriter\<rparr>\<rparr>"

definition SetPid :: "int \<Rightarrow> 'w controller \<Rightarrow> 'w controller" where
  "SetPid pid c = c\<lparr>c_pid := pid\<rparr>"

definition Pid :: "'w controller \<Rightarrow> int" where
  "Pid c = c_pid c"

definition Checkpoints :: "'w controller \<Rightarrow> state list" where
  "Checkpoints c = checkpoints c"

text \<open>\<open>SetStreams\<close> stores the pipes and starts the goroutine that reads messages.\<close>

definition SetStreams :: "'w controller \<Rightarrow> 'w controller" where
  "SetStreams c = c\<lparr>has_streams := True\<rparr>"

text \<open>\<open>Streams\<close> hands out the three pipes; it panics on a controller that has none.\<close>

datatype pipe_end = Stdin | Stdout | Stderr

definition Streams :: "'w controller \<Rightarrow> (pipe_end \<times> pipe_end \<times> pipe_end) res" where
  "Streams c = (if has_streams c then Inr (Stdin, Stdout, Stderr) else Inl nil_pointer)"

definition ignored :: "message \<Rightarrow> bool" where
  "ignored m \<longleftrightarrow> msg_type m = ''info'' \<or> msg_type m = ''log''"

text \<open>
  One line of the reading goroutine: what cannot be decoded is logged and skipped, and so are the
  messages of type \<open>info\<close> and \<open>log\<close>.
\<close>

definition line_message :: "(string \<Rightarrow> message option) \<Rightarrow> string \<Rightarrow> message option" where
  "line_message unmarshal line =
     (case unmarshal line of
        None \<Rightarrow> None
      | Some m \<Rightarrow> if ignored m then None else Some m)"

text \<open>
  The goroutine runs ahead of the controller by at most the one message of the channel and the one it
  is sending; here it runs when the controller asks. \<open>stream_step\<close> below is the concurrent version.
  When the stream ends the goroutine returns and nothing is ever sent again.
\<close>

fun read_message :: "('w, 'z) ctrl_ops_scheme \<Rightarrow> nat \<Rightarrow> ('w, message) io" where
  "read_message ops 0 = faultS Blocked"
| "read_message ops (Suc n) =
     bindS (tryS (c_read_line ops)) (\<lambda>r.
     case r of
       Inl e \<Rightarrow> faultS Blocked
     | Inr line \<Rightarrow>
         (case line_message (c_unmarshal ops) line of
            None \<Rightarrow> read_message ops n
          | Some m \<Rightarrow> retS m))"

definition next_message :: "('w, 'z) ctrl_ops_scheme \<Rightarrow> ('w controller, message) io" where
  "next_message ops c =
     (if has_streams c then on_world (read_message ops (p_fuel ops)) c else (Inl Blocked, c))"

fun await_message :: "('w, 'z) ctrl_ops_scheme \<Rightarrow> nat \<Rightarrow> string \<Rightarrow> ('w controller, message) io" where
  "await_message ops 0 messageType = faultS Blocked"
| "await_message ops (Suc n) messageType =
     bindS (next_message ops) (\<lambda>message.
     if msg_type message = messageType then retS message else await_message ops n messageType)"

definition AwaitMessage :: "('w, 'z) ctrl_ops_scheme \<Rightarrow> string \<Rightarrow> ('w controller, message) io" where
  "AwaitMessage ops messageType = await_message ops (p_fuel ops) messageType"

definition marshal :: "('w, 'z) ctrl_ops_scheme \<Rightarrow> message \<Rightarrow> string res" where
  "marshal ops m = (case c_marshal ops m of Inl e \<Rightarrow> Inl (Returned e) | Inr s \<Rightarrow> Inr s)"

definition write_stdin :: "('w, 'z) ctrl_ops_scheme \<Rightarrow> string \<Rightarrow> ('w controller, unit) io" where
  "write_stdin ops s c = (if has_streams c then on_world (c_write ops s) c else (Inl nil_pointer, c))"

definition SendMessage :: "('w, 'z) ctrl_ops_scheme \<Rightarrow> string \<Rightarrow> json \<Rightarrow> ('w controller, unit) io" where
  "SendMessage ops messageType d =
     bindS (liftS (marshal ops \<lparr>msg_type = messageType, msg_data = d\<rparr>)) (\<lambda>messageString.
     write_stdin ops (messageString @ [CHR 0x0A]))"

definition SendFunction :: "('w, 'z) ctrl_ops_scheme \<Rightarrow> string \<Rightarrow> ('w controller, unit) io" where
  "SendFunction ops function =
     bindS (liftS (marshal ops \<lparr>msg_type = ''function'', msg_data = JString function\<rparr>)) (\<lambda>functionReqString.
     bindS (wrapS ''could not write to worker stdin'' (write_stdin ops (functionReqString @ [CHR 0x0A]))) (\<lambda>_.
     bindS (AwaitMessage ops ''function_loaded'') (\<lambda>loadedMessage.
     if msg_data loadedMessage = JBool True then retS () else errS ''function failed to load'')))"

definition SendRequest :: "('w, 'z) ctrl_ops_scheme \<Rightarrow> json \<Rightarrow> ('w controller, json) io" where
  "SendRequest ops request =
     bindS (liftS (marshal ops \<lparr>msg_type = ''request'', msg_data = request\<rparr>)) (\<lambda>functionReqString.
     bindS (write_stdin ops (functionReqString @ [CHR 0x0A])) (\<lambda>_.
     bindS (AwaitMessage ops ''response'') (\<lambda>message.
     retS (msg_data message))))"

section \<open>Tasks\<close>

definition task_stop :: "('w, 'z) ctrl_ops_scheme \<Rightarrow> int \<Rightarrow> ('w system, unit) io" where
  "task_stop ops tid =
     on_task tid (\<lambda>t. bindS (Stop_task (ptrace_ops.truncate ops) (p_fuel ops) t) (\<lambda>t'. retS (t', ())))"

definition task_order :: "('w, 'z) ctrl_ops_scheme \<Rightarrow> int \<Rightarrow> 'w order \<Rightarrow> reply \<Rightarrow> ('w system, unit) io" where
  "task_order ops tid ord answer =
     bindS (on_task tid (\<lambda>t. send_order (ptrace_ops.truncate ops) (p_fuel ops) t ord)) (\<lambda>reply.
     if reply = answer then retS () else faultS Blocked)"

definition task_signal :: "('w, 'z) ctrl_ops_scheme \<Rightarrow> int \<Rightarrow> ('w system, u32) io" where
  "task_signal ops tid =
     on_task tid (\<lambda>t. await_signal (ptrace_ops.truncate ops) (p_fuel ops) t)"

definition Stop :: "('w, 'z) ctrl_ops_scheme \<Rightarrow> ('w controller, unit) io" where
  "Stop ops c = on_sys (eachS (task_stop ops) (traceTasks c)) c"

definition ContinueTid :: "('w, 'z) ctrl_ops_scheme \<Rightarrow> int \<Rightarrow> int \<Rightarrow> ('w controller, unit) io" where
  "ContinueTid ops tid signal = on_sys (task_order ops tid (Continue signal) HasContinued)"

definition ContinueWith :: "('w, 'z) ctrl_ops_scheme \<Rightarrow> int \<Rightarrow> ('w controller, unit) io" where
  "ContinueWith ops signal c = eachS (\<lambda>tid. ContinueTid ops tid signal) (traceTasks c) c"

definition Continue_all :: "('w, 'z) ctrl_ops_scheme \<Rightarrow> ('w controller, unit) io" where
  "Continue_all ops = ContinueWith ops 0"

definition detach_task :: "('w, 'z) ctrl_ops_scheme \<Rightarrow> int \<Rightarrow> ('w system, unit) io" where
  "detach_task ops tid =
     bindS (wrapS ''could not stop child for detach'' (task_stop ops tid)) (\<lambda>_.
     task_order ops tid Detach HasDetached)"

definition Detach_all :: "('w, 'z) ctrl_ops_scheme \<Rightarrow> ('w controller, unit) io" where
  "Detach_all ops c =
     bindS (on_sys (eachS (detach_task ops) (traceTasks c))) (\<lambda>_ c'. (Inr (), c'\<lparr>attached := False\<rparr>)) c"

definition store_task :: "int \<Rightarrow> trace_task \<Rightarrow> 'w controller \<Rightarrow> 'w controller" where
  "store_task tid t c =
     c\<lparr>traceTasks := (if tid \<in> set (traceTasks c) then traceTasks c else traceTasks c @ [tid]),
       sys := (sys c)\<lparr>task_of := (task_of (sys c))(tid := Some t)\<rparr>\<rparr>"

definition attach_task :: "('w, 'z) ctrl_ops_scheme \<Rightarrow> string \<Rightarrow> ('w controller, unit) io" where
  "attach_task ops name c =
     (case Atoi name of
        Inl e \<Rightarrow> (Inl (Returned (Wrapf ''tid was not int'' e)), c)
      | Inr tid \<Rightarrow>
          bindS (wrapS (''could not create trace task '' @ Itoa tid)
                   (on_world (NewTraceTask (ptrace_ops.truncate ops) tid (c_pid c) (ptraceOptions c)))) (\<lambda>t c'.
          (Inr (), store_task tid t c')) c)"

definition Attach :: "('w, 'z) ctrl_ops_scheme \<Rightarrow> ('w controller, unit) io" where
  "Attach ops c =
     (if c_pid c = 0 then (Inl (Returned (Errorf ''controller has no pid'')), c)
      else bindS (liftS (from_ext ''could not read task entries'' (p_task_dir ops (c_pid c) (world (sys c))))) (\<lambda>taskDirs.
           bindS (eachS (attach_task ops) taskDirs) (\<lambda>_ c'.
           (Inr (), c'\<lparr>attached := True\<rparr>))) c)"

text \<open>The loops on signals; running out of the bound means waiting for ever.\<close>

fun await_signal_loop :: "('w, 'z) ctrl_ops_scheme \<Rightarrow> nat \<Rightarrow> int \<Rightarrow> u32 \<Rightarrow> ('w controller, unit) io" where
  "await_signal_loop ops 0 waitingFor waitStat = faultS Blocked"
| "await_signal_loop ops (Suc n) waitingFor waitStat =
     (if StopSignal waitStat = waitingFor then retS ()
      else (\<lambda>c.
        bindS (on_sys (task_signal ops (c_pid c))) (\<lambda>st.
        bindS (ContinueWith ops (StopSignal st)) (\<lambda>_.
        await_signal_loop ops n waitingFor st)) c))"

definition AwaitSignal :: "('w, 'z) ctrl_ops_scheme \<Rightarrow> int \<Rightarrow> ('w controller, unit) io" where
  "AwaitSignal ops waitingFor = await_signal_loop ops (p_fuel ops) waitingFor 0"

fun pause_loop :: "('w, 'z) ctrl_ops_scheme \<Rightarrow> nat \<Rightarrow> int \<Rightarrow> u32 \<Rightarrow> ('w controller, u32) io" where
  "pause_loop ops 0 waitingFor waitStat = faultS Blocked"
| "pause_loop ops (Suc n) waitingFor waitStat =
     (if StopSignal waitStat = waitingFor then retS waitStat
      else (\<lambda>c.
        bindS (ContinueWith ops (StopSignal waitStat)) (\<lambda>_.
        bindS (on_sys (task_signal ops (c_pid c))) (\<lambda>st.
        pause_loop ops n waitingFor st)) c))"

definition task_put_back :: "int \<Rightarrow> u32 \<Rightarrow> ('w system, unit) io" where
  "task_put_back tid st = on_task tid (\<lambda>t. liftS (bind_res (put_back t st) (\<lambda>t'. Inr (t', ()))))"

definition PauseAtSignal :: "('w, 'z) ctrl_ops_scheme \<Rightarrow> int \<Rightarrow> ('w controller, unit) io" where
  "PauseAtSignal ops waitingFor c =
     bindS (on_sys (task_signal ops (c_pid c))) (\<lambda>st.
     bindS (pause_loop ops (p_fuel ops) waitingFor st) (\<lambda>waitStat.
     on_sys (task_put_back (c_pid c) waitStat))) c"

definition SendSignal :: "('w, 'z) ctrl_ops_scheme \<Rightarrow> int \<Rightarrow> ('w controller, unit) io" where
  "SendSignal ops signal c = on_world (k_tgkill ops (c_pid c) (c_pid c) signal) c"

definition SendSignalCont :: "('w, 'z) ctrl_ops_scheme \<Rightarrow> int \<Rightarrow> ('w controller, unit) io" where
  "SendSignalCont ops signal =
     bindS (SendSignal ops signal) (\<lambda>_ c.
     if \<not> attached c then (Inr (), c)
     else bindS (on_sys (task_signal ops (c_pid c))) (\<lambda>_. ContinueWith ops signal) c)"

section \<open>Checkpoints\<close>

definition State :: "('w, 'z) ctrl_ops_scheme \<Rightarrow> ('w controller, state) io" where
  "State ops c = wrapS ''could not get state'' (on_sys (NewState ops (c_pid c) (traceTasks c))) c"

definition ClearMemRefs :: "('w, 'z) ctrl_ops_scheme \<Rightarrow> ('w controller, unit) io" where
  "ClearMemRefs ops c =
     (case p_open_clear_refs ops (c_pid c) (world (sys c)) of
        Some e \<Rightarrow> (Inl (Returned (Wrapf (''could not open clear_refs for pid '' @ Itoa (c_pid c)) e)), c)
      | None \<Rightarrow>
          wrapS (''could not clear_refs for pid '' @ Itoa (c_pid c)) (on_world (p_clear_refs ops (c_pid c))) c)"

definition save_pages_of :: "('w, 'z) ctrl_ops_scheme \<Rightarrow> state \<Rightarrow> ('w controller, state) io" where
  "save_pages_of ops st c =
     (case SaveWritablePages (p_proc ops (s_pid st) (world (sys c))) (memoryLocations st) of
        (r, ms) \<Rightarrow> (bind_res r (\<lambda>_. Inr (st\<lparr>memoryLocations := ms\<rparr>)), c))"

definition TakeCheckpoint :: "('w, 'z) ctrl_ops_scheme \<Rightarrow> ('w controller, unit) io" where
  "TakeCheckpoint ops =
     bindS (replaceS ''could not stop for checkpoint'' (Stop ops)) (\<lambda>_.
     bindS (State ops) (\<lambda>st.
     bindS (save_pages_of ops st) (\<lambda>st'.
     bindS (ClearMemRefs ops) (\<lambda>_.
     bindS (\<lambda>c. (Inr (), c\<lparr>checkpoints := checkpoints c @ [st']\<rparr>)) (\<lambda>_.
     Continue_all ops)))))"

definition Activate :: "('w, 'z) ctrl_ops_scheme \<Rightarrow> ('w controller, unit) io" where
  "Activate ops c =
     (if \<not> has_streams c then (Inl (Returned (Errorf ''controller has no in/out streams'')), c)
      else
        bindS (AwaitMessage ops ''started'') (\<lambda>_.
        bindS (wrapS ''could not attach to process'' (Attach ops)) (\<lambda>_.
        wrapS ''could not take activation checkpoint'' (TakeCheckpoint ops))) c)"

definition InitialCheckpoint :: "'w controller \<Rightarrow> state res" where
  "InitialCheckpoint c =
     (case checkpoints c of [] \<Rightarrow> Inl (Returned (Errorf ''no initial checkpoint'')) | st # _ \<Rightarrow> Inr st)"

definition SetRegs :: "('w, 'z) ctrl_ops_scheme \<Rightarrow> state \<Rightarrow> ('w controller, unit) io" where
  "SetRegs ops st = wrapS ''could not set regs'' (on_sys (RestoreRegs ops st))"

text \<open>
  The two checks of \<open>Restore\<close> on the memory map and what they lead to, then the contents: pages first,
  registers last.
\<close>

definition check_proc :: "('w, 'z) ctrl_ops_scheme \<Rightarrow> state \<Rightarrow> (proc \<Rightarrow> memory list \<Rightarrow> 'a res) \<Rightarrow> ('w system, 'a) io" where
  "check_proc ops st f s = (f (p_proc ops (s_pid st) (world s)) (memoryLocations st), s)"

definition restore_layout :: "('w, 'z) ctrl_ops_scheme \<Rightarrow> state \<Rightarrow> ('w system, unit) io" where
  "restore_layout ops st =
     bindS (wrapS ''could not check program break on restore'' (check_proc ops st ProgramBreakChanged)) (\<lambda>changed.
     bindS (if changed then wrapS ''count not restore program break'' (RestoreProgramBreak ops st)
            else retS ()) (\<lambda>_.
     bindS (wrapS ''could not check num mem locations changed on restore''
              (check_proc ops st NumMemoryLocationsChanged)) (\<lambda>changed2.
     bindS (if changed2 then wrapS ''count not unmap new locations'' (UnmapNewLocations ops st)
            else retS ()) (\<lambda>_.
     if changed \<or> changed2 then wrapS ''count not fixup syscall state'' (FixupSyscallState ops st)
     else retS ()))))"

definition restore_pages :: "('w, 'z) ctrl_ops_scheme \<Rightarrow> state \<Rightarrow> ('w system, unit) io" where
  "restore_pages ops st s =
     (case restore_dirty_pages (p_pagesize ops) (p_proc ops (s_pid st) (world s)) (memoryLocations st) of
        (r, p') \<Rightarrow> (r, s\<lparr>world := p_set_mem ops (s_pid st) (mem_bytes p') (world s)\<rparr>))"

definition restore_contents :: "('w, 'z) ctrl_ops_scheme \<Rightarrow> state \<Rightarrow> ('w system, unit) io" where
  "restore_contents ops st =
     bindS (wrapS ''could not restore stack'' (restore_pages ops st)) (\<lambda>_.
     wrapS ''could not restore regs'' (RestoreRegs ops st))"

definition Restore :: "('w, 'z) ctrl_ops_scheme \<Rightarrow> ('w controller, unit) io" where
  "Restore ops =
     bindS (wrapS ''could not stop worker for restore'' (Stop ops)) (\<lambda>_ c.
     case checkpoints c of
       [] \<Rightarrow> (Inl (Returned (Errorf ''no checkpoints to restore'')), c)
     | st # _ \<Rightarrow>
         bindS (on_sys (restore_layout ops st)) (\<lambda>_.
         bindS (on_sys (restore_contents ops st)) (\<lambda>_.
         Continue_all ops)) c)"

definition End :: "('w, 'z) ctrl_ops_scheme \<Rightarrow> ('w controller, unit) io" where
  "End ops c =
     (case (if attached c then Detach_all ops c else (Inr (), c)) of
        (detachErr, c1) \<Rightarrow>
          (case detachErr of
             Inl (Panicked _) \<Rightarrow> (detachErr, c1)
           | Inl Blocked \<Rightarrow> (detachErr, c1)
           | _ \<Rightarrow>
               (wrap_res ''could not detach on end'' detachErr,
                if has_streams c1
                then c1\<lparr>sys := (sys c1)\<lparr>world := c_close_streams ops (world (sys c1))\<rparr>\<rparr> else c1)))"

section \<open>Stopping\<close>

text \<open>Every task is the task of its thread and satisfies the invariant of \<open>Trace_Task\<close>.\<close>

definition tasks_ok :: "'w system \<Rightarrow> bool" where
  "tasks_ok s \<longleftrightarrow> (\<forall>tid t. task_of s tid = Some t \<longrightarrow> Tid t = tid \<and> task_inv (t, world s))"

lemma task_inv_world: "task_inv (t, w) = task_inv (t, w')"
  by (simp add: task_inv_def)

lemma tasks_ok_update:
  "\<lbrakk> tasks_ok s; Tid t = tid; task_inv (t, w) \<rbrakk> \<Longrightarrow>
     tasks_ok (s\<lparr>task_of := (task_of s)(tid := Some t), world := w'\<rparr>)"
  by (auto simp: tasks_ok_def task_inv_def split: if_splits)

lemma syscall_stop_Tid: "syscall_stop ops t w = (Inr t', w') \<Longrightarrow> Tid t' = Tid t"
  by (auto simp: syscall_stop_def bindS_Inr_iff tryS_Inr_iff end_task_def split: if_splits)

lemma loop_wait_Tid: "loop_wait ops t w = (Inr t', w') \<Longrightarrow> Tid t' = Tid t"
  by (auto simp: loop_wait_def send_stop_def end_task_def syscall_stop_Tid
      split: prod.splits option.splits fault.splits if_splits)

lemma await_signal_inv:
  fixes ops :: "'w ptrace_ops" and w0 :: 'w
  assumes "await_signal ops n t w = (Inr (t', st), w')" and "task_inv (t, w0)"
  shows "task_inv (t', w') \<and> Tid t' = Tid t \<and> t_phase t' \<noteq> Waiting \<and> SignalStop t' = None"
  using assms
proof (induction n arbitrary: t w w0)
  case 0
  then show ?case by simp
next
  case (Suc n)
  show ?case
  proof (cases "SignalStop t")
    case None
    with Suc.prems have ph: "t_phase t = Waiting" by (cases "t_phase t") auto
    with Suc.prems None obtain u v where lw: "loop_wait ops t w = (Inr u, v)"
      and rest: "await_signal ops n u v = (Inr (t', st), w')" by (auto simp: bindS_Inr_iff)
    from loop_wait_inv [OF lw Suc.prems(2) ph] have "task_inv (u, v)" .
    from Suc.IH [OF rest this] loop_wait_Tid [OF lw] show ?thesis by simp
  next
    case (Some st')
    with Suc.prems show ?thesis by (auto simp: task_inv_def)
  qed
qed

lemma Stop_task_stops:
  fixes ops :: "'w ptrace_ops" and w0 :: 'w
  assumes "Stop_task ops n t w = (Inr t', w')" and "task_inv (t, w0)"
  shows "task_inv (t', w') \<and> Tid t' = Tid t \<and> t_phase t' \<noteq> Waiting \<and> SignalStop t' \<noteq> None"
proof (cases "SignalStop t")
  case None
  with assms(1) obtain w1 u st where aw: "await_signal ops n t w1 = (Inr (u, st), w')"
    and pb: "put_back u st = Inr t'" by (auto simp: Stop_task_def bindS_Inr_iff)
  from await_signal_inv [OF aw assms(2)] pb show ?thesis
    by (auto simp: put_back_def task_inv_def split: option.splits)
next
  case (Some st)
  with assms show ?thesis by (auto simp: Stop_task_def put_back_def popWait_def task_inv_def)
qed

lemma task_stop_stops:
  assumes "task_stop ops tid s = (Inr (), s')" and "tasks_ok s"
  shows "tasks_ok s' \<and> parked s' tid \<and> (\<forall>k. k \<noteq> tid \<longrightarrow> task_of s' k = task_of s k)"
proof -
  from assms(1) [unfolded task_stop_def] obtain t t' where t: "task_of s tid = Some t"
    and run: "bindS (Stop_task (ptrace_ops.truncate ops) (p_fuel ops) t) (\<lambda>t'. retS (t', ())) (world s) =
      (Inr (t', ()), world s')"
    and s': "s' = s\<lparr>task_of := (task_of s)(tid := Some t'), world := world s'\<rparr>"
    by (rule on_task_Inr)
  from run have "Stop_task (ptrace_ops.truncate ops) (p_fuel ops) t (world s) = (Inr t', world s')"
    by (auto simp: bindS_Inr_iff)
  moreover from assms(2) t have "Tid t = tid" "task_inv (t, world s)" by (auto simp: tasks_ok_def)
  ultimately have t': "task_inv (t', world s')" "Tid t' = tid" "t_phase t' \<noteq> Waiting"
    using Stop_task_stops by metis+
  have "tasks_ok s'" by (subst s') (rule tasks_ok_update [OF assms(2) t'(2,1)])
  moreover have "parked s' tid" by (subst s') (use t' in \<open>simp add: parked_def\<close>)
  moreover have "\<forall>k. k \<noteq> tid \<longrightarrow> task_of s' k = task_of s k" by (subst s') simp
  ultimately show ?thesis by blast
qed

lemma parked_cong: "task_of s' k = task_of s k \<Longrightarrow> parked s' k = parked s k"
  by (simp add: parked_def)

lemma stop_loop_parks:
  assumes "eachS (task_stop ops) tids s = (Inr (), s')" and "tasks_ok s"
  shows "tasks_ok s' \<and> (\<forall>k. k \<in> set tids \<or> parked s k \<longrightarrow> parked s' k)"
  using assms
proof (induction tids arbitrary: s)
  case Nil
  then show ?case by simp
next
  case (Cons tid tids)
  from Cons.prems(1) obtain s1 where one: "task_stop ops tid s = (Inr (), s1)"
    and rest: "eachS (task_stop ops) tids s1 = (Inr (), s')" by (auto simp: bindS_Inr_iff)
  from task_stop_stops [OF one Cons.prems(2)] have
    s1: "tasks_ok s1" "parked s1 tid" "\<And>k. k \<noteq> tid \<Longrightarrow> parked s1 k = parked s k"
    using parked_cong [of s1 _ s] by blast+
  with Cons.IH [OF rest s1(1)] show ?case by (metis set_ConsD)
qed

lemma on_sys_Inr:
  assumes "on_sys m c = (Inr x, c')"
  obtains s where "m (sys c) = (Inr x, s)" and "c' = c\<lparr>sys := s\<rparr>"
  using assms by (auto simp: on_sys_def split: prod.splits)

lemma Stop_parks:
  assumes "Stop ops c = (Inr (), c')" and "tasks_ok (sys c)"
  shows "c' = c\<lparr>sys := sys c'\<rparr> \<and> tasks_ok (sys c') \<and> (\<forall>tid \<in> set (traceTasks c). parked (sys c') tid)"
  using assms(1) [unfolded Stop_def]
proof (rule on_sys_Inr)
  fix s
  assume "eachS (task_stop ops) (traceTasks c) (sys c) = (Inr (), s)" and "c' = c\<lparr>sys := s\<rparr>"
  with stop_loop_parks [OF this(1) assms(2)] show ?thesis by simp
qed

section \<open>Taking and restoring checkpoints\<close>

text \<open>
  A checkpoint of the system \<open>s\<close>: the registers of the threads and the bytes of every writable
  location.
\<close>

definition checkpoint_of ::
  "('w, 'z) ctrl_ops_scheme \<Rightarrow> ('w \<Rightarrow> int \<Rightarrow> ptrace_regs) \<Rightarrow> int list \<Rightarrow> 'w system \<Rightarrow> state \<Rightarrow> bool" where
  "checkpoint_of ops R tids s st \<longleftrightarrow>
     registers st = map (\<lambda>tid. (tid, R (world s) tid)) tids \<and>
     (\<forall>m \<in> set (memoryLocations st). writable m \<longrightarrow>
        snapshot_of (mem_bytes (p_proc ops (s_pid st) (world s))) m)"

text \<open>
  What the parameters have to do with each other: reading registers and writing them leaves memory
  alone, and writing memory sets exactly the bytes written and leaves the registers alone.
\<close>

definition process_laws ::
  "('w, 'z) ctrl_ops_scheme \<Rightarrow> ('w \<Rightarrow> int \<Rightarrow> ptrace_regs) \<Rightarrow> bool" where
  "process_laws ops R \<longleftrightarrow>
     regs_faithful ops R \<and>
     (\<forall>tid r w w' pid. k_setregs ops tid r w = (Inr (), w') \<longrightarrow>
        mem_bytes (p_proc ops pid w') = mem_bytes (p_proc ops pid w)) \<and>
     (\<forall>pid f w. mem_bytes (p_proc ops pid (p_set_mem ops pid f w)) = f \<and> R (p_set_mem ops pid f w) = R w)"

lemma list_all2_saved:
  "\<lbrakk> list_all2 (saved f) ms ms'; m \<in> set ms'; writable m \<rbrakk> \<Longrightarrow> snapshot_of f m"
  by (auto simp: list_all2_conv_all_nth in_set_conv_nth saved_def same_layout_def) metis

lemma SaveWritablePages_saves:
  assumes "SaveWritablePages p ms = (Inr (), ms')" and "m \<in> set ms'" and "writable m"
  shows "snapshot_of (mem_bytes p) m"
proof -
  from assms(1) have "save_pages (mem_bytes p) ms = (Inr (), ms')"
    by (auto simp: SaveWritablePages_def split: option.splits)
  from save_pages_saved [OF this] assms(2,3) show ?thesis by (rule list_all2_saved)
qed

lemma SaveWritablePages_layout:
  "list_all2 same_layout ms (snd (SaveWritablePages p ms))"
  using save_pages_layout [of ms "mem_bytes p"]
  by (simp add: SaveWritablePages_def same_layout_all_refl split: option.splits)

lemma on_world_Inr:
  assumes "on_world m c = (Inr x, c')"
  obtains w where "m (world (sys c)) = (Inr x, w)" and "c' = c\<lparr>sys := (sys c)\<lparr>world := w\<rparr>\<rparr>"
  using assms by (auto simp: on_world_def on_sys_def in_world_def split: prod.splits)

lemma ClearMemRefs_Inr:
  assumes "ClearMemRefs ops c = (Inr (), c')"
  shows "c' = c\<lparr>sys := sys c'\<rparr> \<and> task_of (sys c') = task_of (sys c)"
proof -
  from assms have "on_world (p_clear_refs ops (c_pid c)) c = (Inr (), c')"
    by (simp add: ClearMemRefs_def wrapS_Inr_iff split: option.splits)
  then show ?thesis by (rule on_world_Inr) simp
qed

text \<open>
  The system at the moment \<open>TakeCheckpoint\<close> reads the memory map and the pages, and at the moment
  \<open>Restore\<close> restores the pages.
\<close>

definition checkpoint_moment :: "('w, 'z) ctrl_ops_scheme \<Rightarrow> 'w controller \<Rightarrow> 'w system" where
  "checkpoint_moment ops c = sys (snd (bindS (Stop ops) (\<lambda>_. State ops) c))"

definition restore_moment :: "('w, 'z) ctrl_ops_scheme \<Rightarrow> 'w controller \<Rightarrow> state \<Rightarrow> 'w system" where
  "restore_moment ops c st = sys (snd (bindS (Stop ops) (\<lambda>_. on_sys (restore_layout ops st)) c))"

lemma on_sys_loop_keeps:
  "eachS (\<lambda>x. on_sys (f x)) xs c = (Inr (), c') \<Longrightarrow> c' = c\<lparr>sys := sys c'\<rparr>"
proof (induction xs arbitrary: c)
  case Nil
  then show ?case by simp
next
  case (Cons x xs)
  from Cons.prems obtain c1 where one: "on_sys (f x) c = (Inr (), c1)"
    and rest: "eachS (\<lambda>x. on_sys (f x)) xs c1 = (Inr (), c')" by (auto simp: bindS_Inr_iff)
  obtain s1 where "c1 = c\<lparr>sys := s1\<rparr>" using one by (rule on_sys_Inr)
  with Cons.IH [OF rest] show ?case by (metis controller.update_convs(7) controller.select_convs(7) controller.surjective)
qed

lemma Continue_all_keeps: "Continue_all ops c = (Inr (), c') \<Longrightarrow> c' = c\<lparr>sys := sys c'\<rparr>"
  unfolding Continue_all_def ContinueWith_def ContinueTid_def by (rule on_sys_loop_keeps)

text \<open>What \<open>TakeCheckpoint\<close> appends, and that it continues afterwards.\<close>

definition taken :: "('w, 'z) ctrl_ops_scheme \<Rightarrow> ('w \<Rightarrow> int \<Rightarrow> ptrace_regs) \<Rightarrow> 'w controller \<Rightarrow> state \<Rightarrow> bool" where
  "taken ops R c st \<longleftrightarrow>
     checkpoint_of ops R (traceTasks c) (checkpoint_moment ops c) st \<and> s_pid st = c_pid c \<and>
     (\<exists>ms. newMemoryLocations (p_proc ops (c_pid c) (world (checkpoint_moment ops c))) = Inr ms \<and>
        list_all2 same_layout ms (memoryLocations st)) \<and>
     (\<forall>tid \<in> set (traceTasks c). parked (checkpoint_moment ops c) tid)"

lemma TakeCheckpoint_Inr:
  assumes law: "regs_faithful ops R" and ok: "tasks_ok (sys c)" and run: "TakeCheckpoint ops c = (Inr (), c')"
  shows "\<exists>st. taken ops R c st \<and> c' = c\<lparr>sys := sys c', checkpoints := checkpoints c @ [st]\<rparr>"
proof -
  from run obtain c1 st c2 st' c3 c4 where
    stop: "Stop ops c = (Inr (), c1)" and state: "State ops c1 = (Inr st, c2)" and
    save: "save_pages_of ops st c2 = (Inr st', c3)" and clear: "ClearMemRefs ops c3 = (Inr (), c4)" and
    cont: "Continue_all ops (c4\<lparr>checkpoints := checkpoints c4 @ [st']\<rparr>) = (Inr (), c')"
    by (auto simp: TakeCheckpoint_def bindS_Inr_iff replaceS_Inr_iff)
  from Stop_parks [OF stop ok] have c1: "c1 = c\<lparr>sys := sys c1\<rparr>" "tasks_ok (sys c1)"
    "\<forall>tid \<in> set (traceTasks c). parked (sys c1) tid" by simp_all
  have same: "c_pid c1 = c_pid c" "traceTasks c1 = traceTasks c" by (subst c1(1), simp)+
  from state same have ns: "on_sys (NewState ops (c_pid c) (traceTasks c)) c1 = (Inr st, c2)"
    by (simp add: State_def wrapS_Inr_iff)
  obtain s where new: "NewState ops (c_pid c) (traceTasks c) (sys c1) = (Inr st, s)" and c2: "c2 = c1\<lparr>sys := s\<rparr>"
    using ns by (rule on_sys_Inr)
  have moment: "checkpoint_moment ops c = s"
    by (simp add: checkpoint_moment_def bindS_def stop state c2)
  from NewState_registers [OF law c1(3) NewState_Inr(1) [OF new]] have
    regs: "registers st = map (\<lambda>tid. (tid, R (world s) tid)) (traceTasks c)" and
    tasks: "task_of s = task_of (sys c1)" by simp_all
  have pid: "s_pid st = c_pid c" by (rule NewState_Inr(2) [OF new])
  from save obtain ms where sv: "SaveWritablePages (p_proc ops (s_pid st) (world s)) (memoryLocations st) = (Inr (), ms)"
    and st': "st' = st\<lparr>memoryLocations := ms\<rparr>" and c3: "c3 = c2"
    by (auto simp: save_pages_of_def c2 split: prod.splits)
  have cp: "checkpoint_of ops R (traceTasks c) s st'"
    using regs SaveWritablePages_saves [OF sv] by (simp add: checkpoint_of_def st')
  moreover have "\<forall>tid \<in> set (traceTasks c). parked s tid"
    using c1(3) tasks by (simp add: parked_def)
  moreover have "list_all2 same_layout (memoryLocations st) (memoryLocations st')"
    using SaveWritablePages_layout [of "memoryLocations st" "p_proc ops (s_pid st) (world s)"] by (simp add: sv st')
  ultimately have "taken ops R c st'"
    using NewState_Inr(3) [OF new] by (auto simp: taken_def moment st' pid)
  moreover have "c' = c\<lparr>sys := sys c', checkpoints := checkpoints c @ [st']\<rparr>"
  proof -
    have "c4 = c3\<lparr>sys := sys c4\<rparr>" using ClearMemRefs_Inr [OF clear] by simp
    then have "c4 = c\<lparr>sys := sys c4\<rparr>" by (subst (asm) c3, subst (asm) c2, subst (asm) c1(1)) simp
    then show ?thesis using Continue_all_keeps [OF cont] by (cases c; cases c4; cases c') simp
  qed
  ultimately show ?thesis by blast
qed

text \<open>What a restoration needs of the kernel at the moment the pages are restored.\<close>

definition pages_restorable :: "int \<Rightarrow> (int \<Rightarrow> byte option) \<Rightarrow> 'a proc_scheme \<Rightarrow> memory list \<Rightarrow> bool" where
  "pages_restorable ps snap p ms \<longleftrightarrow>
     0 < ps \<and> mem_open p = None \<and>
     (case pagemap_file p of Inl _ \<Rightarrow> False
      | Inr f \<Rightarrow> \<forall>m \<in> set (filter writable ms).
          0 \<le> startOffset m \<and> startOffset m \<le> endOffset m \<and> ps dvd startOffset m \<and> ps dvd endOffset m \<and>
          pagemap_covers ps f m \<and>
          readable_range (mem_bytes p) (startOffset m) (endOffset m) \<and>
          soft_dirty_sound ps f snap (mem_bytes p) m)"

lemma pages_restorable_restorable:
  assumes "pages_restorable ps snap p ms" and "\<forall>m \<in> set ms. writable m \<longrightarrow> snapshot_of snap m"
  shows "restorable ps snap p ms"
  using assms by (auto simp: pages_restorable_def restorable_def aligned_snapshot_def split: sum.splits)

lemma restore_pages_Inr:
  assumes "restore_pages ops st s = (Inr (), s')"
    and "process_laws ops R"
    and "pages_restorable (p_pagesize ops) snap (p_proc ops (s_pid st) (world s)) (memoryLocations st)"
    and "\<forall>m \<in> set (memoryLocations st). writable m \<longrightarrow> snapshot_of snap m"
  shows "mem_bytes (p_proc ops (s_pid st) (world s')) =
      (\<lambda>a. if a \<in> saved_area (memoryLocations st) then snap a else mem_bytes (p_proc ops (s_pid st) (world s)) a)"
    and "R (world s') = R (world s)" and "task_of s' = task_of s"
proof -
  let ?p = "p_proc ops (s_pid st) (world s)"
  obtain r p' where out: "restore_dirty_pages (p_pagesize ops) ?p (memoryLocations st) = (r, p')" by fastforce
  have "RestoreDirtyPages (p_pagesize ops) ?p (memoryLocations st) (r, p')"
    using restore_dirty_pages_outcome [of "p_pagesize ops" ?p "memoryLocations st"] out by simp
  from RestoreDirtyPages_ok [OF this pages_restorable_restorable [OF assms(3,4)]] have
    p': "mem_bytes p' = (\<lambda>a. if a \<in> saved_area (memoryLocations st) then snap a else mem_bytes ?p a)" by simp
  from assms(1) out have s': "s' = s\<lparr>world := p_set_mem ops (s_pid st) (mem_bytes p') (world s)\<rparr>"
    by (simp add: restore_pages_def)
  show "mem_bytes (p_proc ops (s_pid st) (world s')) =
      (\<lambda>a. if a \<in> saved_area (memoryLocations st) then snap a else mem_bytes ?p a)"
    and "R (world s') = R (world s)" and "task_of s' = task_of s"
    using assms(2) p' by (simp_all add: s' process_laws_def)
qed

lemma set_regs_loop_memory:
  assumes law: "process_laws ops R"
    and park: "\<forall>tid \<in> fst ` set rs. parked s tid"
    and run: "eachS (\<lambda>(tid, regs). in_stop ops tid (set_regs_in_stop ops regs)) rs s = (Inr (), s')"
  shows "mem_bytes (p_proc ops pid (world s')) = mem_bytes (p_proc ops pid (world s))"
  using park run
proof (induction rs arbitrary: s)
  case Nil
  then show ?case by simp
next
  case (Cons x rs)
  obtain tid r where x: "x = (tid, r)" by fastforce
  from Cons.prems(2) x obtain s1 where
    one: "in_stop ops tid (set_regs_in_stop ops r) s = (Inr (), s1)" and
    rest: "eachS (\<lambda>(tid, regs). in_stop ops tid (set_regs_in_stop ops regs)) rs s1 = (Inr (), s')"
    by (auto simp: bindS_Inr_iff)
  have p: "parked s tid" using Cons.prems(1) x by simp
  note set1 = set_regs_parked [OF p one]
  have "\<forall>tid \<in> fst ` set rs. parked s1 tid"
    using Cons.prems(1) set1(2) by (simp add: parked_def)
  from Cons.IH [OF this rest] set1(1) law show ?case by (simp add: process_laws_def)
qed

lemma restore_contents_Inr:
  assumes run: "restore_contents ops st s = (Inr (), s')" and law: "process_laws ops R"
    and pages: "pages_restorable (p_pagesize ops) snap (p_proc ops (s_pid st) (world s)) (memoryLocations st)"
    and snap: "\<forall>m \<in> set (memoryLocations st). writable m \<longrightarrow> snapshot_of snap m"
    and park: "\<forall>tid \<in> fst ` set (registers st). parked s tid" and dist: "distinct (map fst (registers st))"
  shows "mem_bytes (p_proc ops (s_pid st) (world s')) =
      (\<lambda>a. if a \<in> saved_area (memoryLocations st) then snap a else mem_bytes (p_proc ops (s_pid st) (world s)) a) \<and>
    R (world s') = (\<lambda>tid. case map_of (registers st) tid of Some r \<Rightarrow> r | None \<Rightarrow> R (world s) tid)"
proof -
  from run obtain s1 where one: "restore_pages ops st s = (Inr (), s1)" and two: "RestoreRegs ops st s1 = (Inr (), s')"
    by (auto simp: restore_contents_def bindS_Inr_iff wrapS_Inr_iff)
  note r1 = restore_pages_Inr [OF one law pages snap]
  have park1: "\<forall>tid \<in> fst ` set (registers st). parked s1 tid" using park r1(3) by (simp add: parked_def)
  have faith: "regs_faithful ops R" using law by (simp add: process_laws_def)
  note two' = two [unfolded RestoreRegs_def]
  from RestoreRegs_sets [OF faith park1 dist two'] have
    "R (world s') = (\<lambda>tid. case map_of (registers st) tid of Some r \<Rightarrow> r | None \<Rightarrow> R (world s1) tid)" ..
  then show ?thesis
    using set_regs_loop_memory [OF law park1 two', of "s_pid st"] r1(1) by (simp only: r1(2))
qed

text \<open>The steps before keep the tasks stopped.\<close>

lemma RestoreProgramBreak_tasks:
  assumes "RestoreProgramBreak ops st s = (Inr (), s')" and "registers st = (tid, r) # rs" and "parked s tid"
  shows "task_of s' = task_of s"
proof -
  from assms(1) obtain v n where "state_runSyscall ops st n v 0 s = (Inr v, s')"
    by (auto simp: RestoreProgramBreak_def bindS_Inr_iff split: if_splits)
  from state_runSyscall_Inr [OF this assms(2,3)] show ?thesis by blast
qed

lemma unmap_loop_tasks:
  assumes "eachS (unmap_location ops st) ls s = (Inr (), s')" and "registers st = (tid, r) # rs" and "parked s tid"
  shows "task_of s' = task_of s"
  using assms(1,3)
proof (induction ls arbitrary: s)
  case Nil
  then show ?case by simp
next
  case (Cons l ls)
  from Cons.prems(1) obtain s1 where one: "unmap_location ops st l s = (Inr (), s1)"
    and rest: "eachS (unmap_location ops st) ls s1 = (Inr (), s')" by (auto simp: bindS_Inr_iff)
  from one have "state_runSyscall ops st 11 (of_int (startOffset l)) (of_int (endOffset l - startOffset l)) s =
      (Inr 0, s1)"
    by (auto simp: unmap_location_def bindS_Inr_iff wrapS_Inr_iff split: if_splits)
  from state_runSyscall_Inr [OF this assms(2) Cons.prems(2)] have same: "task_of s1 = task_of s" by blast
  then have "parked s1 tid" using Cons.prems(2) by (simp add: parked_def)
  from Cons.IH [OF rest this] same show ?case by simp
qed

lemma UnmapNewLocations_tasks:
  assumes "UnmapNewLocations ops st s = (Inr (), s')" and "registers st = (tid, r) # rs" and "parked s tid"
  shows "task_of s' = task_of s"
proof -
  from assms(1) obtain ls where "eachS (unmap_location ops st) ls s = (Inr (), s')"
    by (auto simp: UnmapNewLocations_def bindS_Inr_iff)
  from unmap_loop_tasks [OF this assms(2,3)] show ?thesis .
qed

lemma fixup_function_Inr:
  assumes "fixup_function ops t w = (Inr (t', x), w')"
  shows "t' = t \<or> t' = t\<lparr>t_phase := Hung\<rparr>"
proof -
  obtain r1 w1 where one: "k_syscall ops (Tid t) 0 w = (r1, w1)" by fastforce
  obtain r2 w2 where two: "k_wait4 ops (Tid t) w1 = (r2, w2)" by fastforce
  show ?thesis
  proof (cases r1)
    case (Inl e)
    with assms one show ?thesis by (cases e) (simp_all add: fixup_function_def bindS_def tryS_def)
  next
    case (Inr _)
    with assms one two show ?thesis
    proof (cases r2)
      case (Inl e)
      with assms one two Inr show ?thesis
        by (cases e) (simp_all add: fixup_function_def bindS_def tryS_def)
    qed (simp add: fixup_function_def bindS_def tryS_def)
  qed
qed

lemma FixupSyscallState_parked:
  assumes "FixupSyscallState ops st s = (Inr (), s')" and "registers st = (tid, r) # rs" and "parked s tid"
    and "parked s k"
  shows "parked s' k"
proof -
  from assms(1,2) obtain x s1 where run: "in_stop ops tid (fixup_function ops) s = (Inr x, s1)"
    and fin: "(case x of None \<Rightarrow> retS () | Some err \<Rightarrow> faultS (Returned err)) s1 = (Inr (), s')"
    by (auto simp: FixupSyscallState_def chooseAnyRegState_def bindS_Inr_iff)
  from fin have "s1 = s'" by (cases x) simp_all
  with run have "in_stop ops tid (fixup_function ops) s = (Inr x, s')" by simp
  with assms(3) show ?thesis
  proof (rule in_stop_parked_Inr)
    fix t t'
    assume t: "Tid t = tid" "t_phase t = InStop"
      and f: "fixup_function ops t (world s) = (Inr (t', x), world s')"
      and s': "s' = s\<lparr>task_of := (task_of s)(tid := Some t'), world := world s'\<rparr>"
    from fixup_function_Inr [OF f] t have "Tid t' = tid" "t_phase t' \<noteq> Waiting" by auto
    then show "parked s' k" using assms(4) by (subst s') (auto simp: parked_def)
  qed
qed

lemma if_retS_Inr: "(if b then m else retS ()) s = (Inr u, s') \<longleftrightarrow> (if b then m s = (Inr (), s') else s' = s)"
  by auto

lemma bindS_check:
  "bindS (wrapS msg (check_proc ops st f)) g s = (Inr x, s') \<longleftrightarrow>
     (\<exists>y. f (p_proc ops (s_pid st) (world s)) (memoryLocations st) = Inr y \<and> g y s = (Inr x, s'))"
  by (simp add: bindS_Inr_iff wrapS_Inr_iff check_proc_def)

lemma wrap_check_same: "wrapS msg (check_proc ops st f) s = (Inr x, s') \<Longrightarrow> s' = s"
  by (simp add: wrapS_Inr_iff check_proc_def)

lemma restore_layout_parked:
  assumes run: "restore_layout ops st s = (Inr (), s')" and regs: "registers st = (tid, r) # rs"
    and park: "parked s tid" and k: "parked s k"
  shows "parked s' k"
proof -
  let ?b1 = "\<lambda>ch. if ch then wrapS ''count not restore program break'' (RestoreProgramBreak ops st) else retS ()"
  let ?b2 = "\<lambda>ch. if ch then wrapS ''count not unmap new locations'' (UnmapNewLocations ops st) else retS ()"
  let ?b3 = "\<lambda>ch. if ch then wrapS ''count not fixup syscall state'' (FixupSyscallState ops st) else retS ()"
  from run obtain ch1 u1 s1 ch2 u2 s2 where "?b1 ch1 s = (Inr u1, s1)" "?b2 ch2 s1 = (Inr u2, s2)"
    "?b3 (ch1 \<or> ch2) s2 = (Inr (), s')"
    unfolding restore_layout_def bindS_check
    
    apply (elim exE conjE bindS_InrE)
    apply (drule wrap_check_same)
    apply hypsubst
    apply (rule that, assumption+)
    done
  then have
    one: "if ch1 then RestoreProgramBreak ops st s = (Inr (), s1) else s1 = s" and
    two: "if ch2 then UnmapNewLocations ops st s1 = (Inr (), s2) else s2 = s1" and
    three: "if ch1 \<or> ch2 then FixupSyscallState ops st s2 = (Inr (), s') else s' = s2"
    by (simp_all only: if_retS_Inr wrapS_Inr_iff)
  have t1: "task_of s1 = task_of s" using one RestoreProgramBreak_tasks [OF _ regs park] by (auto split: if_splits)
  then have p1: "parked s1 tid" using park by (simp add: parked_def)
  have t2: "task_of s2 = task_of s1" using two UnmapNewLocations_tasks [OF _ regs p1] by (auto split: if_splits)
  then have p2: "parked s2 tid" "parked s2 k" using p1 t1 k by (simp_all add: parked_def)
  show ?thesis using three FixupSyscallState_parked [OF _ regs p2] p2(2) by (auto split: if_splits)
qed

section \<open>A concrete controller\<close>

text \<open>
  The machine of \<open>Proc_State\<close> with one heap location in its memory map, and a controller that has
  attached to its two threads.
\<close>

definition ex_marshal :: "message \<Rightarrow> error + string" where
  "ex_marshal m = Inr (msg_type m)"

definition ex_ops :: "machine ctrl_ops" where
  "ex_ops = proc_ops.extend machine_ops
     (ctrl_ops.fields ex_marshal (\<lambda>l. Some \<lparr>msg_type = l, msg_data = JBool True\<rparr>)
       (\<lambda>w. (Inr ''function_loaded'', w)) (\<lambda>_ w. (Inr (), w)) (\<lambda>w. w))"

lemma ex_ops_simps [simp]:
  "ptrace_ops.truncate ex_ops = ptrace_ops.truncate machine_ops"
  "k_getregs ex_ops = k_getregs machine_ops" "k_setregs ex_ops = k_setregs machine_ops"
  "p_proc ex_ops = (\<lambda>_ w. mc_proc w)"
  "p_set_mem ex_ops = (\<lambda>_ f w. w\<lparr>mc_proc := (mc_proc w)\<lparr>mem_bytes := f\<rparr>\<rparr>)"
  "p_clear_refs ex_ops = (\<lambda>_ w. (Inr (), w))" "p_open_clear_refs ex_ops = (\<lambda>_ _. None)"
  "p_pagesize ex_ops = 8" "p_fuel ex_ops = 2"
  by (simp_all add: ex_ops_def machine_ops_def proc_ops.defs ptrace_ops.defs ctrl_ops.defs)

lemma ex_fds_limits:
  "newFileDescriptors ex_ops pid w = Inr [\<lparr>fd_name = ''0'', fd_link = ''/dev/null'', fdInfo = ''pos: 0''\<rparr>]"
  "newRlimits ex_ops pid w = Inr [(9, (0, 0)), (2, (0, 0)), (3, (0, 0))]"
  by (simp_all add: newFileDescriptors_def from_ext_def newRlimits_def resourceList_def prlimit_def
      ex_ops_def machine_ops_def proc_ops.defs ctrl_ops.defs)

definition heap_location :: memory where
  "heap_location = ex_location\<lparr>content := []\<rparr>"

definition heap_proc :: "(int \<Rightarrow> byte option) \<Rightarrow> proc" where
  "heap_proc f = ex_proc\<lparr>maps_file := Inr (maps_text 1 [heap_location]), mem_bytes := f\<rparr>"

definition heap_machine :: "(int \<Rightarrow> ptrace_regs) \<Rightarrow> (int \<Rightarrow> byte option) \<Rightarrow> machine" where
  "heap_machine rs f = \<lparr>mc_regs = rs, mc_text = (\<lambda>_. 0x90), mc_proc = heap_proc f\<rparr>"

definition task_at :: "bool \<Rightarrow> int \<Rightarrow> trace_task" where
  "task_at b tid = (if b then stopped_task tid else ex_task\<lparr>Tid := tid\<rparr>)"

definition two_tasks :: "bool \<Rightarrow> bool \<Rightarrow> machine \<Rightarrow> machine system" where
  "two_tasks b1 b2 w = \<lparr>task_of = [1 \<mapsto> task_at b1 1, 2 \<mapsto> task_at b2 2], world = w\<rparr>"

lemma two_tasks_simps [simp]:
  "world (two_tasks b1 b2 w) = w"
  "task_of (two_tasks b1 b2 w) 1 = Some (task_at b1 1)"
  "task_of (two_tasks b1 b2 w) 2 = Some (task_at b2 2)"
  "(two_tasks b1 b2 w)\<lparr>world := w'\<rparr> = two_tasks b1 b2 w'"
  "(two_tasks b1 b2 w)\<lparr>task_of := (task_of (two_tasks b1 b2 w))(1 \<mapsto> task_at b 1), world := w'\<rparr> = two_tasks b b2 w'"
  "(two_tasks b1 b2 w)\<lparr>task_of := (task_of (two_tasks b1 b2 w))(2 \<mapsto> task_at b 2), world := w'\<rparr> = two_tasks b1 b w'"
  by (simp_all add: two_tasks_def fun_eq_iff)

lemma task_at_simps [simp]:
  "Tid (task_at b tid) = tid" "t_phase (task_at True tid) = InStop" "t_phase (task_at False tid) = Waiting"
  "SignalStop (task_at False tid) = None" "SignalStop (task_at True tid) = Some 0x137F"
  by (simp_all add: task_at_def stopped_task_def ex_task_def)

lemma task_inv_task_at: "task_inv (task_at b tid, w)"
  by (simp add: task_inv_def task_at_def stopped_task_def ex_task_def)

lemma two_tasks_ok: "tasks_ok (two_tasks b1 b2 w)"
  by (auto simp: tasks_ok_def two_tasks_def task_inv_task_at split: if_splits)

abbreviation (input) mops :: "machine ptrace_ops" where
  "mops \<equiv> ptrace_ops.truncate machine_ops"

lemma ex_loop_wait: "loop_wait mops (task_at False tid) w = (Inr (task_at True tid), w)"
proof -
  have "drop_bit 16 (0x137F :: u32) = 0" "Stopped 0x137F" "StopSignal 0x137F = 19"
    by code_simp+
  then show ?thesis
    by (simp add: loop_wait_def Wait4_def machine_ops_def ptrace_ops.defs task_at_def ex_task_def
        send_stop_def PTRACE_EVENT_STOP_def SIGTRAP_def stopped_task_def)
qed

lemma ex_Stop_task: "Stop_task mops 2 (task_at False tid) w = (Inr (task_at True tid), w)"
proof -
  have kill: "k_tgkill mops g t sig = (\<lambda>w. (Inr (), w))" for g t sig
    by (simp add: machine_ops_def ptrace_ops.defs)
  have "await_signal mops 2 (task_at False tid) w = (Inr ((task_at True tid)\<lparr>SignalStop := None\<rparr>, 0x137F), w)"
    by (simp add: numeral_2_eq_2 bindS_def ex_loop_wait)
  then show ?thesis
    by (simp add: Stop_task_def kill bindS_def put_back_def)
qed

lemma ex_task_stop:
  "task_stop ex_ops 1 (two_tasks False b w) = (Inr (), two_tasks True b w)"
  "task_stop ex_ops 2 (two_tasks b False w) = (Inr (), two_tasks b True w)"
  by (simp_all add: task_stop_def on_task_def bindS_def ex_Stop_task)

lemma ex_Stop:
  "\<lbrakk> traceTasks c = [1, 2]; sys c = two_tasks False False w \<rbrakk> \<Longrightarrow>
     Stop ex_ops c = (Inr (), c\<lparr>sys := two_tasks True True w\<rparr>)"
  by (simp add: Stop_def on_sys_def bindS_def ex_task_stop)

definition continued :: "int \<Rightarrow> machine \<Rightarrow> machine" where
  "continued tid w = w\<lparr>mc_regs := (mc_regs w)(tid := (mc_regs w tid)\<lparr>Rax := 0\<rparr>),
     mc_proc := (mc_proc w)\<lparr>mem_bytes := (mem_bytes (mc_proc w))(25 := Some 0)\<rparr>\<rparr>"

lemma ex_continue_order:
  "send_order mops 2 (task_at True tid) (Continue 0) w = (Inr (task_at False tid, HasContinued), continued tid w)"
  by (simp add: send_order_def await_orders_in_stop bindS_def tryS_def continueTrace_def Let_def popWait_def
      task_at_def stopped_task_def ex_task_def machine_ops_def ptrace_ops.defs continued_def)

lemma ex_Continue_all:
  "\<lbrakk> traceTasks c = [1, 2]; sys c = two_tasks True True w \<rbrakk> \<Longrightarrow>
     Continue_all ex_ops c = (Inr (), c\<lparr>sys := two_tasks False False (continued 2 (continued 1 w))\<rparr>)"
  by (simp add: Continue_all_def ContinueWith_def ContinueTid_def on_sys_def task_order_def on_task_def bindS_def
      ex_continue_order)

lemma ex_get_regs:
  "in_stop ex_ops 1 (get_regs_in_stop ex_ops) (two_tasks True True w) = (Inr (1, mc_regs w 1), two_tasks True True w)"
  "in_stop ex_ops 2 (get_regs_in_stop ex_ops) (two_tasks True True w) = (Inr (2, mc_regs w 2), two_tasks True True w)"
  by (simp_all add: in_stop_def on_task_def await_orders_in_stop get_regs_in_stop_def bindS_def tryS_def
      machine_ops_def)

lemma ex_set_regs:
  "in_stop ex_ops 1 (set_regs_in_stop ex_ops r) (two_tasks True True w) =
     (Inr (), two_tasks True True (w\<lparr>mc_regs := (mc_regs w)(1 := r)\<rparr>))"
  "in_stop ex_ops 2 (set_regs_in_stop ex_ops r) (two_tasks True True w) =
     (Inr (), two_tasks True True (w\<lparr>mc_regs := (mc_regs w)(2 := r)\<rparr>))"
  by (simp_all add: in_stop_def on_task_def await_orders_in_stop set_regs_in_stop_def bindS_def tryS_def
      machine_ops_def)

lemma heap_newMemoryLocations: "newMemoryLocations (heap_proc f) = Inr [heap_location]"
proof -
  have "plain_name (m_name heap_location)" "printable heap_location"
    by (simp_all add: plain_name_def printable_def fits63_def heap_location_def ex_location_def is_space_def)
  moreover have "length (maps_line 1 heap_location) < max_token"
    using length_maps_line [of heap_location 1]
    by (simp add: heap_location_def ex_location_def max_token_def)
  ultimately have "\<forall>m \<in> set [heap_location]. maps_ok 1 m" by (simp add: maps_ok_def)
  moreover have "maps_file (heap_proc f) = Inr (maps_text 1 [heap_location])"
    by (simp add: heap_proc_def)
  ultimately have "newMemoryLocations (heap_proc f) = Inr (visible [heap_location])"
    by (intro newMemoryLocations_maps_text)
  then show ?thesis by (simp add: visible_def kernel_owned_def heap_location_def ex_location_def)
qed

lemma ex_save: "SaveWritablePages (heap_proc ex_snap) [heap_location] = (Inr (), [ex_location])"
proof -
  have "read_at ex_snap 16 16 = content ex_location" by code_simp
  then show ?thesis
    by (simp add: SaveWritablePages_def heap_proc_def ex_proc_def heap_location_def Let_def)
      (simp add: ex_location_def)
qed

definition ex_saved :: state where
  "ex_saved = \<lparr>s_pid = 1, registers = [(1, ex_regs), (2, ex_regs)], memoryLocations = [ex_location],
     fileDescriptors = [\<lparr>fd_name = ''0'', fd_link = ''/dev/null'', fdInfo = ''pos: 0''\<rparr>],
     rlimits = [(9, (0, 0)), (2, (0, 0)), (3, (0, 0))]\<rparr>"

abbreviation (input) ex_before :: machine where
  "ex_before \<equiv> heap_machine (\<lambda>_. ex_regs) ex_snap"

definition ex_controller :: "machine controller" where
  "ex_controller = \<lparr>c_pid = 1, has_streams = True, traceTasks = [1, 2], checkpoints = [], attached = True,
     ptraceOptions = \<lparr>AttachOptions = [], StraceEnabled = False, StraceOutput = NewSafeWriter\<rparr>,
     sys = two_tasks False False ex_before\<rparr>"

definition ex_controller1 :: "machine controller" where
  "ex_controller1 = ex_controller\<lparr>checkpoints := [ex_saved],
     sys := two_tasks False False (continued 2 (continued 1 ex_before))\<rparr>"

lemma ex_State:
  assumes "c_pid c = 1" and "traceTasks c = [1, 2]" and "sys c = two_tasks True True ex_before"
  shows "State ex_ops c = (Inr (ex_saved\<lparr>memoryLocations := [heap_location]\<rparr>), c)"
proof -
  have "NewState ex_ops 1 [1, 2] (two_tasks True True ex_before) =
      (Inr (ex_saved\<lparr>memoryLocations := [heap_location]\<rparr>), two_tasks True True ex_before)"
    by (simp add: NewState_def bindS_def ex_get_regs ex_fds_limits heap_machine_def heap_newMemoryLocations
        ex_saved_def)
  then show ?thesis using assms by (simp add: State_def wrapS_def on_sys_def)
qed

lemma ex_TakeCheckpoint: "TakeCheckpoint ex_ops ex_controller = (Inr (), ex_controller1)"
proof -
  let ?c = "ex_controller\<lparr>sys := two_tasks True True ex_before\<rparr>"
  have stop: "Stop ex_ops ex_controller = (Inr (), ?c)"
    by (rule ex_Stop) (simp_all add: ex_controller_def)
  have state: "State ex_ops ?c = (Inr (ex_saved\<lparr>memoryLocations := [heap_location]\<rparr>), ?c)"
    by (rule ex_State) (simp_all add: ex_controller_def)
  have save: "save_pages_of ex_ops (ex_saved\<lparr>memoryLocations := [heap_location]\<rparr>) ?c = (Inr ex_saved, ?c)"
    by (simp add: save_pages_of_def heap_machine_def ex_save) (simp add: ex_saved_def)
  have clear: "ClearMemRefs ex_ops ?c = (Inr (), ?c)"
    by (simp add: ClearMemRefs_def wrapS_def on_world_def on_sys_def in_world_def)
  have cont: "Continue_all ex_ops (?c\<lparr>checkpoints := [ex_saved]\<rparr>) = (Inr (), ex_controller1)"
    by (subst ex_Continue_all) (simp_all add: ex_controller_def ex_controller1_def)
  have cps: "checkpoints ?c = []" by (simp add: ex_controller_def)
  show ?thesis
    by (simp only: TakeCheckpoint_def bindS_def stop state save clear cps append_Nil cont replaceS_def prod.case sum.case
        replace_err.simps)
qed

definition snap_hole :: "int \<Rightarrow> byte option" where
  "snap_hole = ex_snap(25 := Some 0)"

lemma ex_pages_restorable: "pages_restorable 8 ex_snap (heap_proc snap_hole) [ex_location]"
proof -
  define f :: "int \<Rightarrow> byte option" where
    "f = (\<lambda>a. if 16 \<le> a \<and> a < 32 then Some (if a = 30 then 128 else 0) else None)"
  have pf: "pagemap_file (heap_proc snap_hole) = Inr f" by (simp add: heap_proc_def ex_proc_def f_def)
  have page3: "page_dirty f 3" by (simp add: page_dirty_def f_def)
  have covers: "pagemap_covers 8 f ex_location"
    by (auto simp: pagemap_covers_def readable_range_def f_def ex_location_def page_no_def)
  have sound: "soft_dirty_sound 8 f ex_snap (mem_bytes (heap_proc snap_hole)) ex_location"
    using page3 by (auto simp: soft_dirty_sound_def heap_proc_def snap_hole_def page_no_def)
  have "readable_range (mem_bytes (heap_proc snap_hole)) 16 32"
    by (auto simp: readable_range_def heap_proc_def snap_hole_def ex_snap_def)
  then show ?thesis
    using covers sound pf by (simp add: pages_restorable_def) (simp add: heap_proc_def ex_proc_def ex_location_def)
qed

lemma heap_proc_simps [simp]:
  "mem_bytes (heap_proc f) = f" "(heap_proc f)\<lparr>mem_bytes := g\<rparr> = heap_proc g"
  by (simp_all add: heap_proc_def)

lemma ex_restore_dirty_pages:
  "restore_dirty_pages 8 (heap_proc snap_hole) [ex_location] = (Inr (), heap_proc ex_snap)"
proof -
  have "restorable 8 ex_snap (heap_proc snap_hole) [ex_location]"
    using pages_restorable_restorable [OF ex_pages_restorable] ex_snapshot by simp
  note RestoreDirtyPages_ok [OF restore_dirty_pages_outcome this, unfolded heap_proc_simps]
  moreover have "(\<lambda>a. if a \<in> saved_area [ex_location] then ex_snap a else snap_hole a) = ex_snap"
    by (auto simp: fun_eq_iff saved_area_def ex_location_def snap_hole_def)
  ultimately show ?thesis by simp
qed

text \<open>The system when \<open>Restore\<close> has stopped it, has restored it, and has continued it.\<close>

definition ex_stopped2 :: machine where
  "ex_stopped2 = continued 2 (continued 1 ex_before)"

definition ex_controller2 :: "machine controller" where
  "ex_controller2 = ex_controller1\<lparr>sys := two_tasks False False
     (continued 2 (continued 1 (ex_stopped2\<lparr>mc_proc := heap_proc ex_snap,
        mc_regs := (mc_regs ex_stopped2)(1 := ex_regs, 2 := ex_regs)\<rparr>)))\<rparr>"

lemma ex_stopped2_proc: "mc_proc ex_stopped2 = heap_proc snap_hole"
  by (simp add: ex_stopped2_def continued_def heap_machine_def snap_hole_def)

lemma ex_restore_layout:
  "restore_layout ex_ops ex_saved (two_tasks True True ex_stopped2) = (Inr (), two_tasks True True ex_stopped2)"
proof -
  have "ProgramBreakChanged (heap_proc snap_hole) [ex_location] = Inr False"
    by (simp add: ProgramBreakChanged_def heap_newMemoryLocations ex_heap)
      (simp add: heap_location_def ex_location_def)
  moreover have "NumMemoryLocationsChanged (heap_proc snap_hole) [ex_location] = Inr False"
    by (simp add: NumMemoryLocationsChanged_def heap_newMemoryLocations)
  moreover have "memoryLocations ex_saved = [ex_location]" by (simp add: ex_saved_def)
  ultimately show ?thesis
    by (simp add: restore_layout_def bindS_def wrapS_def check_proc_def ex_stopped2_proc)
qed

lemma ex_restore_contents:
  "restore_contents ex_ops ex_saved (two_tasks True True ex_stopped2) =
     (Inr (), two_tasks True True (ex_stopped2\<lparr>mc_proc := heap_proc ex_snap,
        mc_regs := (mc_regs ex_stopped2)(1 := ex_regs, 2 := ex_regs)\<rparr>))"
proof -
  have "memoryLocations ex_saved = [ex_location]" "registers ex_saved = [(1, ex_regs), (2, ex_regs)]"
    by (simp_all add: ex_saved_def)
  then show ?thesis
    by (simp add: restore_contents_def bindS_def wrapS_def restore_pages_def ex_stopped2_proc
        ex_restore_dirty_pages RestoreRegs_def ex_set_regs)
qed

lemma ex_Restore: "Restore ex_ops ex_controller1 = (Inr (), ex_controller2)"
proof -
  let ?c = "ex_controller1\<lparr>sys := two_tasks True True ex_stopped2\<rparr>"
  let ?s = "two_tasks True True (ex_stopped2\<lparr>mc_proc := heap_proc ex_snap,
        mc_regs := (mc_regs ex_stopped2)(1 := ex_regs, 2 := ex_regs)\<rparr>)"
  have stop: "Stop ex_ops ex_controller1 = (Inr (), ?c)"
    by (rule ex_Stop) (simp_all add: ex_controller1_def ex_controller_def ex_stopped2_def)
  have cps: "checkpoints ?c = [ex_saved]" by (simp add: ex_controller1_def)
  have layout: "on_sys (restore_layout ex_ops ex_saved) ?c = (Inr (), ?c)"
    by (simp add: on_sys_def ex_restore_layout)
  have contents: "on_sys (restore_contents ex_ops ex_saved) ?c = (Inr (), ?c\<lparr>sys := ?s\<rparr>)"
    by (simp add: on_sys_def ex_restore_contents)
  have cont: "Continue_all ex_ops (?c\<lparr>sys := ?s\<rparr>) = (Inr (), ex_controller2)"
    by (subst ex_Continue_all) (simp_all add: ex_controller_def ex_controller1_def ex_controller2_def)
  show ?thesis
    by (simp only: Restore_def bindS_def stop cps layout contents cont wrapS_def prod.case sum.case list.case
        wrap_res.simps)
qed

section \<open>Properties\<close>

text \<open>
  C26: A checkpoint holds what the process was when it was stopped: if \<open>TakeCheckpoint\<close> returns no error,
  exactly one checkpoint is appended, and it holds each thread's registers, the locations of the memory
  map, and the memory of every writable one byte for byte, all as they were at the moment every thread
  was stopped.
\<close>

theorem TakeCheckpoint_saves:
  assumes "regs_faithful ops R" and "tasks_ok (sys c)" and "TakeCheckpoint ops c = (Inr (), c')"
  shows "\<exists>st ms. checkpoints c' = checkpoints c @ [st] \<and> traceTasks c' = traceTasks c \<and>
     (\<forall>tid \<in> set (traceTasks c). parked (checkpoint_moment ops c) tid) \<and>
     registers st = map (\<lambda>tid. (tid, R (world (checkpoint_moment ops c)) tid)) (traceTasks c) \<and>
     newMemoryLocations (p_proc ops (c_pid c) (world (checkpoint_moment ops c))) = Inr ms \<and>
     list_all2 same_layout ms (memoryLocations st) \<and>
     (\<forall>m \<in> set (memoryLocations st). writable m \<longrightarrow>
        snapshot_of (mem_bytes (p_proc ops (c_pid c) (world (checkpoint_moment ops c)))) m)"
proof -
  from TakeCheckpoint_Inr [OF assms] obtain st where st: "taken ops R c st"
    and c': "c' = c\<lparr>sys := sys c', checkpoints := checkpoints c @ [st]\<rparr>" by blast
  have "checkpoints c' = checkpoints c @ [st]" "traceTasks c' = traceTasks c"
    by (subst c', simp)+
  moreover from st obtain ms where "newMemoryLocations (p_proc ops (c_pid c) (world (checkpoint_moment ops c))) = Inr ms"
    "list_all2 same_layout ms (memoryLocations st)" "s_pid st = c_pid c" by (auto simp: taken_def)
  ultimately show ?thesis
    using st by (intro exI [of _ st] exI [of _ ms]) (simp add: taken_def checkpoint_of_def)
qed

lemma machine_laws: "process_laws ex_ops mc_regs"
  by (auto simp: process_laws_def regs_faithful_def machine_ops_def)

lemma ex_tasks_ok: "tasks_ok (sys ex_controller)" "tasks_ok (sys ex_controller1)"
  by (simp_all add: ex_controller_def ex_controller1_def two_tasks_ok)

theorem TakeCheckpoint_saves_witness:
  "TakeCheckpoint ex_ops ex_controller = (Inr (), ex_controller1) \<and>
   (\<exists>st. checkpoints ex_controller1 = [st] \<and> length (registers st) = 2)"
proof -
  have "regs_faithful ex_ops mc_regs" using machine_laws by (simp add: process_laws_def)
  from TakeCheckpoint_saves [OF this ex_tasks_ok(1) ex_TakeCheckpoint] obtain st where
    "checkpoints ex_controller1 = checkpoints ex_controller @ [st]"
    "length (registers st) = length (traceTasks ex_controller)" by force
  then show ?thesis using ex_TakeCheckpoint by (simp add: ex_controller_def)
qed

lemma Restore_Inr:
  assumes "Restore ops c = (Inr (), c')" and "checkpoints c = st # rest" and "tasks_ok (sys c)"
    and "fst ` set (registers st) \<subseteq> set (traceTasks c)" and "registers st \<noteq> []"
  shows "\<exists>s3. restore_contents ops st (restore_moment ops c st) = (Inr (), s3) \<and>
     Continue_all ops (c\<lparr>sys := s3\<rparr>) = (Inr (), c') \<and>
     (\<forall>tid \<in> fst ` set (registers st). parked (restore_moment ops c st) tid)"
proof -
  from assms(1) obtain c1 where stop: "Stop ops c = (Inr (), c1)"
    and rest: "(case checkpoints c1 of
       [] \<Rightarrow> (Inl (Returned (Errorf ''no checkpoints to restore'')), c1)
     | st # _ \<Rightarrow>
         bindS (on_sys (restore_layout ops st)) (\<lambda>_.
         bindS (on_sys (restore_contents ops st)) (\<lambda>_.
         Continue_all ops)) c1) = (Inr (), c')"
    unfolding Restore_def by (auto simp: bindS_Inr_iff wrapS_Inr_iff)
  from Stop_parks [OF stop assms(3)] have c1: "c1 = c\<lparr>sys := sys c1\<rparr>"
    "\<forall>tid \<in> set (traceTasks c). parked (sys c1) tid" by simp_all
  have "checkpoints c1 = st # rest" by (subst c1(1)) (simp add: assms(2))
  with rest obtain c2 c3 where l: "on_sys (restore_layout ops st) c1 = (Inr (), c2)"
    and k: "on_sys (restore_contents ops st) c2 = (Inr (), c3)" and cont: "Continue_all ops c3 = (Inr (), c')"
    by (auto simp: bindS_Inr_iff)
  obtain s2 where l2: "restore_layout ops st (sys c1) = (Inr (), s2)" and c2: "c2 = c1\<lparr>sys := s2\<rparr>"
    using l by (rule on_sys_Inr)
  obtain s3 where k3: "restore_contents ops st (sys c2) = (Inr (), s3)" and c3: "c3 = c2\<lparr>sys := s3\<rparr>"
    using k by (rule on_sys_Inr)
  have moment: "restore_moment ops c st = s2"
    by (simp add: restore_moment_def bindS_def stop l c2)
  obtain tid r rs where regs: "registers st = (tid, r) # rs" using assms(5) by (cases "registers st") auto
  have park: "parked (sys c1) k" if "k \<in> fst ` set (registers st)" for k using c1(2) assms(4) that by blast
  have "\<forall>k \<in> fst ` set (registers st). parked s2 k"
    using restore_layout_parked [OF l2 regs] park regs by simp
  moreover have "c3 = c\<lparr>sys := s3\<rparr>" by (simp add: c3 c2) (subst c1(1), simp)
  ultimately show ?thesis using k3 cont by (auto simp: moment c2)
qed

text \<open>
  C1: Taking a checkpoint and restoring it brings the process back: whatever happened between a
  successful \<open>TakeCheckpoint\<close> and a successful \<open>Restore\<close>, right before the threads are continued every
  thread has exactly the registers it had when it was stopped for the checkpoint, and memory is the
  memory of that moment on every writable location of the checkpoint and untouched elsewhere. Assumed of
  the kernel: the documented behaviour of the register and memory accesses, and, when the pages are
  restored, that the saved locations are mapped and their soft-dirty bits are sound.
\<close>

theorem checkpoint_restore_roundtrip:
  assumes "process_laws ops R" and "tasks_ok (sys c0)" and "checkpoints c0 = []"
    and "distinct (traceTasks c0)" and "traceTasks c0 \<noteq> []"
    and "TakeCheckpoint ops c0 = (Inr (), c1)"
    and "checkpoints c2 = checkpoints c1" and "st = hd (checkpoints c2)"
    and "tasks_ok (sys c2)" and "set (traceTasks c0) \<subseteq> set (traceTasks c2)"
    and "Restore ops c2 = (Inr (), c3)"
    and "pages_restorable (p_pagesize ops) (mem_bytes (p_proc ops (c_pid c0) (world (checkpoint_moment ops c0))))
           (p_proc ops (c_pid c0) (world (restore_moment ops c2 st))) (memoryLocations st)"
  shows "\<exists>s3. restore_contents ops st (restore_moment ops c2 st) = (Inr (), s3) \<and>
     Continue_all ops (c2\<lparr>sys := s3\<rparr>) = (Inr (), c3) \<and>
     (\<forall>tid \<in> set (traceTasks c0). R (world s3) tid = R (world (checkpoint_moment ops c0)) tid) \<and>
     mem_bytes (p_proc ops (c_pid c0) (world s3)) =
       (\<lambda>a. if a \<in> saved_area (memoryLocations st)
            then mem_bytes (p_proc ops (c_pid c0) (world (checkpoint_moment ops c0))) a
            else mem_bytes (p_proc ops (c_pid c0) (world (restore_moment ops c2 st))) a)"
proof -
  let ?cp = "checkpoint_moment ops c0"
  have faith: "regs_faithful ops R" using assms(1) by (simp add: process_laws_def)
  from TakeCheckpoint_Inr [OF faith assms(2,6)] obtain st' where st': "taken ops R c0 st'"
    and c1: "c1 = c0\<lparr>sys := sys c1, checkpoints := checkpoints c0 @ [st']\<rparr>" by blast
  have "checkpoints c1 = [st']" by (subst c1) (simp add: assms(3))
  with assms(7,8) have cps: "checkpoints c2 = st # []" and "st' = st" by simp_all
  with st' have regs: "registers st = map (\<lambda>tid. (tid, R (world ?cp) tid)) (traceTasks c0)"
    and pid: "s_pid st = c_pid c0"
    and snap: "\<forall>m \<in> set (memoryLocations st). writable m \<longrightarrow>
      snapshot_of (mem_bytes (p_proc ops (c_pid c0) (world ?cp))) m"
    unfolding taken_def checkpoint_of_def by metis+
  have keys: "fst ` set (registers st) = set (traceTasks c0)" and dist: "distinct (map fst (registers st))"
    using assms(4) by (simp_all add: regs image_image comp_def)
  have lookup: "map_of (registers st) tid = Some (R (world ?cp) tid)" if "tid \<in> set (traceTasks c0)" for tid
    using that by (simp add: regs map_of_map_restrict)
  have "registers st \<noteq> []" using assms(5) regs by simp
  with Restore_Inr [OF assms(11) cps assms(9)] assms(10) keys obtain s3 where
    s3: "restore_contents ops st (restore_moment ops c2 st) = (Inr (), s3)"
      "Continue_all ops (c2\<lparr>sys := s3\<rparr>) = (Inr (), c3)" and
    park: "\<forall>tid \<in> fst ` set (registers st). parked (restore_moment ops c2 st) tid" by auto
  from restore_contents_Inr [OF s3(1) assms(1) assms(12) [folded pid] snap [folded pid] park dist]
  show ?thesis using s3 lookup by (auto simp: pid)
qed

theorem checkpoint_restore_roundtrip_witness:
  "\<exists>s3. Continue_all ex_ops (ex_controller1\<lparr>sys := s3\<rparr>) = (Inr (), ex_controller2) \<and>
     mem_bytes (mc_proc (world (sys ex_controller1))) 25 = Some 0 \<and>
     mem_bytes (mc_proc (world s3)) 25 = Some 25 \<and>
     Rax (mc_regs (world (sys ex_controller1)) 2) = 0 \<and> Rax (mc_regs (world s3) 2) = 1"
proof -
  have tt: "traceTasks ex_controller = [1, 2]" "traceTasks ex_controller1 = [1, 2]" "c_pid ex_controller = 1"
    "checkpoints ex_controller = []" "checkpoints ex_controller1 = [ex_saved]"
    by (simp_all add: ex_controller_def ex_controller1_def)
  have cp: "checkpoint_moment ex_ops ex_controller = two_tasks True True ex_before"
    by (simp add: checkpoint_moment_def bindS_def ex_Stop ex_State ex_controller_def)
  have rm: "restore_moment ex_ops ex_controller1 ex_saved = two_tasks True True ex_stopped2"
    by (simp add: restore_moment_def bindS_def ex_Stop on_sys_def ex_restore_layout ex_controller1_def
        ex_controller_def ex_stopped2_def [symmetric])
  have before: "mc_proc ex_before = heap_proc ex_snap" by (simp add: heap_machine_def)
  have pr: "pages_restorable (p_pagesize ex_ops)
      (mem_bytes (p_proc ex_ops (c_pid ex_controller) (world (checkpoint_moment ex_ops ex_controller))))
      (p_proc ex_ops (c_pid ex_controller) (world (restore_moment ex_ops ex_controller1 ex_saved)))
      (memoryLocations ex_saved)"
    using ex_pages_restorable by (simp add: cp rm before ex_stopped2_proc) (simp add: ex_saved_def)
  have hyps: "distinct (traceTasks ex_controller)" "traceTasks ex_controller \<noteq> []"
    "ex_saved = hd (checkpoints ex_controller1)" "set (traceTasks ex_controller) \<subseteq> set (traceTasks ex_controller1)"
    by (simp_all add: tt)
  from checkpoint_restore_roundtrip [OF machine_laws ex_tasks_ok(1) tt(4) hyps(1,2) ex_TakeCheckpoint refl hyps(3)
      ex_tasks_ok(2) hyps(4) ex_Restore pr] obtain s3 where
    cont: "Continue_all ex_ops (ex_controller1\<lparr>sys := s3\<rparr>) = (Inr (), ex_controller2)" and
    regs: "\<forall>tid \<in> set (traceTasks ex_controller).
       mc_regs (world s3) tid = mc_regs (world (checkpoint_moment ex_ops ex_controller)) tid" and
    mem: "mem_bytes (p_proc ex_ops (c_pid ex_controller) (world s3)) =
       (\<lambda>a. if a \<in> saved_area (memoryLocations ex_saved)
            then mem_bytes (p_proc ex_ops (c_pid ex_controller) (world (checkpoint_moment ex_ops ex_controller))) a
            else mem_bytes (p_proc ex_ops (c_pid ex_controller)
              (world (restore_moment ex_ops ex_controller1 ex_saved))) a)" by blast
  have "25 \<in> saved_area (memoryLocations ex_saved)" by (simp add: saved_area_def ex_saved_def ex_location_def)
  with mem have "mem_bytes (mc_proc (world s3)) 25 = Some 25" by (simp add: cp before ex_snap_def)
  moreover have "Rax (mc_regs (world s3) 2) = 1" using regs by (simp add: tt cp heap_machine_def ex_regs_def)
  moreover have "mem_bytes (mc_proc (world (sys ex_controller1))) 25 = Some 0"
    "Rax (mc_regs (world (sys ex_controller1)) 2) = 0"
    by (simp_all add: ex_controller1_def continued_def)
  ultimately show ?thesis using cont by blast
qed

text \<open>
  A restoration that fails leaves the process stopped: without a checkpoint \<open>Restore\<close> still stops
  every thread, returns its error, and continues none of them; each thread's goroutine is left with its
  stop announced, and nothing of the controller but the tasks and the world changed.
\<close>

theorem Restore_without_checkpoint_leaves_stopped:
  assumes "checkpoints c = []" and "tasks_ok (sys c)" and "Stop ops c = (Inr (), c1)"
  shows "Restore ops c = (Inl (Returned (Errorf ''no checkpoints to restore'')), c1) \<and>
     (\<forall>tid \<in> set (traceTasks c). parked (sys c1) tid) \<and> c1 = c\<lparr>sys := sys c1\<rparr>"
proof -
  from Stop_parks [OF assms(3,2)] have c1: "c1 = c\<lparr>sys := sys c1\<rparr>"
    "\<forall>tid \<in> set (traceTasks c). parked (sys c1) tid" by simp_all
  have "checkpoints c1 = []" by (subst c1(1)) (simp add: assms(1))
  then show ?thesis using c1 assms(3) by (simp add: Restore_def bindS_def wrapS_def)
qed

theorem Restore_without_checkpoint_leaves_stopped_witness:
  "\<exists>c1. Restore ex_ops ex_controller = (Inl (Returned (Errorf ''no checkpoints to restore'')), c1) \<and>
     parked (sys c1) 2"
proof -
  have stop: "Stop ex_ops ex_controller = (Inr (), ex_controller\<lparr>sys := two_tasks True True ex_before\<rparr>)"
    by (rule ex_Stop) (simp_all add: ex_controller_def)
  have "checkpoints ex_controller = []" "traceTasks ex_controller = [1, 2]" by (simp_all add: ex_controller_def)
  with Restore_without_checkpoint_leaves_stopped [OF _ ex_tasks_ok(1) stop] show ?thesis by auto
qed

section \<open>The stream of messages\<close>

text \<open>
  The reading goroutine and the controller as they run concurrently: lines the process has yet to
  write, the message the goroutine is sending, the one place of the channel, and what the controller
  has received.
\<close>

record stream =
  s_lines :: "string list"
  s_sending :: "message option"
  s_chan :: "message option"
  s_received :: "message list"

inductive stream_step :: "(string \<Rightarrow> message option) \<Rightarrow> stream \<Rightarrow> stream \<Rightarrow> bool" for unmarshal where
  stream_read: "\<lbrakk> s_sending s = None; s_lines s = l # ls \<rbrakk> \<Longrightarrow>
     stream_step unmarshal s (s\<lparr>s_lines := ls, s_sending := line_message unmarshal l\<rparr>)"
| stream_send: "\<lbrakk> s_sending s = Some m; s_chan s = None \<rbrakk> \<Longrightarrow>
     stream_step unmarshal s (s\<lparr>s_sending := None, s_chan := Some m\<rparr>)"
| stream_receive: "s_chan s = Some m \<Longrightarrow>
     stream_step unmarshal s (s\<lparr>s_chan := None, s_received := s_received s @ [m]\<rparr>)"

definition wanted :: "(string \<Rightarrow> message option) \<Rightarrow> string list \<Rightarrow> message list" where
  "wanted unmarshal ls = List.map_filter (line_message unmarshal) ls"

lemma wanted_simps [simp]:
  "wanted u [] = []"
  "wanted u (l # ls) = (case line_message u l of None \<Rightarrow> wanted u ls | Some m \<Rightarrow> m # wanted u ls)"
  by (simp_all add: wanted_def map_filter_simps split: option.split)

fun of_option :: "'a option \<Rightarrow> 'a list" where
  "of_option None = []"
| "of_option (Some x) = [x]"

definition stream_inv :: "(string \<Rightarrow> message option) \<Rightarrow> string list \<Rightarrow> stream \<Rightarrow> bool" where
  "stream_inv u ls s \<longleftrightarrow>
     s_received s @ of_option (s_chan s) @ of_option (s_sending s) @ wanted u (s_lines s) = wanted u ls"

definition stream_init :: "string list \<Rightarrow> stream \<Rightarrow> bool" where
  "stream_init ls s \<longleftrightarrow> s = \<lparr>s_lines = ls, s_sending = None, s_chan = None, s_received = []\<rparr>"

interpretation messages: guarded_system "stream_init ls" "stream_step u" "stream_inv u ls" for u ls
proof unfold_locales
  show "\<And>s. stream_init ls s \<Longrightarrow> stream_inv u ls s" by (simp add: stream_init_def stream_inv_def)
next
  fix s t
  assume "stream_inv u ls s" and "stream_step u s t"
  then show "stream_inv u ls t"
    by (cases rule: stream_step.cases [OF \<open>stream_step u s t\<close>])
      (auto simp: stream_inv_def split: option.splits)
qed

text \<open>
  C18: No message of the process is lost, duplicated or reordered on its way through the reading
  goroutine and the channel: however goroutine and controller interleave, what the controller has
  received is a prefix of the messages the lines stand for (less the undecodable lines and those of type
  \<open>info\<close> and \<open>log\<close>), and when neither of them can move any more it has received them all.
\<close>

theorem messages_arrive_in_order:
  assumes "reach (stream_init ls) (stream_step u) s"
  shows "(\<exists>rest. wanted u ls = s_received s @ rest) \<and>
     ((\<nexists>t. stream_step u s t) \<longrightarrow> s_received s = wanted u ls)"
proof -
  from messages.reach_inv [OF assms] have inv: "stream_inv u ls s" .
  have "s_received s = wanted u ls" if stuck: "\<nexists>t. stream_step u s t"
  proof -
    have "s_chan s = None" using stuck stream_receive by (cases "s_chan s") blast+
    moreover from this have "s_sending s = None" using stuck stream_send by (cases "s_sending s") blast+
    moreover from this have "s_lines s = []" using stuck stream_read by (cases "s_lines s") blast+
    ultimately show ?thesis using inv by (simp add: stream_inv_def)
  qed
  with inv show ?thesis unfolding stream_inv_def by metis
qed

text \<open>A process whose output is a list of lines, as the concrete world of the witnesses.\<close>

definition line_codec :: "string \<Rightarrow> message option" where
  "line_codec l = (if l = [] then None else Some \<lparr>msg_type = l, msg_data = JNull\<rparr>)"

theorem messages_arrive_in_order_witness:
  "\<exists>s. reach (stream_init [''log'', ''started'']) (stream_step line_codec) s \<and>
     s_received s = wanted line_codec [''log'', ''started''] \<and> s_received s \<noteq> []"
proof -
  let ?m = "\<lparr>msg_type = ''started'', msg_data = JNull\<rparr>"
  let ?s = "\<lambda>ls snd ch rec. \<lparr>s_lines = ls, s_sending = snd, s_chan = ch, s_received = rec\<rparr>"
  have codec: "line_message line_codec ''log'' = None" "line_message line_codec ''started'' = Some ?m"
    by (simp_all add: line_message_def line_codec_def ignored_def)
  have "reach (stream_init [''log'', ''started'']) (stream_step line_codec) (?s [''log'', ''started''] None None [])"
    by (rule reach_init) (simp add: stream_init_def)
  then have "reach (stream_init [''log'', ''started'']) (stream_step line_codec) (?s [''started''] None None [])"
    by (rule reach_step) (use stream_read [where unmarshal = line_codec and s = "?s [''log'', ''started''] None None []"] codec in simp)
  then have "reach (stream_init [''log'', ''started'']) (stream_step line_codec) (?s [] (Some ?m) None [])"
    by (rule reach_step) (use stream_read [where unmarshal = line_codec and s = "?s [''started''] None None []"] codec in simp)
  then have "reach (stream_init [''log'', ''started'']) (stream_step line_codec) (?s [] None (Some ?m) [])"
    by (rule reach_step) (use stream_send [where unmarshal = line_codec and s = "?s [] (Some ?m) None []"] in simp)
  then have r: "reach (stream_init [''log'', ''started'']) (stream_step line_codec) (?s [] None None [?m])"
    by (rule reach_step) (use stream_receive [where unmarshal = line_codec and s = "?s [] None (Some ?m) []"] in simp)
  have "\<nexists>t. stream_step line_codec (?s [] None None [?m]) t" by (auto elim: stream_step.cases)
  with messages_arrive_in_order [OF r] have "[?m] = wanted line_codec [''log'', ''started'']" by (simp del: wanted_simps)
  then have "s_received (?s [] None None [?m]) = wanted line_codec [''log'', ''started'']"
    by (simp del: wanted_simps)
  moreover have "s_received (?s [] None None [?m]) \<noteq> []" by simp
  ultimately show ?thesis using r by blast
qed

text \<open>
  A process whose pending output, as the controller will read it, is a list of lines.
\<close>

definition output_is :: "('w, 'z) ctrl_ops_scheme \<Rightarrow> ('w \<Rightarrow> string list) \<Rightarrow> bool" where
  "output_is ops out \<longleftrightarrow>
     (\<forall>w l ls. out w = l # ls \<longrightarrow> (\<exists>w'. c_read_line ops w = (Inr l, w') \<and> out w' = ls))"

lemma read_message_wanted:
  assumes law: "output_is ops out"
  shows "\<lbrakk> wanted (c_unmarshal ops) (out w) = m # ms; length (out w) \<le> n \<rbrakk> \<Longrightarrow>
     \<exists>w'. read_message ops n w = (Inr m, w') \<and> wanted (c_unmarshal ops) (out w') = ms \<and> length (out w') < length (out w)"
proof (induction "out w" arbitrary: w n)
  case Nil
  then show ?case by simp
next
  case (Cons l ls)
  then obtain k where n: "n = Suc k" by (cases n) auto
  obtain w1 where rd: "c_read_line ops w = (Inr l, w1)" and out1: "ls = out w1"
    using law Cons.hyps(2) by (auto simp: output_is_def) metis
  have tr: "tryS (c_read_line ops) w = (Inr (Inr l), w1)" by (simp add: tryS_def rd)
  show ?case
  proof (cases "line_message (c_unmarshal ops) l")
    case None
    with Cons.prems Cons.hyps(2) [symmetric] have "wanted (c_unmarshal ops) (out w1) = m # ms" "length (out w1) \<le> k"
      by (simp_all add: out1 n)
    from Cons.hyps(1) [OF out1 this] show ?thesis
      using None tr Cons.hyps(2) [symmetric] by (auto simp: n bindS_def out1)
  next
    case (Some m')
    with Cons.prems Cons.hyps(2) [symmetric] show ?thesis by (auto simp: n bindS_def tr out1)
  qed
qed

lemma await_message_first:
  assumes law: "output_is ops out"
  shows "\<lbrakk> wanted (c_unmarshal ops) (out (world (sys c))) = pre @ m # post;
     \<forall>x \<in> set pre. msg_type x \<noteq> ty; msg_type m = ty; has_streams c;
     length (out (world (sys c))) \<le> p_fuel ops; length pre < n \<rbrakk> \<Longrightarrow>
     \<exists>w'. await_message ops n ty c = (Inr m, c\<lparr>sys := (sys c)\<lparr>world := w'\<rparr>\<rparr>) \<and>
       wanted (c_unmarshal ops) (out w') = post"
proof (induction pre arbitrary: c n)
  case Nil
  then obtain k where n: "n = Suc k" by (cases n) auto
  from read_message_wanted [OF law _ Nil.prems(5), of m post] Nil.prems(1) obtain w' where
    w': "read_message ops (p_fuel ops) (world (sys c)) = (Inr m, w')" "wanted (c_unmarshal ops) (out w') = post"
    by auto
  then show ?case
    using Nil.prems by (auto simp: n bindS_def next_message_def on_world_def on_sys_def in_world_def)
next
  case (Cons x pre)
  then obtain k where n: "n = Suc k" by (cases n) auto
  from read_message_wanted [OF law _ Cons.prems(5), of x "pre @ m # post"] Cons.prems(1) obtain w' where
    w': "read_message ops (p_fuel ops) (world (sys c)) = (Inr x, w')"
    "wanted (c_unmarshal ops) (out w') = pre @ m # post" "length (out w') < length (out (world (sys c)))"
    by auto
  let ?c = "c\<lparr>sys := (sys c)\<lparr>world := w'\<rparr>\<rparr>"
  from Cons.IH [of ?c k] w' Cons.prems n obtain w'' where
    "await_message ops k ty ?c = (Inr m, ?c\<lparr>sys := (sys ?c)\<lparr>world := w''\<rparr>\<rparr>)"
    "wanted (c_unmarshal ops) (out w'') = post" by auto
  then show ?case
    using w'(1) Cons.prems by (auto simp: n bindS_def next_message_def on_world_def on_sys_def in_world_def)
qed


text \<open>Requests: the line that is written, and the answer that is awaited.\<close>

lemma write_then_await:
  assumes law: "output_is ops out" and streams: "has_streams c"
    and "c_write ops line (world (sys c)) = (Inr (), w1)"
    and "wanted (c_unmarshal ops) (out w1) = pre @ m # post"
    and "\<forall>x \<in> set pre. msg_type x \<noteq> ty" and "msg_type m = ty"
    and "length (out w1) \<le> p_fuel ops" and "length pre < p_fuel ops"
  shows "\<exists>w2. bindS (write_stdin ops line) (\<lambda>_. AwaitMessage ops ty) c =
       (Inr m, c\<lparr>sys := (sys c)\<lparr>world := w2\<rparr>\<rparr>) \<and> wanted (c_unmarshal ops) (out w2) = post"
proof -
  let ?c = "c\<lparr>sys := (sys c)\<lparr>world := w1\<rparr>\<rparr>"
  have "write_stdin ops line c = (Inr (), ?c)"
    using assms(2,3) by (simp add: write_stdin_def on_world_def on_sys_def in_world_def)
  moreover from await_message_first [OF law, of ?c pre m post ty "p_fuel ops"] assms obtain w2 where
    "AwaitMessage ops ty ?c = (Inr m, ?c\<lparr>sys := (sys ?c)\<lparr>world := w2\<rparr>\<rparr>)"
    "wanted (c_unmarshal ops) (out w2) = post" by (auto simp: AwaitMessage_def)
  ultimately show ?thesis by (auto simp: bindS_def)
qed

text \<open>
  \<open>SendRequest\<close> writes the encoded request as one line and returns the data of the first message of
  type \<open>response\<close> that the process then sends, skipping every other message before it and leaving the
  messages after it to be read.
\<close>

theorem SendRequest_first_response:
  assumes "output_is ops out" and "has_streams c"
    and "c_marshal ops \<lparr>msg_type = ''request'', msg_data = request\<rparr> = Inr line"
    and "c_write ops (line @ [CHR 0x0A]) (world (sys c)) = (Inr (), w1)"
    and "wanted (c_unmarshal ops) (out w1) = pre @ m # post"
    and "\<forall>x \<in> set pre. msg_type x \<noteq> ''response''" and "msg_type m = ''response''"
    and "length (out w1) \<le> p_fuel ops" and "length pre < p_fuel ops"
  shows "\<exists>w2. SendRequest ops request c = (Inr (msg_data m), c\<lparr>sys := (sys c)\<lparr>world := w2\<rparr>\<rparr>) \<and>
     wanted (c_unmarshal ops) (out w2) = post"
proof -
  from write_then_await [OF assms(1,2,4-9)] obtain w2 where
    "bindS (write_stdin ops (line @ [CHR 0x0A])) (\<lambda>_. AwaitMessage ops ''response'') c =
       (Inr m, c\<lparr>sys := (sys c)\<lparr>world := w2\<rparr>\<rparr>)" "wanted (c_unmarshal ops) (out w2) = post" by blast
  then show ?thesis
    by (auto simp: SendRequest_def marshal_def assms(3) bindS_Inr_iff)
qed

text \<open>
  \<open>SendFunction\<close> reports exactly what the process answered: it returns no error when the first
  \<open>function_loaded\<close> message after the write carries \<open>true\<close>, and the error that the function failed to
  load when that message carries anything else.
\<close>

theorem SendFunction_reports_load:
  assumes "output_is ops out" and "has_streams c"
    and "c_marshal ops \<lparr>msg_type = ''function'', msg_data = JString function\<rparr> = Inr line"
    and "c_write ops (line @ [CHR 0x0A]) (world (sys c)) = (Inr (), w1)"
    and "wanted (c_unmarshal ops) (out w1) = pre @ m # post"
    and "\<forall>x \<in> set pre. msg_type x \<noteq> ''function_loaded''" and "msg_type m = ''function_loaded''"
    and "length (out w1) \<le> p_fuel ops" and "length pre < p_fuel ops"
  shows "fst (SendFunction ops function c) =
     (if msg_data m = JBool True then Inr () else Inl (Returned (Errorf ''function failed to load'')))"
proof -
  from write_then_await [OF assms(1,2,4-9)] obtain w2 where
    both: "bindS (write_stdin ops (line @ [CHR 0x0A])) (\<lambda>_. AwaitMessage ops ''function_loaded'') c =
       (Inr m, c\<lparr>sys := (sys c)\<lparr>world := w2\<rparr>\<rparr>)" by blast
  then obtain c1 where "write_stdin ops (line @ [CHR 0x0A]) c = (Inr (), c1)"
    "AwaitMessage ops ''function_loaded'' c1 = (Inr m, c\<lparr>sys := (sys c)\<lparr>world := w2\<rparr>\<rparr>)"
    by (auto simp: bindS_Inr_iff)
  then show ?thesis
    by (simp add: SendFunction_def marshal_def assms(3) bindS_def wrapS_def)
qed

text \<open>A process that answers from a list of lines.\<close>

definition line_ops :: "string list ctrl_ops" where
  "line_ops = \<lparr>
     k_ptrace = (\<lambda>_ _ _ _ w. (0, w)),
     k_getregs = (\<lambda>_ w. (Inl Blocked, w)), k_setregs = (\<lambda>_ _ w. (Inl Blocked, w)),
     k_peek = (\<lambda>_ _ _ w. (Inl Blocked, w)), k_poke = (\<lambda>_ _ _ w. (Inl Blocked, w)),
     k_singlestep = (\<lambda>_ w. (Inl Blocked, w)), k_cont = (\<lambda>_ _ w. (Inr (), w)),
     k_syscall = (\<lambda>_ _ w. (Inr (), w)), k_detach = (\<lambda>_ w. (Inr (), w)),
     k_wait4 = (\<lambda>_ w. (Inl Blocked, w)), k_tgkill = (\<lambda>_ _ _ w. (Inr (), w)),
     k_name = (\<lambda>_. Inr ''call''), k_copy = (\<lambda>_ w. (Inr (), w)),
     p_proc = (\<lambda>_ _. ex_proc), p_set_mem = (\<lambda>_ _ w. w),
     p_fd_names = (\<lambda>_ _. Inr (Inr [])), p_fdinfo_names = (\<lambda>_ _. Inr (Inr [])),
     p_fd_link = (\<lambda>_ _ _. Inr []), p_fd_info = (\<lambda>_ _ _. Inr []),
     p_prlimit = (\<lambda>_ _ _. (0, (0, 0))), p_clear_refs = (\<lambda>_ w. (Inr (), w)),
     p_open_clear_refs = (\<lambda>_ _. None), p_task_dir = (\<lambda>_ _. Inr []), p_pagesize = 8, p_fuel = 9,
     c_marshal = (\<lambda>m. Inr (msg_type m)),
     c_unmarshal = (\<lambda>l. Some (if l = ''true'' then \<lparr>msg_type = ''function_loaded'', msg_data = JBool True\<rparr>
       else \<lparr>msg_type = l, msg_data = JString l\<rparr>)),
     c_read_line = (\<lambda>w. case w of [] \<Rightarrow> (Inl Blocked, w) | l # ls \<Rightarrow> (Inr l, ls)),
     c_write = (\<lambda>_ w. (Inr (), w)), c_close_streams = (\<lambda>w. w)\<rparr>"

definition line_controller :: "string list \<Rightarrow> string list controller" where
  "line_controller ls = SetStreams (NewController ls)"

lemma line_fuel: "p_fuel line_ops = 9"
  by (simp add: line_ops_def)

lemma line_output: "output_is line_ops (\<lambda>w. w)"
  by (simp add: output_is_def line_ops_def)

lemma line_controller_simps [simp]:
  "has_streams (line_controller ls)" "world (sys (line_controller ls)) = ls"
  by (simp_all add: line_controller_def SetStreams_def NewController_def)

lemma line_wanted:
  "wanted (c_unmarshal line_ops) [''log'', ''true'', ''response'', ''true''] =
     [\<lparr>msg_type = ''function_loaded'', msg_data = JBool True\<rparr>, \<lparr>msg_type = ''response'', msg_data = JString ''response''\<rparr>,
      \<lparr>msg_type = ''function_loaded'', msg_data = JBool True\<rparr>]"
  by (simp add: line_message_def line_ops_def ignored_def)

theorem SendRequest_first_response_witness:
  "\<exists>w2. SendRequest line_ops JNull (line_controller [''log'', ''true'', ''response'', ''true'']) =
     (Inr (JString ''response''),
      (line_controller [''log'', ''true'', ''response'', ''true''])
        \<lparr>sys := (sys (line_controller [''log'', ''true'', ''response'', ''true'']))\<lparr>world := w2\<rparr>\<rparr>)"
proof -
  let ?ls = "[''log'', ''true'', ''response'', ''true'']"
  have m: "c_marshal line_ops \<lparr>msg_type = ''request'', msg_data = JNull\<rparr> = Inr ''request''"
    and w: "c_write line_ops (''request'' @ [CHR 0x0A]) (world (sys (line_controller ?ls))) = (Inr (), ?ls)"
    and n: "length ?ls \<le> p_fuel line_ops" by (simp_all add: line_ops_def)
  have "wanted (c_unmarshal line_ops) ?ls =
     [\<lparr>msg_type = ''function_loaded'', msg_data = JBool True\<rparr>] @
     \<lparr>msg_type = ''response'', msg_data = JString ''response''\<rparr> # [\<lparr>msg_type = ''function_loaded'', msg_data = JBool True\<rparr>]"
    using line_wanted by simp
  from SendRequest_first_response [OF line_output _ m w this _ _ n] show ?thesis
    by (auto simp: line_fuel)
qed

theorem SendFunction_reports_load_witness:
  "fst (SendFunction line_ops ''code'' (line_controller [''log'', ''true'', ''response'', ''true''])) = Inr ()"
proof -
  let ?ls = "[''log'', ''true'', ''response'', ''true'']"
  have m: "c_marshal line_ops \<lparr>msg_type = ''function'', msg_data = JString ''code''\<rparr> = Inr ''function''"
    and w: "c_write line_ops (''function'' @ [CHR 0x0A]) (world (sys (line_controller ?ls))) = (Inr (), ?ls)"
    and n: "length ?ls \<le> p_fuel line_ops" by (simp_all add: line_ops_def)
  have "wanted (c_unmarshal line_ops) ?ls =
     [] @ \<lparr>msg_type = ''function_loaded'', msg_data = JBool True\<rparr> #
     [\<lparr>msg_type = ''response'', msg_data = JString ''response''\<rparr>, \<lparr>msg_type = ''function_loaded'', msg_data = JBool True\<rparr>]"
    using line_wanted by simp
  from SendFunction_reports_load [OF line_output _ m w this _ _ n] show ?thesis
    by (simp add: line_fuel)
qed

text \<open>A process that starts at once can be activated.\<close>

lemma line_proc_simps:
  "p_proc line_ops = (\<lambda>_ _. ex_proc)" "p_fd_names line_ops = (\<lambda>_ _. Inr (Inr []))"
  "p_fdinfo_names line_ops = (\<lambda>_ _. Inr (Inr []))" "p_prlimit line_ops = (\<lambda>_ _ _. (0, (0, 0)))"
  "p_clear_refs line_ops = (\<lambda>_ w. (Inr (), w))" "p_open_clear_refs line_ops = (\<lambda>_ _. None)"
  "p_task_dir line_ops = (\<lambda>_ _. Inr [])" "mem_open ex_proc = None"
  by (simp_all add: line_ops_def ex_proc_def)

lemma ex_line_TakeCheckpoint:
  assumes "traceTasks c = []"
  shows "\<exists>c'. TakeCheckpoint line_ops c = (Inr (), c')"
proof -
  let ?st = "\<lparr>s_pid = c_pid c, registers = [], memoryLocations = [], fileDescriptors = [], rlimits = [(9, (0, 0)), (2, (0, 0)), (3, (0, 0))]\<rparr>"
  have mem: "newMemoryLocations ex_proc = Inr []"
    by (simp add: newMemoryLocations_def ex_proc_def scan_lines_def raw_lines_def)
  have stop: "replaceS msg (Stop line_ops) c = (Inr (), c)" for msg
    using assms by (simp add: replaceS_def Stop_def on_sys_def)
  have st: "State line_ops c = (Inr ?st, c)"
    using assms by (simp add: State_def wrapS_def on_sys_def NewState_def bindS_def line_proc_simps mem newFileDescriptors_def
        from_ext_def newRlimits_def resourceList_def prlimit_def)
  have pages: "save_pages_of line_ops ?st c = (Inr ?st, c)"
    by (simp add: save_pages_of_def SaveWritablePages_def line_proc_simps)
  have refs: "ClearMemRefs line_ops c = (Inr (), c)"
    by (simp add: ClearMemRefs_def line_proc_simps wrapS_def on_world_def on_sys_def in_world_def)
  have cont: "Continue_all line_ops (c\<lparr>checkpoints := x\<rparr>) = (Inr (), c\<lparr>checkpoints := x\<rparr>)" for x
    using assms by (simp add: Continue_all_def ContinueWith_def)
  show ?thesis
    unfolding TakeCheckpoint_def bindS_def stop st pages refs prod.case sum.case by (simp add: cont)
qed

lemma ex_Activate:
  "\<exists>c'. Activate line_ops ((line_controller [''started''])\<lparr>c_pid := 42\<rparr>) = (Inr (), c')"
proof -
  have a: "AwaitMessage line_ops ''started'' ((line_controller [''started''])\<lparr>c_pid := 42\<rparr>) =
      (Inr \<lparr>msg_type = ''started'', msg_data = JString ''started''\<rparr>, (line_controller [])\<lparr>c_pid := 42\<rparr>)"
    by (simp add: AwaitMessage_def line_fuel eval_nat_numeral next_message_def on_world_def on_sys_def in_world_def bindS_def tryS_def
        line_ops_def line_message_def ignored_def line_controller_def SetStreams_def NewController_def)
  let ?c = "(line_controller [])\<lparr>c_pid := 42, attached := True\<rparr>"
  have "traceTasks ?c = []" by (simp add: line_controller_def SetStreams_def NewController_def)
  then obtain c' where t: "TakeCheckpoint line_ops ?c = (Inr (), c')" using ex_line_TakeCheckpoint by blast
  have at: "Attach line_ops ((line_controller [])\<lparr>c_pid := 42\<rparr>) = (Inr (), ?c)"
    by (simp add: Attach_def bindS_def from_ext_def line_proc_simps)
  show ?thesis
    unfolding Activate_def bindS_def wrapS_def a at prod.case sum.case wrap_res.simps t by simp
qed

end
