(* ===== verification/Function_Doc.thy ===== *)
theory Function_Doc
  imports Controller_Core "HOL-Library.Char_ord"
begin

text \<open>
  \<open>invoker/types/types.go\<close>: the documents and messages of the invoker, the code of a function document
  (\<open>CodeString\<close>, with the base64 decoder of Go's standard library), and the response document
  (\<open>GenerateResponse\<close>). A value of type \<open>interface{}\<close> is a \<open>json\<close>.
\<close>

section \<open>Documents and messages\<close>

record action =
  a_name :: string
  a_path :: string
  a_version :: string

record user =
  u_api_key :: string
  u_limits :: json
  u_namespace :: string
  u_uuid :: string
  u_rights :: "json list"
  u_subject :: string

record invoker_name =
  n_instance :: int
  n_unique :: string
  n_memory :: string

record activation_message =
  am_action :: action
  am_id :: string
  am_blocking :: bool
  am_parameters :: json
  am_revision :: string
  am_controller :: string
  am_transaction :: "json list"
  am_user :: user

record completion_message =
  cm_activation :: string
  cm_invoker :: invoker_name
  cm_system_error :: bool
  cm_transaction :: "json list"

record annotation =
  an_key :: string
  an_value :: json

record response =
  r_activation :: string
  r_annotations :: "annotation list"
  r_name :: string
  r_namespace :: string
  r_result :: json
  r_status :: int
  r_start :: int
  r_end :: int
  r_duration :: int
  r_subject :: string
  r_entity :: string
  r_logs :: "json list"
  r_publish :: bool
  r_version :: string

record completion_response =
  cr_response :: response
  cr_transaction :: "json list"

record activation_doc =
  ad_id :: string
  ad_revision :: string
  ad_updated :: int
  ad_response :: response

record limits =
  l_concurrency :: int
  l_logs :: int
  l_memory :: int
  l_timeout :: int

record executable =
  e_kind :: string
  e_code :: json

record function_doc =
  f_id :: string
  f_revision :: string
  f_name :: string
  f_namespace :: string
  f_exec :: executable
  f_binary :: bool
  f_limits :: limits
  f_parameters :: "json list"
  f_annotations :: "annotation list"
  f_entity :: string
  f_publish :: bool
  f_updated :: int
  f_version :: string

text \<open>The two readings of the clock are parameters.\<close>

definition GenerateResponse ::
  "int \<Rightarrow> int \<Rightarrow> activation_message \<Rightarrow> function_doc \<Rightarrow> json \<Rightarrow> response" where
  "GenerateResponse now1 now2 activationMessage function result =
     \<lparr>r_activation = am_id activationMessage, r_annotations = f_annotations function,
      r_name = f_name function, r_namespace = f_namespace function, r_result = result, r_status = 0,
      r_start = now1, r_end = now2 + 2, r_duration = 5, r_subject = u_subject (am_user activationMessage),
      r_entity = ''activation'', r_logs = [], r_publish = f_publish function,
      r_version = f_version function\<rparr>"

section \<open>Base64\<close>

definition char_nat :: "char \<Rightarrow> nat" where
  "char_nat c = of_char c"

text \<open>The value of a character of the standard alphabet.\<close>

definition b64_val :: "char \<Rightarrow> nat option" where
  "b64_val c =
     (let n = char_nat c in
      if 65 \<le> n \<and> n \<le> 90 then Some (n - 65)
      else if 97 \<le> n \<and> n \<le> 122 then Some (n - 71)
      else if 48 \<le> n \<and> n \<le> 57 then Some (n + 4)
      else if n = 43 then Some 62
      else if n = 47 then Some 63
      else None)"

definition corrupt :: "'a res" where
  "corrupt = Inl (Returned (Ext ''illegal base64 data''))"

definition byte1 :: "nat \<Rightarrow> nat \<Rightarrow> char" where "byte1 a b = char_of (a * 4 + b div 16)"
definition byte2 :: "nat \<Rightarrow> nat \<Rightarrow> char" where "byte2 b c = char_of (b mod 16 * 16 + c div 4)"
definition byte3 :: "nat \<Rightarrow> nat \<Rightarrow> char" where "byte3 c d = char_of (c mod 4 * 64 + d)"

text \<open>
  \<open>base64.StdEncoding.DecodeString\<close>: line breaks are skipped wherever they stand; a group of four may
  end in one or two padding characters, after which nothing may follow. The offset in the error is left
  out.
\<close>

fun b64_groups :: "string \<Rightarrow> string res" where
  "b64_groups [] = Inr []"
| "b64_groups (c1 # c2 # c3 # c4 # cs) =
     (case (b64_val c1, b64_val c2) of
        (Some a, Some b) \<Rightarrow>
          (case b64_val c3 of
             None \<Rightarrow> if c3 = CHR ''='' \<and> c4 = CHR ''='' \<and> cs = [] then Inr [byte1 a b] else corrupt
           | Some c \<Rightarrow>
               (case b64_val c4 of
                  None \<Rightarrow> if c4 = CHR ''='' \<and> cs = [] then Inr [byte1 a b, byte2 b c] else corrupt
                | Some d \<Rightarrow> bind_res (b64_groups cs) (\<lambda>bs. Inr (byte1 a b # byte2 b c # byte3 c d # bs))))
      | _ \<Rightarrow> corrupt)"
| "b64_groups _ = corrupt"

definition b64_decode :: "string \<Rightarrow> string res" where
  "b64_decode s = b64_groups (filter (\<lambda>c. c \<noteq> CHR 0x0A \<and> c \<noteq> CHR 0x0D) s)"

section \<open>The code of a function\<close>

definition replace_char :: "char \<Rightarrow> char \<Rightarrow> string \<Rightarrow> string" where
  "replace_char old new s = map (\<lambda>c. if c = old then new else c) s"

definition drop4 :: "string \<Rightarrow> string res" where
  "drop4 s = slice_res s 4 (int (length s))"

definition CodeString :: "function_doc \<Rightarrow> string res" where
  "CodeString f =
     (case e_code (f_exec f) of
        JString v \<Rightarrow> Inr v
      | JObject v \<Rightarrow>
          (case map_of v ''attachmentName'' of
             Some (JString attachmentString) \<Rightarrow>
               (if e_kind (f_exec f) = ''java''
                then bind_res (drop4 attachmentString) (\<lambda>b64url.
                     Inr (replace_char CHR ''_'' CHR ''/'' (replace_char CHR ''-'' CHR ''+'' b64url)))
                else bind_res (drop4 attachmentString) (\<lambda>b64code.
                     wrap_res ''could not decode function'' (b64_decode b64code)))
           | _ \<Rightarrow> Inl (Returned (Errorf ''attachment code was not string'')))
      | _ \<Rightarrow> Inl (Returned (Errorf ''function code not in expected type'')))"

section \<open>Encoding, for the round trip\<close>

text \<open>The encoder of the standard, with the last two letters of the alphabet as parameters.\<close>

definition b64_char :: "char \<Rightarrow> char \<Rightarrow> nat \<Rightarrow> char" where
  "b64_char c62 c63 n =
     (if n < 26 then char_of (n + 65) else if n < 52 then char_of (n + 71)
      else if n < 62 then char_of (n - 4) else if n = 62 then c62 else c63)"

fun b64_encode_with :: "char \<Rightarrow> char \<Rightarrow> string \<Rightarrow> string" where
  "b64_encode_with p q [] = []"
| "b64_encode_with p q [x] =
     (let x = char_nat x in
      [b64_char p q (x div 4), b64_char p q (x mod 4 * 16), CHR ''='', CHR ''=''])"
| "b64_encode_with p q [x, y] =
     (let x = char_nat x; y = char_nat y in
      [b64_char p q (x div 4), b64_char p q (x mod 4 * 16 + y div 16), b64_char p q (y mod 16 * 4), CHR ''=''])"
| "b64_encode_with p q (x # y # z # cs) =
     (let x = char_nat x; y = char_nat y; z = char_nat z in
      b64_char p q (x div 4) # b64_char p q (x mod 4 * 16 + y div 16) #
      b64_char p q (y mod 16 * 4 + z div 64) # b64_char p q (z mod 64) # b64_encode_with p q cs)"

definition b64_encode :: "string \<Rightarrow> string" where
  "b64_encode = b64_encode_with CHR ''+'' CHR ''/''"

definition b64url_encode :: "string \<Rightarrow> string" where
  "b64url_encode = b64_encode_with CHR ''-'' CHR ''_''"

lemma char_nat_less [simp]: "char_nat c < 256"
  by (simp add: char_nat_def)

lemma char_nat_char_of: "n < 256 \<Longrightarrow> char_nat (char_of n) = n"
  by (simp add: char_nat_def)

lemma char_of_char_nat [simp]: "char_of (char_nat c) = c"
  by (simp add: char_nat_def)

lemma b64_val_char: "n < 64 \<Longrightarrow> b64_val (b64_char CHR ''+'' CHR ''/'' n) = Some n"
proof -
  assume n: "n < 64"
  consider "n < 26" | "26 \<le> n" "n < 52" | "52 \<le> n" "n < 62" | "n = 62" | "n = 63" using n by linarith
  then show ?thesis
    by cases (auto simp: b64_val_def b64_char_def Let_def char_nat_char_of, simp_all add: char_nat_def)
qed

lemma b64_char_no_break:
  assumes "n < 64"
  shows "b64_char CHR ''+'' CHR ''/'' n \<noteq> CHR 0x0A" "b64_char CHR ''+'' CHR ''/'' n \<noteq> CHR 0x0D"
  using b64_val_char [OF assms] by (auto simp: b64_val_def char_nat_def)

lemma byte1_enc: "x < 256 \<Longrightarrow> y < 16 \<Longrightarrow> byte1 (x div 4) (x mod 4 * 16 + y) = char_of (x :: nat)"
  by (simp add: byte1_def)

lemma byte2_enc: "y < 256 \<Longrightarrow> z < 4 \<Longrightarrow> byte2 (x * 16 + y div 16) (y mod 16 * 4 + z) = char_of (y :: nat)"
  by (simp add: byte2_def)

lemma byte3_enc: "z < 256 \<Longrightarrow> byte3 (y * 4 + z div 64) (z mod 64) = char_of (z :: nat)"
  by (simp add: byte3_def)

lemma byte_parts:
  assumes "x < (256 :: nat)"
  shows "x div 4 < 64" "x mod 4 * 16 < 64" "x div 16 < 16" "x mod 16 * 4 < 64" "x div 64 < 4" "x mod 64 < 64"
proof -
  show "x div 4 < 64" "x div 16 < 16" "x div 64 < 4" using assms by (simp_all add: less_mult_imp_div_less)
  have "x mod 4 < 4" "x mod 16 < 16" by simp_all
  then show "x mod 4 * 16 < 64" "x mod 16 * 4 < 64" by linarith+
  show "x mod 64 < 64" by simp
qed

lemma byte_sums:
  assumes "x < (256 :: nat)" and "y < 256"
  shows "x mod 4 * 16 + y div 16 < 64" "x mod 16 * 4 + y div 64 < 64"
proof -
  have "x mod 4 < 4" "x mod 16 < 16" by simp_all
  with byte_parts(3,5) [OF assms(2)] show "x mod 4 * 16 + y div 16 < 64" "x mod 16 * 4 + y div 64 < 64"
    by linarith+
qed

lemmas b64_bounds = byte_parts byte_sums

lemma b64_val_pad: "b64_val CHR ''='' = None"
  by (simp add: b64_val_def char_nat_def)

lemma byte1_enc0: "x < 256 \<Longrightarrow> byte1 (x div 4) (x mod 4 * 16) = char_of (x :: nat)"
  using byte1_enc [of x 0] by simp

lemma byte2_enc0: "y < 256 \<Longrightarrow> byte2 (x * 16 + y div 16) (y mod 16 * 4) = char_of (y :: nat)"
  using byte2_enc [of y 0 x] by simp

lemma b64_groups_encode: "b64_groups (b64_encode bs) = Inr bs"
  unfolding b64_encode_def
proof (induction "CHR ''+''" "CHR ''/''" bs rule: b64_encode_with.induct)
  case 1
  then show ?case by simp
next
  case (2 x)
  then show ?case
    by (simp add: Let_def b64_val_char b64_bounds byte1_enc0 b64_val_pad)
next
  case (3 x y)
  then show ?case
    by (simp add: Let_def b64_val_char b64_bounds byte1_enc byte2_enc0 b64_val_pad)
next
  case (4 x y z cs)
  then show ?case
    by (simp add: Let_def b64_val_char b64_bounds byte1_enc byte2_enc byte3_enc)
qed

lemma b64_encode_with_chars:
  "c \<in> set (b64_encode_with p q bs) \<Longrightarrow> c = CHR ''='' \<or> (\<exists>n < 64. c = b64_char p q n)"
proof (induction p q bs rule: b64_encode_with.induct)
  case (4 p q x y z cs)
  have "char_nat x div 4 < 64" "char_nat x mod 4 * 16 + char_nat y div 16 < 64"
    "char_nat y mod 16 * 4 + char_nat z div 64 < 64" "char_nat z mod 64 < 64" by (simp_all add: b64_bounds)
  with 4 show ?case unfolding b64_encode_with.simps Let_def by (metis set_ConsD)
next
  case (2 p q x)
  have "char_nat x div 4 < 64" "char_nat x mod 4 * 16 < 64" by (simp_all add: b64_bounds)
  with 2 show ?case unfolding b64_encode_with.simps Let_def by (metis set_ConsD empty_iff empty_set)
next
  case (3 p q x y)
  have "char_nat x div 4 < 64" "char_nat x mod 4 * 16 + char_nat y div 16 < 64" "char_nat y mod 16 * 4 < 64"
    by (simp_all add: b64_bounds)
  with 3 show ?case unfolding b64_encode_with.simps Let_def by (metis set_ConsD empty_iff empty_set)
qed simp

lemma b64_decode_encode: "b64_decode (b64_encode bs) = Inr bs"
proof -
  have "c \<noteq> CHR 0x0A \<and> c \<noteq> CHR 0x0D" if "c \<in> set (b64_encode bs)" for c
    using b64_encode_with_chars [OF that [unfolded b64_encode_def]] b64_char_no_break by auto
  then have "filter (\<lambda>c. c \<noteq> CHR 0x0A \<and> c \<noteq> CHR 0x0D) (b64_encode bs) = b64_encode bs"
    by (simp add: filter_id_conv)
  then show ?thesis by (simp add: b64_decode_def b64_groups_encode)
qed

text \<open>Replacing the two letters turns the URL alphabet into the standard one.\<close>

definition std_char :: "char \<Rightarrow> char" where
  "std_char c = (let d = (if c = CHR ''-'' then CHR ''+'' else c) in if d = CHR ''_'' then CHR ''/'' else d)"

lemma replace_chars: "replace_char CHR ''_'' CHR ''/'' (replace_char CHR ''-'' CHR ''+'' s) = map std_char s"
  by (simp add: replace_char_def std_char_def)

lemma std_char_b64:
  assumes "n < 64"
  shows "std_char (b64_char CHR ''-'' CHR ''_'' n) = b64_char CHR ''+'' CHR ''/'' n"
proof -
  have "char_of (m :: nat) \<noteq> CHR ''-'' \<and> char_of m \<noteq> CHR ''_''" if "m < 256" "m \<noteq> 45" "m \<noteq> 95" for m
  proof -
    have "char_nat (char_of m) = m" using that(1) by (rule char_nat_char_of)
    moreover have "char_nat CHR ''-'' = 45" "char_nat CHR ''_'' = 95" by (simp_all add: char_nat_def)
    ultimately show ?thesis using that by metis
  qed
  then show ?thesis using assms by (auto simp: b64_char_def std_char_def)
qed

lemma std_b64url: "map std_char (b64url_encode bs) = b64_encode bs"
  unfolding b64url_encode_def b64_encode_def
proof (induction "CHR ''-''" "CHR ''_''" bs rule: b64_encode_with.induct)
  case 1
  then show ?case by simp
next
  case (2 x)
  show ?case by (simp add: Let_def std_char_b64 b64_bounds) (simp add: std_char_def)
next
  case (3 x y)
  show ?case by (simp add: Let_def std_char_b64 b64_bounds) (simp add: std_char_def)
next
  case (4 x y z cs)
  then show ?case by (simp add: Let_def std_char_b64 b64_bounds)
qed

section \<open>Properties\<close>

definition attachment_doc :: "string \<Rightarrow> string \<Rightarrow> function_doc \<Rightarrow> function_doc" where
  "attachment_doc kind att f =
     f\<lparr>f_exec := \<lparr>e_kind = kind, e_code = JObject [(''attachmentName'', JString att)]\<rparr>\<rparr>"

lemma drop4_prefix: "length p = 4 \<Longrightarrow> drop4 (p @ s) = Inr s"
  by (simp add: drop4_def slice_res_def)

text \<open>
  C36: The code of a function survives its way through the document: an attachment of four letters and
  the base64 encoding of some bytes is read back as exactly those bytes, and for \<open>java\<close>, where the
  encoding is the URL one and the worker wants base64, as the standard encoding of exactly those bytes.
\<close>

theorem CodeString_roundtrip:
  assumes "length prefix = 4"
  shows "(kind \<noteq> ''java'' \<longrightarrow>
        CodeString (attachment_doc kind (prefix @ b64_encode code) f) = Inr code) \<and>
     (\<exists>b64. CodeString (attachment_doc ''java'' (prefix @ b64url_encode code) f) = Inr b64 \<and>
        b64_decode b64 = Inr code)"
  using assms
  by (simp add: CodeString_def attachment_doc_def drop4_prefix b64_decode_encode replace_chars std_b64url)

definition ex_doc :: function_doc where
  "ex_doc = \<lparr>f_id = ''ns/echo'', f_revision = ''1'', f_name = ''echo'', f_namespace = ''ns'',
     f_exec = \<lparr>e_kind = ''python:3'', e_code = JString ''def main(req): return req''\<rparr>, f_binary = False,
     f_limits = \<lparr>l_concurrency = 1, l_logs = 1, l_memory = 1, l_timeout = 1\<rparr>, f_parameters = [],
     f_annotations = [], f_entity = ''action'', f_publish = False, f_updated = 0, f_version = ''1''\<rparr>"

theorem CodeString_roundtrip_witness:
  "CodeString (attachment_doc ''python'' (''mem:'' @ b64_encode ''hi!?'') ex_doc) = Inr ''hi!?''"
  using CodeString_roundtrip [of "''mem:''" "''python''" "''hi!?''" ex_doc] by simp

text \<open>
  An attachment name of fewer than four bytes takes the invoker down: the slice of \<open>CodeString\<close> is
  not guarded, and for every kind of runtime the call panics instead of returning an error.
\<close>

theorem CodeString_short_attachment_panics:
  assumes "length att < 4"
  shows "CodeString (attachment_doc kind att f) = Inl (Panicked ''slice bounds out of range'')"
  using assms by (simp add: CodeString_def attachment_doc_def drop4_def slice_res_def)

theorem CodeString_short_attachment_panics_witness:
  "CodeString (attachment_doc ''python'' ''mem'' ex_doc) = Inl (Panicked ''slice bounds out of range'')"
  by (rule CodeString_short_attachment_panics) simp

end
