(* ===== verification/Scheduler.thy ===== *)
theory Scheduler
  imports Function_Doc "HOL-Library.Multiset"
begin

text \<open>
  \<open>invoker/workerpool/scheduler.go\<close>: which worker runs which function. A worker's name is on one of the
  lists \<open>undeployed\<close>, \<open>deployed\<close> and \<open>running\<close>, which the mutex protects. The critical sections are
  functions on the scheduler; \<open>Run\<close> composes them for one caller, \<open>sched_step\<close> interleaves any number of
  callers and of the goroutines that decommission idle workers.
\<close>

section \<open>The scheduler and its critical sections\<close>

text \<open>\<open>sw_worker\<close> is whether the worker is not \<open>nil\<close> (it is in the tests of the scheduler).\<close>

record schedule_worker =
  sw_worker :: bool
  sw_runTime :: int
  sw_function :: string

record scheduler =
  sc_runtime :: string
  sc_workers :: "string \<Rightarrow> schedule_worker option"
  sc_names :: "string list"
  undeployed :: "string list"
  deployed :: "string list"
  running :: "string list"
  decommissionTime :: int
  watching :: "string list"

definition defaultDecommissionTime :: int where
  "defaultDecommissionTime = 20 * 10 ^ 9"

definition new_workers :: "string list \<Rightarrow> string \<Rightarrow> schedule_worker option" where
  "new_workers ids = (\<lambda>d. if d \<in> set ids
     then Some \<lparr>sw_worker = True, sw_runTime = 0, sw_function = []\<rparr> else None)"

definition NewScheduler :: "string list \<Rightarrow> string \<Rightarrow> scheduler" where
  "NewScheduler ids runtime =
     \<lparr>sc_runtime = runtime, sc_workers = new_workers ids, sc_names = remdups ids, undeployed = ids,
      deployed = [], running = [], decommissionTime = defaultDecommissionTime, watching = []\<rparr>"

text \<open>The map of workers; a missing worker is a nil pointer when a method reads its fields.\<close>

definition GetFunction :: "scheduler \<Rightarrow> string \<Rightarrow> string option" where
  "GetFunction s d = map_option sw_function (sc_workers s d)"

definition update_worker :: "string \<Rightarrow> (schedule_worker \<Rightarrow> schedule_worker) \<Rightarrow> scheduler \<Rightarrow> scheduler" where
  "update_worker d f s = s\<lparr>sc_workers := (sc_workers s)(d := map_option f (sc_workers s d))\<rparr>"

definition SetFunction :: "string \<Rightarrow> string \<Rightarrow> scheduler \<Rightarrow> scheduler" where
  "SetFunction d f = update_worker d (\<lambda>w. w\<lparr>sw_function := f\<rparr>)"

definition MarkRunTime :: "string \<Rightarrow> int \<Rightarrow> scheduler \<Rightarrow> scheduler" where
  "MarkRunTime d now = update_worker d (\<lambda>w. w\<lparr>sw_runTime := now\<rparr>)"

definition RunDeployedFunction :: "string \<Rightarrow> scheduler \<Rightarrow> string option \<times> scheduler" where
  "RunDeployedFunction f s =
     (case find_index (\<lambda>d. GetFunction s d = Some f) (deployed s) of
        None \<Rightarrow> (None, s)
      | Some i \<Rightarrow>
          (Some (deployed s ! i),
           s\<lparr>deployed := drop_index i (deployed s), running := running s @ [deployed s ! i]\<rparr>))"

definition RunUndeployed :: "scheduler \<Rightarrow> (string \<times> scheduler) res" where
  "RunUndeployed s =
     (case undeployed s of
        [] \<Rightarrow> Inl (Panicked ''index out of range'')
      | d # ds \<Rightarrow> Inr (d, s\<lparr>undeployed := ds, running := running s @ [d]\<rparr>))"

text \<open>A name that is not running leaves the index at zero.\<close>

definition RunComplete :: "string \<Rightarrow> scheduler \<Rightarrow> scheduler res" where
  "RunComplete name s =
     (let nameIndex = (case find_index (\<lambda>w. w = name) (running s) of None \<Rightarrow> 0 | Some i \<Rightarrow> i) in
      if running s = [] then Inl (Panicked ''slice bounds out of range'')
      else Inr (s\<lparr>running := drop_index nameIndex (running s), deployed := deployed s @ [name]\<rparr>))"

text \<open>The first critical section of \<open>ForceDecomission\<close>, and the one both decommissions end with.\<close>

definition force_take :: "scheduler \<Rightarrow> (string \<times> scheduler) option" where
  "force_take s = (case deployed s of [] \<Rightarrow> None | d # ds \<Rightarrow> Some (d, s\<lparr>deployed := ds\<rparr>))"

definition give_back :: "string \<Rightarrow> scheduler \<Rightarrow> scheduler" where
  "give_back d s = s\<lparr>undeployed := undeployed s @ [d]\<rparr>"

text \<open>
  The critical section of the goroutine of \<open>ScheduleDecommission\<close> after a sleep: the worker is taken off
  the deployed ones, or it is running, or it has been evicted.
\<close>

datatype wake = Taken | StillRunning | Evicted

definition wake_take :: "string \<Rightarrow> scheduler \<Rightarrow> wake \<times> scheduler" where
  "wake_take name s =
     (case find_index (\<lambda>w. w = name) (deployed s) of
        Some i \<Rightarrow> (Taken, s\<lparr>deployed := drop_index i (deployed s)\<rparr>)
      | None \<Rightarrow>
          (case find_index (\<lambda>w. w = name) (undeployed s) of
             None \<Rightarrow> (StillRunning, s)
           | Some _ \<Rightarrow> (Evicted, s)))"

text \<open>The copies of the lists that the tests look at.\<close>

definition DeployedWorkers :: "scheduler \<Rightarrow> string list" where "DeployedWorkers s = [] @ deployed s"
definition UndeployedWorkers :: "scheduler \<Rightarrow> string list" where "UndeployedWorkers s = [] @ undeployed s"
definition RunningWorkers :: "scheduler \<Rightarrow> string list" where "RunningWorkers s = [] @ running s"

section \<open>One caller\<close>

text \<open>The methods of a worker by its name, and the clock.\<close>

record 'w worker_ops =
  w_send_function :: "string \<Rightarrow> string \<Rightarrow> ('w, unit) io"
  w_send_request :: "string \<Rightarrow> json \<Rightarrow> ('w, json) io"
  w_restore :: "string \<Rightarrow> ('w, unit) io"
  w_end :: "string \<Rightarrow> ('w, unit) io"
  w_now :: "'w \<Rightarrow> int"

type_synonym 'w sched_sys = "scheduler \<times> 'w"

definition in_pool :: "('w, 'a) io \<Rightarrow> ('w sched_sys, 'a) io" where
  "in_pool m = (\<lambda>(s, w). case m w of (r, w') \<Rightarrow> (r, (s, w')))"

definition atomic :: "(scheduler \<Rightarrow> 'a \<times> scheduler) \<Rightarrow> ('w sched_sys, 'a) io" where
  "atomic f = (\<lambda>(s, w). case f s of (x, s') \<Rightarrow> (Inr x, (s', w)))"

definition modify :: "(scheduler \<Rightarrow> 'w \<Rightarrow> scheduler) \<Rightarrow> ('w sched_sys, unit) io" where
  "modify f = (\<lambda>(s, w). (Inr (), (f s w, w)))"

definition complete :: "string \<Rightarrow> ('w sched_sys, unit) io" where
  "complete name = (\<lambda>(s, w). case RunComplete name s of Inl e \<Rightarrow> (Inl e, (s, w)) | Inr s' \<Rightarrow> (Inr (), (s', w)))"

definition Decomission :: "'w worker_ops \<Rightarrow> string \<Rightarrow> ('w sched_sys, unit) io" where
  "Decomission ops d = (\<lambda>(s, w).
     case sc_workers s d of
       None \<Rightarrow> (Inl nil_pointer, (s, w))
     | Some sw \<Rightarrow> if \<not> sw_worker sw then (Inr (), (s, w)) else in_pool (w_restore ops d) (s, w))"

text \<open>With nothing deployed the method calls itself after a pause, for ever if nothing changes.\<close>

fun ForceDecomission :: "'w worker_ops \<Rightarrow> nat \<Rightarrow> ('w sched_sys, unit) io" where
  "ForceDecomission ops 0 = faultS Blocked"
| "ForceDecomission ops (Suc n) = (\<lambda>(s, w).
     case force_take s of
       None \<Rightarrow> ForceDecomission ops n (s, w)
     | Some (d, s') \<Rightarrow>
         bindS (tryS (Decomission ops d)) (\<lambda>r.
         case r of Inl err \<Rightarrow> retS () | Inr _ \<Rightarrow> modify (\<lambda>s w. give_back d s)) (s', w))"

definition ScheduleDecommission :: "string \<Rightarrow> scheduler \<Rightarrow> scheduler" where
  "ScheduleDecommission name s = s\<lparr>watching := watching s @ [name]\<rparr>"

text \<open>One pass of its goroutine; the value is whether the goroutine goes on.\<close>

definition decommission_pass :: "'w worker_ops \<Rightarrow> string \<Rightarrow> ('w sched_sys, bool) io" where
  "decommission_pass ops name = (\<lambda>(s, w).
     case sc_workers s name of
       None \<Rightarrow> (Inl nil_pointer, (s, w))
     | Some sw \<Rightarrow>
         if w_now ops w - sw_runTime sw < decommissionTime s then (Inr True, (s, w))
         else (case wake_take name s of
                 (StillRunning, s') \<Rightarrow> (Inr True, (s', w))
               | (Evicted, s') \<Rightarrow> (Inr False, (s', w))
               | (Taken, s') \<Rightarrow>
                   bindS (tryS (Decomission ops name)) (\<lambda>r.
                   case r of
                     Inl err \<Rightarrow> retS False
                   | Inr _ \<Rightarrow> bindS (modify (\<lambda>s w. give_back name s)) (\<lambda>_. retS False)) (s', w)))"

definition reply_of :: "error + json \<Rightarrow> ('s, json) io" where
  "reply_of r = (case r of Inl e \<Rightarrow> faultS (Returned e) | Inr v \<Rightarrow> retS v)"

definition run_deployed :: "'w worker_ops \<Rightarrow> string \<Rightarrow> json \<Rightarrow> ('w sched_sys, json) io" where
  "run_deployed ops name request =
     bindS (modify (\<lambda>s w. MarkRunTime name (w_now ops w) s)) (\<lambda>_.
     bindS (tryS (in_pool (w_send_request ops name request))) (\<lambda>result.
     bindS (complete name) (\<lambda>_. reply_of result)))"

definition run_undeployed :: "'w worker_ops \<Rightarrow> string \<Rightarrow> function_doc \<Rightarrow> json \<Rightarrow> ('w sched_sys, json) io" where
  "run_undeployed ops name function request =
     bindS (liftS (CodeString function)) (\<lambda>functionCode.
     bindS (tryS (in_pool (w_send_function ops name functionCode))) (\<lambda>_.
     bindS (modify (\<lambda>s w. MarkRunTime name (w_now ops w) s)) (\<lambda>_.
     bindS (tryS (in_pool (w_send_request ops name request))) (\<lambda>result.
     bindS (modify (\<lambda>s w. SetFunction name (f_id function) s)) (\<lambda>_.
     bindS (complete name) (\<lambda>_.
     bindS (modify (\<lambda>s w. ScheduleDecommission name s)) (\<lambda>_.
     reply_of result)))))))"

fun Run :: "'w worker_ops \<Rightarrow> nat \<Rightarrow> function_doc \<Rightarrow> json \<Rightarrow> ('w sched_sys, json) io" where
  "Run ops 0 function request = faultS Blocked"
| "Run ops (Suc n) function request =
     bindS (atomic (RunDeployedFunction (f_id function))) (\<lambda>found.
     case found of
       Some name \<Rightarrow> run_deployed ops name request
     | None \<Rightarrow> (\<lambda>(s, w).
         case undeployed s of
           _ # _ \<Rightarrow>
             (case RunUndeployed s of
                Inl e \<Rightarrow> (Inl e, (s, w))
              | Inr (name, s') \<Rightarrow> run_undeployed ops name function request (s', w))
         | [] \<Rightarrow>
             bindS (ForceDecomission ops n) (\<lambda>_. Run ops n function request) (s, w)))"

fun end_workers :: "'w worker_ops \<Rightarrow> string list \<Rightarrow> error option \<Rightarrow> ('w, error option) io" where
  "end_workers ops [] workerErr = retS workerErr"
| "end_workers ops (d # ds) workerErr =
     bindS (tryS (w_end ops d)) (\<lambda>r.
     end_workers ops ds (case r of Inl err \<Rightarrow> Some err | Inr _ \<Rightarrow> workerErr))"

definition Scheduler_End :: "'w worker_ops \<Rightarrow> ('w sched_sys, unit) io" where
  "Scheduler_End ops = (\<lambda>(s, w).
     bindS (in_pool (end_workers ops (sc_names s) None)) (\<lambda>workerErr.
     case workerErr of Some e \<Rightarrow> faultS (Returned e) | None \<Rightarrow> retS ()) (s, w))"

section \<open>What the scheduler does to its workers\<close>

text \<open>
  The contract between the scheduler and the methods of its workers: \<open>within w w'\<close> says that a step of the
  workers from \<open>w\<close> to \<open>w'\<close> stays among those of this scheduler. What the scheduler composes of them does so
  too.
\<close>

definition keeps :: "('w \<Rightarrow> 'w \<Rightarrow> bool) \<Rightarrow> ('w sched_sys, 'a) io \<Rightarrow> bool" where
  "keeps R m \<longleftrightarrow> (\<forall>s w. R w (snd (snd (m (s, w)))))"

locale worker_methods =
  fixes ops :: "'w worker_ops" and within :: "'w \<Rightarrow> 'w \<Rightarrow> bool"
  assumes within_refl: "within w w"
    and within_trans: "within u v \<Longrightarrow> within v w \<Longrightarrow> within u w"
    and send_function_within: "within w (snd (w_send_function ops d code w))"
    and send_request_within: "within w (snd (w_send_request ops d request w))"
    and restore_within: "within w (snd (w_restore ops d w))"
    and end_within: "within w (snd (w_end ops d w))"
begin

lemma keeps_bind:
  assumes "keeps within m" and "\<And>x. keeps within (f x)"
  shows "keeps within (bindS m f)"
  unfolding keeps_def
proof (intro allI)
  fix s w
  obtain r s1 w1 where m: "m (s, w) = (r, (s1, w1))" by (cases "m (s, w)") auto
  have "within w w1" using assms(1) m unfolding keeps_def by (metis snd_conv)
  moreover have "within w1 (snd (snd (f x (s1, w1))))" for x using assms(2) by (simp add: keeps_def)
  ultimately show "within w (snd (snd (bindS m f (s, w))))"
    by (cases r) (simp_all add: bindS_def m within_trans)
qed

lemma keeps_try: "keeps within m \<Longrightarrow> keeps within (tryS m)"
proof -
  have "snd (tryS m s) = snd (m s)" for s by (simp add: tryS_def split: prod.splits sum.splits fault.splits)
  then show "keeps within m \<Longrightarrow> keeps within (tryS m)" by (simp add: keeps_def)
qed

lemma keeps_in_pool: "(\<And>w. within w (snd (m w))) \<Longrightarrow> keeps within (in_pool m)"
  by (simp add: keeps_def in_pool_def split_beta)

lemma keeps_simple:
  "keeps within (retS x)" "keeps within (faultS e)" "keeps within (liftS r)" "keeps within (modify g)"
  "keeps within (atomic h)" "keeps within (complete d)" "keeps within (reply_of q)"
  by (simp_all add: keeps_def within_refl modify_def atomic_def complete_def reply_of_def split_beta
      split: sum.splits)

lemmas keeps_intros = keeps_bind keeps_try keeps_in_pool keeps_simple
  send_function_within send_request_within restore_within end_within

lemma keeps_at: "(\<And>s w. keeps within (m s w)) \<Longrightarrow> keeps within (\<lambda>(s, w). m s w (s, w))"
  by (simp add: keeps_def)

lemma keeps_here: "keeps within m \<Longrightarrow> within w (snd (snd (m (s, w))))"
  by (simp add: keeps_def)

lemma Decomission_within: "keeps within (Decomission ops d)"
  unfolding keeps_def Decomission_def
  using keeps_in_pool [OF restore_within] by (auto simp: within_refl keeps_def split: option.splits)

lemma ForceDecomission_within: "keeps within (ForceDecomission ops n)"
proof (induction n)
  case 0
  show ?case by (simp only: ForceDecomission.simps keeps_simple)
next
  case (Suc n)
  let ?body = "\<lambda>d. bindS (tryS (Decomission ops d)) (\<lambda>r. case r of Inl err \<Rightarrow> retS () | Inr _ \<Rightarrow> modify (\<lambda>s w. give_back d s))"
  have "keeps within (?body d)" for d
    by (intro keeps_bind keeps_try Decomission_within) (simp add: keeps_simple split: sum.splits)
  then show ?case using Suc by (auto simp: keeps_def split: option.splits)
qed

lemma run_deployed_within: "keeps within (run_deployed ops d request)"
  unfolding run_deployed_def by (intro keeps_intros)

lemma run_undeployed_within: "keeps within (run_undeployed ops d function request)"
  unfolding run_undeployed_def by (intro keeps_intros)

lemma Run_within: "keeps within (Run ops n function request)"
proof (induction n)
  case 0
  show ?case by (simp only: Run.simps keeps_simple)
next
  case (Suc n)
  have "keeps within (bindS (ForceDecomission ops n) (\<lambda>_. Run ops n function request))"
    by (intro keeps_bind ForceDecomission_within Suc)
  then have "keeps within (\<lambda>(s, w). case undeployed s of
      _ # _ \<Rightarrow> (case RunUndeployed s of Inl e \<Rightarrow> (Inl e, (s, w))
        | Inr (name, s') \<Rightarrow> run_undeployed ops name function request (s', w))
    | [] \<Rightarrow> bindS (ForceDecomission ops n) (\<lambda>_. Run ops n function request) (s, w))"
    using run_undeployed_within by (auto simp: keeps_def within_refl split: list.splits sum.splits)
  then show ?case
    unfolding Run.simps by (intro keeps_bind keeps_simple) (auto simp: run_deployed_within split: option.splits)
qed

lemma decommission_pass_within: "keeps within (decommission_pass ops d)"
proof -
  let ?body = "bindS (tryS (Decomission ops d)) (\<lambda>r. case r of Inl err \<Rightarrow> retS False
    | Inr _ \<Rightarrow> bindS (modify (\<lambda>s w. give_back d s)) (\<lambda>_. retS False))"
  have "keeps within ?body"
    by (intro keeps_bind keeps_try Decomission_within) (simp add: keeps_bind keeps_simple split: sum.splits)
  then show ?thesis unfolding decommission_pass_def keeps_def
    by (auto simp: within_refl split: option.splits prod.splits wake.splits)
qed

lemma end_workers_within: "within w (snd (end_workers ops ds e w))"
proof (induction ds arbitrary: e w)
  case Nil
  show ?case by (simp add: within_refl)
next
  case (Cons d ds)
  obtain r w1 where e: "w_end ops d w = (r, w1)" by fastforce
  then have "within w w1" using end_within [of w d] by simp
  then show ?case using Cons within_trans
    by (auto simp: bindS_def tryS_def e split: sum.splits fault.splits)
qed

lemma Scheduler_End_within: "keeps within (Scheduler_End ops)"
proof -
  have "keeps within (bindS (in_pool (end_workers ops ds None))
      (\<lambda>workerErr. case workerErr of Some e \<Rightarrow> faultS (Returned e) | None \<Rightarrow> retS ()))" for ds
    by (intro keeps_bind keeps_in_pool end_workers_within) (simp add: keeps_simple split: option.splits)
  then show ?thesis by (simp add: Scheduler_End_def keeps_def)
qed

end

section \<open>Any number of callers\<close>

text \<open>
  Where a goroutine that uses the scheduler is: a call of \<open>Run\<close> for a function id and the outcome of
  \<open>CodeString\<close> before, between and after its critical sections, or a goroutine of
  \<open>ScheduleDecommission\<close>. \<open>Leaked\<close> is a call that returned the error of \<open>CodeString\<close>.
\<close>

datatype job =
    Wants string "string res"
  | Missed string "string res"
  | Forcing string "string res"
  | Serving string string
  | Loading string string "string res"
  | Sent string string
  | Loaded string string
  | Answered
  | Leaked string
  | Evicting string string "string res"
  | Watching string
  | Restoring string

text \<open>
  The scheduler, the goroutines, the workers that could not be restored, and for each worker the id of
  the function whose code it was sent last since its last restoration.
\<close>

record pool =
  sched :: scheduler
  jobs :: "job list"
  lost :: "string list"
  last_sent :: "string \<Rightarrow> string option"

definition set_job :: "nat \<Rightarrow> job \<Rightarrow> pool \<Rightarrow> pool" where
  "set_job k j p = p\<lparr>jobs := (jobs p)[k := j]\<rparr>"

inductive sched_step :: "pool \<Rightarrow> pool \<Rightarrow> bool" where
  new_call: "sched_step p (p\<lparr>jobs := jobs p @ [Wants f code]\<rparr>)"
| find_deployed: "\<lbrakk> k < length (jobs p); jobs p ! k = Wants f code;
     RunDeployedFunction f (sched p) = (Some d, s') \<rbrakk> \<Longrightarrow>
     sched_step p (set_job k (Serving d f) (p\<lparr>sched := s'\<rparr>))"
| find_none: "\<lbrakk> k < length (jobs p); jobs p ! k = Wants f code;
     RunDeployedFunction f (sched p) = (None, s') \<rbrakk> \<Longrightarrow>
     sched_step p (set_job k (Missed f code) (p\<lparr>sched := s'\<rparr>))"
| take_undeployed: "\<lbrakk> k < length (jobs p); jobs p ! k = Missed f code;
     RunUndeployed (sched p) = Inr (d, s') \<rbrakk> \<Longrightarrow>
     sched_step p (set_job k (Loading d f code) (p\<lparr>sched := s'\<rparr>))"
| none_undeployed: "\<lbrakk> k < length (jobs p); jobs p ! k = Missed f code; undeployed (sched p) = [] \<rbrakk> \<Longrightarrow>
     sched_step p (set_job k (Forcing f code) p)"
| force: "\<lbrakk> k < length (jobs p); jobs p ! k = Forcing f code; force_take (sched p) = Some (d, s') \<rbrakk> \<Longrightarrow>
     sched_step p (set_job k (Evicting d f code) (p\<lparr>sched := s'\<rparr>))"
| evicted: "\<lbrakk> k < length (jobs p); jobs p ! k = Evicting d f code \<rbrakk> \<Longrightarrow>
     sched_step p (set_job k (Wants f code)
       (p\<lparr>sched := give_back d (sched p), last_sent := (last_sent p)(d := None)\<rparr>))"
| evict_fails: "\<lbrakk> k < length (jobs p); jobs p ! k = Evicting d f code \<rbrakk> \<Longrightarrow>
     sched_step p (set_job k (Wants f code) (p\<lparr>lost := lost p @ [d]\<rparr>))"
| serve: "\<lbrakk> k < length (jobs p); jobs p ! k = Serving d f; RunComplete d (sched p) = Inr s' \<rbrakk> \<Longrightarrow>
     sched_step p (set_job k Answered (p\<lparr>sched := s'\<rparr>))"
| code_error: "\<lbrakk> k < length (jobs p); jobs p ! k = Loading d f (Inl (Returned e)) \<rbrakk> \<Longrightarrow>
     sched_step p (set_job k (Leaked d) p)"
| send_code: "\<lbrakk> k < length (jobs p); jobs p ! k = Loading d f (Inr code) \<rbrakk> \<Longrightarrow>
     sched_step p (set_job k (Sent d f) (p\<lparr>last_sent := (last_sent p)(d := Some f)\<rparr>))"
| set_function: "\<lbrakk> k < length (jobs p); jobs p ! k = Sent d f \<rbrakk> \<Longrightarrow>
     sched_step p (set_job k (Loaded d f) (p\<lparr>sched := SetFunction d f (sched p)\<rparr>))"
| load_done: "\<lbrakk> k < length (jobs p); jobs p ! k = Loaded d f; RunComplete d (sched p) = Inr s' \<rbrakk> \<Longrightarrow>
     sched_step p ((set_job k Answered (p\<lparr>sched := ScheduleDecommission d s'\<rparr>))
       \<lparr>jobs := (jobs p)[k := Answered] @ [Watching d]\<rparr>)"
| wake_taken: "\<lbrakk> k < length (jobs p); jobs p ! k = Watching d; wake_take d (sched p) = (Taken, s') \<rbrakk> \<Longrightarrow>
     sched_step p (set_job k (Restoring d) (p\<lparr>sched := s'\<rparr>))"
| wake_evicted: "\<lbrakk> k < length (jobs p); jobs p ! k = Watching d; wake_take d (sched p) = (Evicted, s') \<rbrakk> \<Longrightarrow>
     sched_step p (set_job k Answered (p\<lparr>sched := s'\<rparr>))"
| restored: "\<lbrakk> k < length (jobs p); jobs p ! k = Restoring d \<rbrakk> \<Longrightarrow>
     sched_step p (set_job k Answered
       (p\<lparr>sched := give_back d (sched p), last_sent := (last_sent p)(d := None)\<rparr>))"
| restore_fails: "\<lbrakk> k < length (jobs p); jobs p ! k = Restoring d \<rbrakk> \<Longrightarrow>
     sched_step p (set_job k Answered (p\<lparr>lost := lost p @ [d]\<rparr>))"
| mark_time: "sched_step p (p\<lparr>sched := MarkRunTime d now (sched p)\<rparr>)"

text \<open>The worker a goroutine holds while it is running, and the one it is restoring.\<close>

fun holds :: "job \<Rightarrow> string list" where
  "holds (Serving d f) = [d]"
| "holds (Loading d f code) = [d]"
| "holds (Sent d f) = [d]"
| "holds (Loaded d f) = [d]"
| "holds (Leaked d) = [d]"
| "holds _ = []"

fun restores :: "job \<Rightarrow> string list" where
  "restores (Evicting d f code) = [d]"
| "restores (Restoring d) = [d]"
| "restores _ = []"

definition held :: "job list \<Rightarrow> string multiset" where
  "held js = (\<Sum>j\<leftarrow>js. mset (holds j))"

definition restoring :: "job list \<Rightarrow> string multiset" where
  "restoring js = (\<Sum>j\<leftarrow>js. mset (restores j))"

text \<open>
  What a goroutine that is about to use a worker for a function, or has loaded it, relies on: the code it
  was sent last is that function's, and the recorded function is that one.
\<close>

fun job_ok :: "scheduler \<Rightarrow> (string \<Rightarrow> string option) \<Rightarrow> job \<Rightarrow> bool" where
  "job_ok s ls (Serving d f) \<longleftrightarrow> ls d = Some f \<and> GetFunction s d = Some f"
| "job_ok s ls (Sent d f) \<longleftrightarrow> ls d = Some f"
| "job_ok s ls (Loaded d f) \<longleftrightarrow> ls d = Some f \<and> GetFunction s d = Some f"
| "job_ok s ls _ \<longleftrightarrow> True"

definition conserved :: "string list \<Rightarrow> pool \<Rightarrow> bool" where
  "conserved names p \<longleftrightarrow>
     mset (undeployed (sched p)) + mset (deployed (sched p)) + mset (running (sched p)) +
       restoring (jobs p) + mset (lost p) = mset names \<and>
     held (jobs p) = mset (running (sched p))"

definition functions_known :: "pool \<Rightarrow> bool" where
  "functions_known p \<longleftrightarrow>
     (\<forall>d \<in> set (deployed (sched p)). \<exists>f. GetFunction (sched p) d = Some f \<and> last_sent p d = Some f) \<and>
     (\<forall>j \<in> set (jobs p). job_ok (sched p) (last_sent p) j)"

definition pool_start :: "string list \<Rightarrow> string \<Rightarrow> pool \<Rightarrow> bool" where
  "pool_start names runtime p \<longleftrightarrow>
     distinct names \<and> sched p = NewScheduler names runtime \<and> jobs p = [] \<and> lost p = [] \<and>
     last_sent p = (\<lambda>_. None)"

lemma held_simps [simp]:
  "held [] = {#}" "held (j # js) = mset (holds j) + held js" "held (js @ ks) = held js + held ks"
  by (simp_all add: held_def)

lemma restoring_simps [simp]:
  "restoring [] = {#}" "restoring (j # js) = mset (restores j) + restoring js"
  "restoring (js @ ks) = restoring js + restoring ks"
  by (simp_all add: restoring_def)

lemma held_update:
  "k < length js \<Longrightarrow> held (js[k := j]) + mset (holds (js ! k)) = held js + mset (holds j)"
  by (induction js arbitrary: k) (auto split: nat.splits)

lemma restoring_update:
  "k < length js \<Longrightarrow> restoring (js[k := j]) + mset (restores (js ! k)) = restoring js + mset (restores j)"
  by (induction js arbitrary: k) (auto split: nat.splits)

lemma held_mem: "\<lbrakk> j \<in> set js; d \<in> set (holds j) \<rbrakk> \<Longrightarrow> d \<in># held js"
  by (induction js) auto

lemma mset_drop_index: "i < length xs \<Longrightarrow> add_mset (xs ! i) (mset (drop_index i xs)) = mset xs"
proof (induction xs arbitrary: i)
  case Nil
  then show ?case by simp
next
  case (Cons x xs)
  then show ?case by (cases i) auto
qed

text \<open>What the critical sections do to the three lists, as multisets, and to the recorded functions.\<close>

definition lists :: "scheduler \<Rightarrow> string multiset" where
  "lists s = mset (undeployed s) + mset (deployed s) + mset (running s)"

lemma RunDeployedFunction_Some:
  assumes "RunDeployedFunction f s = (Some d, s')"
  shows "GetFunction s d = Some f" and "d \<in> set (deployed s)" and "lists s' = lists s"
    and "mset (running s') = add_mset d (mset (running s))"
    and "set (deployed s') \<subseteq> set (deployed s)" and "sc_workers s' = sc_workers s"
proof -
  from assms obtain i where i: "find_index (\<lambda>d. GetFunction s d = Some f) (deployed s) = Some i"
    and d: "d = deployed s ! i"
    and s': "s' = s\<lparr>deployed := drop_index i (deployed s), running := running s @ [deployed s ! i]\<rparr>"
    by (auto simp: RunDeployedFunction_def split: option.splits)
  from find_index_Some [OF i] have il: "i < length (deployed s)" "GetFunction s (deployed s ! i) = Some f" by auto
  show "GetFunction s d = Some f" "d \<in> set (deployed s)" using il d by simp_all
  show "lists s' = lists s" using mset_drop_index [OF il(1)] by (simp add: lists_def s')
  show "mset (running s') = add_mset d (mset (running s))" by (simp add: s' d)
  show "set (deployed s') \<subseteq> set (deployed s)" by (simp add: s' set_drop_index_subset)
  show "sc_workers s' = sc_workers s" by (simp add: s')
qed

lemma RunDeployedFunction_None:
  "RunDeployedFunction f s = (None, s') \<Longrightarrow> s' = s \<and> (\<forall>d \<in> set (deployed s). GetFunction s d \<noteq> Some f)"
  by (auto simp: RunDeployedFunction_def find_index_None split: option.splits)

lemma RunUndeployed_Inr:
  assumes "RunUndeployed s = Inr (d, s')"
  shows "lists s' = lists s \<and> mset (running s') = add_mset d (mset (running s)) \<and>
     deployed s' = deployed s \<and> sc_workers s' = sc_workers s"
  using assms by (auto simp: RunUndeployed_def lists_def split: list.splits)

lemma RunComplete_Inr:
  assumes "RunComplete d s = Inr s'" and "d \<in> set (running s)"
  shows "lists s' = lists s" and "add_mset d (mset (running s')) = mset (running s)"
    and "deployed s' = deployed s @ [d]" and "sc_workers s' = sc_workers s"
proof -
  obtain i where i: "find_index (\<lambda>w. w = d) (running s) = Some i"
    using assms(2) by (cases "find_index (\<lambda>w. w = d) (running s)") auto
  from find_index_Some [OF i] have il: "i < length (running s)" "running s ! i = d" by auto
  have s': "s' = s\<lparr>running := drop_index i (running s), deployed := deployed s @ [d]\<rparr>"
    using assms i by (auto simp: RunComplete_def split: if_splits)
  show "add_mset d (mset (running s')) = mset (running s)" using mset_drop_index [OF il(1)] il(2) by (simp add: s')
  then show "lists s' = lists s" by (simp add: lists_def s')
  show "deployed s' = deployed s @ [d]" "sc_workers s' = sc_workers s" by (simp_all add: s')
qed

lemma force_take_Some:
  "force_take s = Some (d, s') \<Longrightarrow> add_mset d (lists s') = lists s \<and> running s' = running s \<and>
     set (deployed s') \<subseteq> set (deployed s) \<and> sc_workers s' = sc_workers s"
  by (auto simp: force_take_def lists_def split: list.splits)

lemma wake_take_Taken:
  assumes "wake_take d s = (Taken, s')"
  shows "add_mset d (lists s') = lists s \<and> running s' = running s \<and>
     set (deployed s') \<subseteq> set (deployed s) \<and> sc_workers s' = sc_workers s"
proof -
  from assms obtain i where i: "find_index (\<lambda>w. w = d) (deployed s) = Some i"
    and s': "s' = s\<lparr>deployed := drop_index i (deployed s)\<rparr>"
    by (auto simp: wake_take_def split: option.splits)
  from find_index_Some [OF i] have il: "i < length (deployed s)" "deployed s ! i = d" by auto
  with mset_drop_index [OF il(1)] show ?thesis
    by (auto simp: lists_def s' dest: set_drop_index_subset [THEN subsetD])
qed

lemma wake_take_other: "\<lbrakk> wake_take d s = (r, s'); r \<noteq> Taken \<rbrakk> \<Longrightarrow> s' = s"
  by (auto simp: wake_take_def split: option.splits)

lemma give_back_simps [simp]:
  "lists (give_back d s) = add_mset d (lists s)" "running (give_back d s) = running s"
  "deployed (give_back d s) = deployed s" "sc_workers (give_back d s) = sc_workers s"
  "GetFunction (give_back d s) = GetFunction s"
  by (simp_all add: give_back_def lists_def GetFunction_def fun_eq_iff)

lemma update_worker_simps [simp]:
  "lists (update_worker d f s) = lists s" "running (update_worker d f s) = running s"
  "deployed (update_worker d f s) = deployed s"
  "sc_workers (update_worker d f s) k = None \<longleftrightarrow> sc_workers s k = None"
  by (auto simp: update_worker_def lists_def)

lemma MarkRunTime_simps [simp]: "GetFunction (MarkRunTime d now s) k = GetFunction s k"
  by (simp add: MarkRunTime_def GetFunction_def update_worker_def option.map_comp comp_def)

lemma SetFunction_simps [simp]:
  "GetFunction (SetFunction d f s) k = (if k = d \<and> sc_workers s d \<noteq> None then Some f else GetFunction s k)"
  by (auto simp: SetFunction_def GetFunction_def update_worker_def)

lemma ScheduleDecommission_simps [simp]:
  "lists (ScheduleDecommission d s) = lists s" "running (ScheduleDecommission d s) = running s"
  "deployed (ScheduleDecommission d s) = deployed s" "sc_workers (ScheduleDecommission d s) = sc_workers s"
  "GetFunction (ScheduleDecommission d s) = GetFunction s"
  by (simp_all add: ScheduleDecommission_def lists_def GetFunction_def fun_eq_iff)

lemma GetFunction_cong: "sc_workers s' = sc_workers s \<Longrightarrow> GetFunction s' = GetFunction s"
  by (simp add: GetFunction_def fun_eq_iff)

lemma conserved_lists:
  "conserved names p \<longleftrightarrow> lists (sched p) + restoring (jobs p) + mset (lost p) = mset names \<and>
     held (jobs p) = mset (running (sched p))"
  by (simp add: conserved_def lists_def)

text \<open>A worker that a goroutine holds is on no other list and held by no other goroutine.\<close>

lemma held_running:
  assumes "conserved names p" and "k < length (jobs p)" and "d \<in> set (holds (jobs p ! k))"
  shows "d \<in> set (running (sched p))"
  using held_mem [of "jobs p ! k" "jobs p" d] assms by (simp add: conserved_def)

lemma in_set_count: "d \<in> set xs \<Longrightarrow> 1 \<le> count (mset xs) d"
  using count_greater_eq_one_iff [of "mset xs" d] by simp

lemma held_count:
  "\<lbrakk> k < length js; i < length js; i \<noteq> k; d \<in> set (holds (js ! k)); d \<in> set (holds (js ! i)) \<rbrakk> \<Longrightarrow>
     2 \<le> count (held js) d"
proof (induction js arbitrary: i k)
  case Nil
  then show ?case by simp
next
  case (Cons j js)
  consider "k = 0" "i \<noteq> 0" | "i = 0" "k \<noteq> 0" | "k \<noteq> 0" "i \<noteq> 0" using Cons.prems by auto
  then show ?case
  proof cases
    case 1
    then obtain i' where "i = Suc i'" by (cases i) auto
    with Cons.prems 1 have "d \<in># held js" by (intro held_mem [of "js ! i'"]) auto
    then have "1 \<le> count (held js) d" by simp
    moreover have "1 \<le> count (mset (holds j)) d" using Cons.prems 1 by (intro in_set_count) simp
    ultimately show ?thesis unfolding held_simps count_union by linarith
  next
    case 2
    then obtain k' where "k = Suc k'" by (cases k) auto
    with Cons.prems 2 have "d \<in># held js" by (intro held_mem [of "js ! k'"]) auto
    then have "1 \<le> count (held js) d" by simp
    moreover have "1 \<le> count (mset (holds j)) d" using Cons.prems 2 by (intro in_set_count) simp
    ultimately show ?thesis unfolding held_simps count_union by linarith
  next
    case 3
    then obtain i' k' where "i = Suc i'" "k = Suc k'" by (cases i; cases k) auto
    with Cons have "2 \<le> count (held js) d" by auto
    then show ?thesis by simp
  qed
qed

lemma pool_count:
  assumes "conserved names p" and "distinct names"
  shows "count (lists (sched p)) d + count (restoring (jobs p)) d + count (mset (lost p)) d \<le> 1"
proof -
  have "lists (sched p) + restoring (jobs p) + mset (lost p) = mset names"
    using assms(1) by (simp add: conserved_lists)
  from this [symmetric] have "count (mset names) d = count (lists (sched p)) d + count (restoring (jobs p)) d + count (mset (lost p)) d"
    by simp
  moreover have "count (mset names) d \<le> 1" using assms(2) by (simp add: distinct_count_atmost_1)
  ultimately show ?thesis by simp
qed

lemma held_once:
  assumes "conserved names p" and "distinct names"
    and "k < length (jobs p)" and "d \<in> set (holds (jobs p ! k))"
  shows "d \<notin> set (undeployed (sched p))" and "d \<notin> set (deployed (sched p))" and "d \<notin># restoring (jobs p)"
    and "\<lbrakk> i < length (jobs p); i \<noteq> k \<rbrakk> \<Longrightarrow> d \<notin> set (holds (jobs p ! i))"
proof -
  have run: "1 \<le> count (mset (running (sched p))) d"
    using held_running [OF assms(1,3,4)] by (rule in_set_count)
  note le = pool_count [OF assms(1,2), of d, unfolded lists_def count_union]
  show "d \<notin> set (undeployed (sched p))" "d \<notin> set (deployed (sched p))"
    using run le in_set_count [of d "undeployed (sched p)"] in_set_count [of d "deployed (sched p)"] by linarith+
  show "d \<notin># restoring (jobs p)"
    using run le count_greater_eq_one_iff [of "restoring (jobs p)" d] by linarith
  assume i: "i < length (jobs p)" "i \<noteq> k"
  show "d \<notin> set (holds (jobs p ! i))"
  proof
    assume "d \<in> set (holds (jobs p ! i))"
    from held_count [OF assms(3) i assms(4) this] have "2 \<le> count (mset (running (sched p))) d"
      using assms(1) by (simp add: conserved_lists)
    with le show False by simp
  qed
qed

lemma restoring_mem: "\<lbrakk> j \<in> set js; d \<in> set (restores j) \<rbrakk> \<Longrightarrow> d \<in># restoring js"
  by (induction js) auto

lemma restoring_once:
  assumes "conserved names p" and "distinct names"
    and "k < length (jobs p)" and "d \<in> set (restores (jobs p ! k))"
  shows "d \<notin> set (deployed (sched p))" and "i < length (jobs p) \<Longrightarrow> d \<notin> set (holds (jobs p ! i))"
proof -
  have "d \<in># restoring (jobs p)" using assms(3,4) by (intro restoring_mem [of "jobs p ! k"]) simp_all
  then have r: "1 \<le> count (restoring (jobs p)) d" by simp
  note le = pool_count [OF assms(1,2), of d, unfolded lists_def count_union]
  show "d \<notin> set (deployed (sched p))" using r le in_set_count [of d "deployed (sched p)"] by linarith
  have run: "d \<notin> set (running (sched p))" using r le in_set_count [of d "running (sched p)"] by linarith
  assume i: "i < length (jobs p)"
  show "d \<notin> set (holds (jobs p ! i))" using held_running [OF assms(1) i] run by blast
qed

text \<open>One goroutine moves: what has to be shown of the lists, and of the functions.\<close>

lemma conserved_move:
  assumes "conserved names p" and "k < length (jobs p)"
    and "lists s' + mset (restores j) + mset lost' = lists (sched p) + mset (restores (jobs p ! k)) + mset (lost p)"
    and "mset (running s') + mset (holds (jobs p ! k)) = mset (running (sched p)) + mset (holds j)"
    and "sched p' = s'" and "jobs p' = (jobs p)[k := j]" and "lost p' = lost'"
  shows "conserved names p'"
proof -
  have c: "lists (sched p) + restoring (jobs p) + mset (lost p) = mset names"
    "held (jobs p) = mset (running (sched p))" using assms(1) by (simp_all add: conserved_lists)
  have "held (jobs p') + mset (holds (jobs p ! k)) = mset (running s') + mset (holds (jobs p ! k))"
    using held_update [OF assms(2), of j] c(2) assms(4) by (simp add: assms(6))
  moreover have "(lists s' + restoring (jobs p') + mset lost') + mset (restores (jobs p ! k)) =
      mset names + mset (restores (jobs p ! k))"
  proof -
    have "(lists s' + restoring (jobs p') + mset lost') + mset (restores (jobs p ! k)) =
        lists s' + mset lost' + (restoring (jobs p') + mset (restores (jobs p ! k)))" by (simp add: ac_simps)
    also have "\<dots> = (lists s' + mset (restores j) + mset lost') + restoring (jobs p)"
      using restoring_update [OF assms(2), of j] by (simp add: assms(6) ac_simps)
    also have "\<dots> = lists (sched p) + restoring (jobs p) + mset (lost p) + mset (restores (jobs p ! k))"
      using assms(3) by (simp only: ac_simps)
    finally show ?thesis by (simp add: c(1))
  qed
  ultimately show ?thesis by (simp add: conserved_lists assms(5,7))
qed

lemma job_ok_frame:
  "\<lbrakk> job_ok s ls j; \<And>d. d \<in> set (holds j) \<Longrightarrow> ls' d = ls d \<and> GetFunction s' d = GetFunction s d \<rbrakk> \<Longrightarrow>
     job_ok s' ls' j"
  by (cases j) auto

lemma functions_move:
  assumes "functions_known p" and "k < length (jobs p)"
    and "\<And>d. d \<in> set (deployed (sched p')) \<Longrightarrow>
      \<exists>f. GetFunction (sched p') d = Some f \<and> last_sent p' d = Some f"
    and "\<And>i d. \<lbrakk> i < length (jobs p); i \<noteq> k; d \<in> set (holds (jobs p ! i)) \<rbrakk> \<Longrightarrow>
      last_sent p' d = last_sent p d \<and> GetFunction (sched p') d = GetFunction (sched p) d"
    and "job_ok (sched p') (last_sent p') j" and "jobs p' = (jobs p)[k := j]"
  shows "functions_known p'"
proof -
  have "job_ok (sched p') (last_sent p') i" if "i \<in> set (jobs p')" for i
  proof -
    from that obtain n where n: "n < length (jobs p)" "i = (jobs p)[k := j] ! n"
      by (auto simp: assms(6) in_set_conv_nth)
    show ?thesis
    proof (cases "n = k")
      case True
      with n assms(2,5) show ?thesis by simp
    next
      case False
      then have i: "i = jobs p ! n" using n by simp
      then have "job_ok (sched p) (last_sent p) i" using assms(1) n(1) by (simp add: functions_known_def)
      then show ?thesis by (rule job_ok_frame) (use assms(4) n(1) False i in blast)
    qed
  qed
  with assms(3) show ?thesis by (simp add: functions_known_def)
qed

text \<open>The usual case: the recorded functions and what was sent stay, and nothing is newly deployed.\<close>

lemma functions_same:
  assumes "functions_known p" and "k < length (jobs p)" and "set (deployed (sched p')) \<subseteq> set (deployed (sched p))"
    and "sc_workers (sched p') = sc_workers (sched p)" and "last_sent p' = last_sent p"
    and "job_ok (sched p') (last_sent p') j" and "jobs p' = (jobs p)[k := j]"
  shows "functions_known p'"
proof (rule functions_move [OF assms(1,2) _ _ assms(6,7)])
  note same = GetFunction_cong [OF assms(4)]
  show "\<exists>f. GetFunction (sched p') d = Some f \<and> last_sent p' d = Some f"
    if "d \<in> set (deployed (sched p'))" for d
    using assms(1,3) that by (auto simp: functions_known_def same assms(5))
  show "last_sent p' d = last_sent p d \<and> GetFunction (sched p') d = GetFunction (sched p) d" for d
    by (simp add: same assms(5))
qed

lemmas move_simps = set_job_def conserved_lists

lemma set_job_simps [simp]:
  "jobs (set_job k j p) = (jobs p)[k := j]" "sched (set_job k j p) = sched p" "lost (set_job k j p) = lost p"
  "last_sent (set_job k j p) = last_sent p"
  by (simp_all add: set_job_def)

definition known_workers :: "string list \<Rightarrow> pool \<Rightarrow> bool" where
  "known_workers names p \<longleftrightarrow> (\<forall>d \<in> set names. sc_workers (sched p) d \<noteq> None)"

lemma job_at: "\<lbrakk> functions_known p; k < length (jobs p) \<rbrakk> \<Longrightarrow> job_ok (sched p) (last_sent p) (jobs p ! k)"
  by (simp add: functions_known_def)

lemma deployed_at:
  "\<lbrakk> functions_known p; d \<in> set (deployed (sched p)) \<rbrakk> \<Longrightarrow>
     \<exists>f. GetFunction (sched p) d = Some f \<and> last_sent p d = Some f"
  by (simp add: functions_known_def)

lemma complete_ok:
  assumes c: "conserved names p" and f: "functions_known p" and k: "k < length (jobs p)"
    and j: "jobs p ! k = Serving d g \<or> jobs p ! k = Loaded d g" and rc: "RunComplete d (sched p) = Inr s'"
  shows "conserved names (set_job k Answered (p\<lparr>sched := s'\<rparr>))" and
    "functions_known (set_job k Answered (p\<lparr>sched := s'\<rparr>))"
proof -
  have run: "d \<in> set (running (sched p))" using held_running [OF c k] j by auto
  note rc' = RunComplete_Inr [OF rc run]
  show "conserved names (set_job k Answered (p\<lparr>sched := s'\<rparr>))"
    by (rule conserved_move [OF c k]) (use rc' j in auto)
  show "functions_known (set_job k Answered (p\<lparr>sched := s'\<rparr>))"
  proof (rule functions_move [OF f k])
    show "\<exists>h. GetFunction (sched (set_job k Answered (p\<lparr>sched := s'\<rparr>))) e = Some h \<and>
        last_sent (set_job k Answered (p\<lparr>sched := s'\<rparr>)) e = Some h"
      if "e \<in> set (deployed (sched (set_job k Answered (p\<lparr>sched := s'\<rparr>))))" for e
      using that deployed_at [OF f] job_at [OF f k] j GetFunction_cong [OF rc'(4)] by (auto simp: rc'(3))
  qed (use GetFunction_cong [OF rc'(4)] in auto)
qed

lemma add_idle_job:
  assumes "conserved names p" and "functions_known p" and "holds j = []" and "restores j = []"
    and "\<And>s ls. job_ok s ls j" and "jobs p' = jobs p @ [j]" and "lost p' = lost p" and "last_sent p' = last_sent p"
    and "lists (sched p') = lists (sched p)" and "running (sched p') = running (sched p)"
    and "deployed (sched p') = deployed (sched p)" and "sc_workers (sched p') = sc_workers (sched p)"
  shows "conserved names p'" and "functions_known p'"
proof -
  show "conserved names p'" using assms by (simp add: conserved_lists)
  have same: "GetFunction (sched p') = GetFunction (sched p)" by (rule GetFunction_cong) (rule assms(12))
  have "job_ok (sched p') (last_sent p') i" if "job_ok (sched p) (last_sent p) i" for i
    using that by (rule job_ok_frame) (simp add: same assms(8))
  then show "functions_known p'"
    using assms(2) by (auto simp: functions_known_def same assms(5,6,8,11))
qed

text \<open>A restored worker is given back: it was on no list and held by nobody.\<close>

lemma give_back_ok:
  assumes c: "conserved names p" and f: "functions_known p" and dist: "distinct names"
    and k: "k < length (jobs p)" and d: "restores (jobs p ! k) = [d]" and h: "holds (jobs p ! k) = []"
    and j: "holds j = []" "restores j = []" "\<And>s ls. job_ok s ls j"
  shows "conserved names (set_job k j (p\<lparr>sched := give_back d (sched p), last_sent := (last_sent p)(d := None)\<rparr>))"
    and "functions_known (set_job k j (p\<lparr>sched := give_back d (sched p), last_sent := (last_sent p)(d := None)\<rparr>))"
proof -
  let ?p = "set_job k j (p\<lparr>sched := give_back d (sched p), last_sent := (last_sent p)(d := None)\<rparr>)"
  have dk: "d \<in> set (restores (jobs p ! k))" using d by simp
  note once = restoring_once [OF c dist k dk]
  show "conserved names ?p" by (rule conserved_move [OF c k]) (use d h j in auto)
  show "functions_known ?p"
  proof (rule functions_move [OF f k])
    show "\<exists>g. GetFunction (sched ?p) e = Some g \<and> last_sent ?p e = Some g" if "e \<in> set (deployed (sched ?p))" for e
      using deployed_at [OF f, of e] once(1) that by auto
    show "last_sent ?p e = last_sent p e \<and> GetFunction (sched ?p) e = GetFunction (sched p) e"
      if "i < length (jobs p)" "i \<noteq> k" "e \<in> set (holds (jobs p ! i))" for i e
      using once(2) that by auto
  qed (use j in simp_all)
qed

lemma lose_ok:
  assumes c: "conserved names p" and f: "functions_known p"
    and k: "k < length (jobs p)" and d: "restores (jobs p ! k) = [d]" and h: "holds (jobs p ! k) = []"
    and j: "holds j = []" "restores j = []" "\<And>s ls. job_ok s ls j"
  shows "conserved names (set_job k j (p\<lparr>lost := lost p @ [d]\<rparr>))"
    and "functions_known (set_job k j (p\<lparr>lost := lost p @ [d]\<rparr>))"
proof -
  show "conserved names (set_job k j (p\<lparr>lost := lost p @ [d]\<rparr>))"
    by (rule conserved_move [OF c k]) (use d h j in auto)
  show "functions_known (set_job k j (p\<lparr>lost := lost p @ [d]\<rparr>))"
    by (rule functions_same [OF f k]) (use j in auto)
qed

text \<open>A goroutine writes what it sent, or which function is loaded, for the worker it holds alone.\<close>

lemma write_own_ok:
  assumes c: "conserved names p" and f: "functions_known p" and dist: "distinct names"
    and k: "k < length (jobs p)" and d: "holds (jobs p ! k) = [d]" and r: "restores (jobs p ! k) = []"
    and j: "holds j = [d]" "restores j = []" and ok: "job_ok s' ls' j"
    and frame: "\<And>e. e \<noteq> d \<Longrightarrow> ls' e = last_sent p e \<and> GetFunction s' e = GetFunction (sched p) e"
    and same: "lists s' = lists (sched p)" "running s' = running (sched p)" "deployed s' = deployed (sched p)"
    and p': "sched p' = s'" "last_sent p' = ls'" "lost p' = lost p" "jobs p' = (jobs p)[k := j]"
  shows "conserved names p'" and "functions_known p'"
proof -
  have dk: "d \<in> set (holds (jobs p ! k))" using d by simp
  note once = held_once [OF c dist k dk]
  show "conserved names p'"
    by (rule conserved_move [OF c k _ _ p'(1,4,3)]) (use d r j same in auto)
  show "functions_known p'"
  proof (rule functions_move [OF f k])
    show "\<exists>g. GetFunction (sched p') e = Some g \<and> last_sent p' e = Some g" if "e \<in> set (deployed (sched p'))" for e
    proof -
      have e: "e \<in> set (deployed (sched p))" using that by (simp add: p' same)
      then have "e \<noteq> d" using once(2) by blast
      with deployed_at [OF f e] frame show ?thesis by (simp add: p')
    qed
    show "last_sent p' e = last_sent p e \<and> GetFunction (sched p') e = GetFunction (sched p) e"
      if "i < length (jobs p)" "i \<noteq> k" "e \<in> set (holds (jobs p ! i))" for i e
      using once(4) [OF that(1,2)] that(3) frame [of e] by (auto simp: p')
  qed (use ok p' in simp_all)
qed

lemma running_names: "\<lbrakk> conserved names p; d \<in> set (running (sched p)) \<rbrakk> \<Longrightarrow> d \<in> set names"
proof -
  assume "conserved names p" and "d \<in> set (running (sched p))"
  then have "d \<in># lists (sched p) + restoring (jobs p) + mset (lost p)" by (simp add: lists_def)
  with \<open>conserved names p\<close> show "d \<in> set names" by (simp add: conserved_lists)
qed

text \<open>A goroutine that only moves a name between the lists and its own hands.\<close>

lemma plain_move:
  assumes "conserved names p" and "functions_known p" and "k < length (jobs p)" and "jobs p ! k = i"
    and "lists s' + mset (restores j) = lists (sched p) + mset (restores i)"
    and "mset (running s') + mset (holds i) = mset (running (sched p)) + mset (holds j)"
    and "set (deployed s') \<subseteq> set (deployed (sched p))" and "sc_workers s' = sc_workers (sched p)"
    and "job_ok s' (last_sent p) j" and "p' = set_job k j (p\<lparr>sched := s'\<rparr>)"
  shows "conserved names p' \<and> functions_known p'"
proof
  show "conserved names p'"
    by (rule conserved_move [OF assms(1,3)]) (use assms in auto)
  show "functions_known p'"
    by (rule functions_same [OF assms(2,3)]) (use assms in auto)
qed

lemma sched_step_ok:
  assumes "sched_step p p'" and "conserved names p" and "functions_known p" and "distinct names"
    and "known_workers names p"
  shows "conserved names p' \<and> functions_known p'"
  using assms(1)
proof cases
  case (new_call f code)
  show ?thesis unfolding new_call by (intro conjI; rule add_idle_job [OF assms(2,3), where j = "Wants f code"]) simp_all
next
  case (find_deployed k f code d s')
  note r = RunDeployedFunction_Some [OF find_deployed(4)]
  obtain g where "GetFunction (sched p) d = Some g" "last_sent p d = Some g" using deployed_at [OF assms(3) r(2)] by blast
  then have "job_ok s' (last_sent p) (Serving d f)" using r(1) GetFunction_cong [OF r(6)] by simp
  with r show ?thesis by (intro plain_move [OF assms(2,3) find_deployed(2,3) _ _ _ _ _ find_deployed(1)]) simp_all
next
  case (find_none k f code s')
  from RunDeployedFunction_None [OF find_none(4)] show ?thesis
    by (intro plain_move [OF assms(2,3) find_none(2,3) _ _ _ _ _ find_none(1)]) simp_all
next
  case (take_undeployed k f code d s')
  from RunUndeployed_Inr [OF take_undeployed(4)] show ?thesis
    by (intro plain_move [OF assms(2,3) take_undeployed(2,3) _ _ _ _ _ take_undeployed(1)]) simp_all
next
  case (none_undeployed k f code)
  show ?thesis
    by (rule plain_move [OF assms(2,3) none_undeployed(2,3), where s' = "sched p" and j = "Forcing f code"])
      (simp_all add: none_undeployed(1))
next
  case (force k f code d s')
  from force_take_Some [OF force(4)] show ?thesis
    by (intro plain_move [OF assms(2,3) force(2,3) _ _ _ _ _ force(1)]) simp_all
next
  case (evicted k d f code)
  then show ?thesis
    using give_back_ok [OF assms(2,3,4) evicted(2), of d "Wants f code"] by simp
next
  case (evict_fails k d f code)
  then show ?thesis
    using lose_ok [OF assms(2,3) evict_fails(2), of d "Wants f code"] by simp
next
  case (serve k d f s')
  then show ?thesis using complete_ok [OF assms(2,3) serve(2) _ serve(4)] by simp
next
  case (code_error k d f e)
  show ?thesis
    by (rule plain_move [OF assms(2,3) code_error(2,3), where s' = "sched p" and j = "Leaked d"])
      (simp_all add: code_error(1))
next
  case (send_code k d f code)
  show ?thesis unfolding send_code(1)
    by (intro conjI; rule write_own_ok [OF assms(2,3,4) send_code(2), where d = d and j = "Sent d f"
        and s' = "sched p" and ls' = "(last_sent p)(d := Some f)"]) (simp_all add: send_code(3))
next
  case (set_function k d f)
  have "d \<in> set (running (sched p))" using held_running [OF assms(2) set_function(2)] set_function(3) by simp
  then have w: "sc_workers (sched p) d \<noteq> None"
    using running_names [OF assms(2)] assms(5) by (simp add: known_workers_def)
  have ls: "last_sent p d = Some f" using job_at [OF assms(3) set_function(2)] set_function(3) by simp
  show ?thesis unfolding set_function(1)
    by (intro conjI; rule write_own_ok [OF assms(2,3,4) set_function(2), where d = d and j = "Loaded d f"
        and s' = "SetFunction d f (sched p)" and ls' = "last_sent p"])
      (simp_all add: set_function(3) w ls, simp_all add: SetFunction_def)
next
  case (load_done k d f s')
  from complete_ok [OF assms(2,3) load_done(2) _ load_done(4)] load_done(3) have
    ok: "conserved names (set_job k Answered (p\<lparr>sched := s'\<rparr>))"
      "functions_known (set_job k Answered (p\<lparr>sched := s'\<rparr>))" by simp_all
  show ?thesis unfolding load_done(1)
    by (intro conjI; rule add_idle_job [OF ok, where j = "Watching d"]) simp_all
next
  case (wake_taken k d s')
  from wake_take_Taken [OF wake_taken(4)] show ?thesis
    by (intro plain_move [OF assms(2,3) wake_taken(2,3) _ _ _ _ _ wake_taken(1)]) simp_all
next
  case (wake_evicted k d s')
  from wake_take_other [OF wake_evicted(4)] show ?thesis
    by (intro plain_move [OF assms(2,3) wake_evicted(2,3) _ _ _ _ _ wake_evicted(1)]) simp_all
next
  case (restored k d)
  then show ?thesis using give_back_ok [OF assms(2,3,4) restored(2), of d Answered] by simp
next
  case (restore_fails k d)
  then show ?thesis using lose_ok [OF assms(2,3) restore_fails(2), of d Answered] by simp
next
  case (mark_time d now)
  have "job_ok (MarkRunTime d now (sched p)) (last_sent p) j" if "job_ok (sched p) (last_sent p) j" for j
    using that by (rule job_ok_frame) simp
  then show ?thesis using assms(2,3) unfolding mark_time
    by (auto simp: conserved_lists functions_known_def MarkRunTime_def) (simp_all add: MarkRunTime_def [symmetric])
qed


lemma known_workers_step:
  assumes "sched_step p p'" and "known_workers names p"
  shows "known_workers names p'"
proof -
  have upd: "sc_workers (update_worker d f s) k = None \<longleftrightarrow> sc_workers s k = None" for d f s k
    by simp
  have "sc_workers (sched p') = sc_workers (sched p) \<or>
      (\<exists>d f. sched p' = update_worker d f (sched p))"
    using assms(1)
  proof cases
    case (find_none k f code s')
    then show ?thesis using RunDeployedFunction_None [OF find_none(4)] by simp
  next
    case (wake_evicted k d s')
    then show ?thesis using wake_take_other [OF wake_evicted(4)] by simp
  next
    case (serve k d f s')
    then show ?thesis by (auto simp: RunComplete_def split: if_splits)
  next
    case (load_done k d f s')
    then show ?thesis by (auto simp: RunComplete_def split: if_splits)
  qed (auto dest: RunDeployedFunction_Some(6) RunUndeployed_Inr force_take_Some wake_take_Taken
      simp: SetFunction_def MarkRunTime_def)
  then show ?thesis using assms(2) upd unfolding known_workers_def by metis
qed

lemma count_le_1_distinct:
  assumes "\<And>d. count (mset xs) d \<le> 1"
  shows "distinct xs"
  unfolding distinct_count_atmost_1
proof
  fix d
  show "count (mset xs) d = (if d \<in> set xs then 1 else 0)"
    using assms [of d] in_set_count [of d xs] by (cases "d \<in> set xs") (simp_all add: le_antisym)
qed

definition sched_inv :: "string list \<Rightarrow> pool \<Rightarrow> bool" where
  "sched_inv names p \<longleftrightarrow>
     distinct names \<and> conserved names p \<and> functions_known p \<and> known_workers names p"

interpretation scheduling: guarded_system "pool_start names runtime" sched_step "sched_inv names" for names runtime
proof unfold_locales
  fix p
  assume "pool_start names runtime p"
  then show "sched_inv names p"
    by (auto simp: pool_start_def sched_inv_def NewScheduler_def new_workers_def conserved_def
        functions_known_def known_workers_def)
next
  fix p p'
  assume "sched_inv names p" and "sched_step p p'"
  then show "sched_inv names p'"
    using sched_step_ok known_workers_step by (simp add: sched_inv_def) blast
qed

section \<open>Properties\<close>

text \<open>
  C3: No worker is ever in two places: in every state that any interleaving of callers and
  decommissioning goroutines reaches from a new scheduler, the names on the three lists, those being
  restored and those lost are together exactly the names it started with, each once, and the running
  ones are exactly those held by a goroutine, each by one.
\<close>

theorem workers_conserved:
  assumes "reach (pool_start names runtime) sched_step p"
  shows "mset (undeployed (sched p) @ deployed (sched p) @ running (sched p)) + restoring (jobs p) + mset (lost p) =
       mset names \<and>
     distinct (undeployed (sched p) @ deployed (sched p) @ running (sched p)) \<and>
     held (jobs p) = mset (running (sched p)) \<and>
     (\<forall>k < length (jobs p). \<forall>i < length (jobs p). i \<noteq> k \<longrightarrow>
        set (holds (jobs p ! k)) \<inter> set (holds (jobs p ! i)) = {})"
proof -
  from scheduling.reach_inv [OF assms] have inv: "distinct names" "conserved names p" by (simp_all add: sched_inv_def)
  have "count (mset (undeployed (sched p) @ deployed (sched p) @ running (sched p))) d \<le> 1" for d
    using pool_count [OF inv(2,1), of d] by (simp add: lists_def)
  then have "distinct (undeployed (sched p) @ deployed (sched p) @ running (sched p))"
    by (rule count_le_1_distinct)
  moreover have "set (holds (jobs p ! k)) \<inter> set (holds (jobs p ! i)) = {}"
    if "k < length (jobs p)" "i < length (jobs p)" "i \<noteq> k" for k i
    using held_once(4) [OF inv(2,1) that(1) _ that(2,3)] by blast
  ultimately show ?thesis using inv(2) by (simp add: conserved_def ac_simps)
qed

text \<open>One worker that is loaded with a function by a first call and serves a second one.\<close>

definition ex_sched :: "string list \<Rightarrow> string list \<Rightarrow> string list \<Rightarrow> string \<Rightarrow> string list \<Rightarrow> scheduler" where
  "ex_sched u d r f ws =
     (NewScheduler [''w''] ''python'')\<lparr>sc_workers := [''w'' \<mapsto> \<lparr>sw_worker = True, sw_runTime = 0, sw_function = f\<rparr>],
       undeployed := u, deployed := d, running := r, watching := ws\<rparr>"

definition ex_pool :: "scheduler \<Rightarrow> job list \<Rightarrow> string option \<Rightarrow> pool" where
  "ex_pool s js sent = \<lparr>sched = s, jobs = js, lost = [], last_sent = (\<lambda>_. None)(''w'' := sent)\<rparr>"

lemma ex_pool_simps [simp]:
  "jobs (ex_pool s js sent) = js" "sched (ex_pool s js sent) = s" "lost (ex_pool s js sent) = []"
  "(ex_pool s js sent)\<lparr>jobs := ks\<rparr> = ex_pool s ks sent"
  "(ex_pool s js sent)\<lparr>sched := t\<rparr> = ex_pool t js sent"
  "(ex_pool s js sent)\<lparr>last_sent := (last_sent (ex_pool s js sent))(''w'' := x)\<rparr> = ex_pool s js x"
  "set_job k j (ex_pool s js sent) = ex_pool s (js[k := j]) sent"
  by (simp_all add: ex_pool_def set_job_def)

lemma ex_sched_simps:
  "GetFunction (ex_sched u d r f ws) ''w'' = Some f"
  "undeployed (ex_sched u d r f ws) = u" "deployed (ex_sched u d r f ws) = d" "running (ex_sched u d r f ws) = r"
  "(ex_sched u d r f ws)\<lparr>undeployed := u', running := r'\<rparr> = ex_sched u' d r' f ws"
  "(ex_sched u d r f ws)\<lparr>deployed := d', running := r'\<rparr> = ex_sched u d' r' f ws"
  "(ex_sched u d r f ws)\<lparr>running := r', deployed := d'\<rparr> = ex_sched u d' r' f ws"
  "SetFunction ''w'' g (ex_sched u d r f ws) = ex_sched u d r g ws"
  "ScheduleDecommission ''w'' (ex_sched u d r f ws) = ex_sched u d r f (ws @ [''w''])"
  by (simp_all add: ex_sched_def GetFunction_def SetFunction_def update_worker_def ScheduleDecommission_def)

lemma ex_path:
  "reach (pool_start [''w''] ''python'') sched_step
     (ex_pool (ex_sched [] [] [''w''] ''f'' [''w'']) [Answered, Watching ''w'', Serving ''w'' ''f''] (Some ''f''))"
proof -
  let ?R = "reach (pool_start [''w''] ''python'') sched_step"
  let ?code = "Inr ''code'' :: string res"
  have "NewScheduler [''w''] ''python'' = ex_sched [''w''] [] [] [] []"
    by (simp add: ex_sched_def NewScheduler_def new_workers_def fun_eq_iff)
  then have "?R (ex_pool (ex_sched [''w''] [] [] [] []) [] None)"
    by (intro reach_init) (simp add: pool_start_def ex_pool_def)
  from reach_step [OF this, OF new_call [where f = "''f''" and code = ?code]]
  have r: "?R (ex_pool (ex_sched [''w''] [] [] [] []) [Wants ''f'' ?code] None)" by simp
  have "?R (ex_pool (ex_sched [''w''] [] [] [] []) [Missed ''f'' ?code] None)"
    using reach_step [OF r, OF find_none [where k = 0 and f = "''f''" and code = ?code]]
    by (simp add: RunDeployedFunction_def ex_sched_simps)
  note r = this
  have "?R (ex_pool (ex_sched [] [] [''w''] [] []) [Loading ''w'' ''f'' ?code] None)"
    using reach_step [OF r, OF take_undeployed [where k = 0 and f = "''f''" and code = ?code and d = "''w''"]]
    by (simp add: RunUndeployed_def ex_sched_simps)
  note r = this
  have "?R (ex_pool (ex_sched [] [] [''w''] [] []) [Sent ''w'' ''f''] (Some ''f''))"
    using reach_step [OF r, OF send_code [where k = 0 and f = "''f''" and d = "''w''"]] by simp
  note r = this
  have "?R (ex_pool (ex_sched [] [] [''w''] ''f'' []) [Loaded ''w'' ''f''] (Some ''f''))"
    using reach_step [OF r, OF set_function [where k = 0 and f = "''f''" and d = "''w''"]] by (simp add: ex_sched_simps)
  note r = this
  have "?R (ex_pool (ex_sched [] [''w''] [] ''f'' [''w'']) [Answered, Watching ''w''] (Some ''f''))"
    using reach_step [OF r, OF load_done [where k = 0 and f = "''f''" and d = "''w''"]]
    by (simp add: RunComplete_def ex_sched_simps)
  from reach_step [OF this, OF new_call [where f = "''f''" and code = ?code]]
  have r: "?R (ex_pool (ex_sched [] [''w''] [] ''f'' [''w'']) [Answered, Watching ''w'', Wants ''f'' ?code] (Some ''f''))"
    by simp
  show ?thesis
    using reach_step [OF r, OF find_deployed [where k = 2 and f = "''f''" and code = ?code and d = "''w''"]]
    by (simp add: RunDeployedFunction_def ex_sched_simps)
qed

theorem workers_conserved_witness:
  "mset (running (ex_sched [] [] [''w''] ''f'' [''w''])) = mset [''w''] \<and>
   held [Answered, Watching ''w'', Serving ''w'' ''f''] = mset [''w'']"
  using workers_conserved [OF ex_path] by (simp add: ex_sched_simps)

text \<open>
  A request only ever reaches a worker that was sent its function: whenever a goroutine serves a
  request for a function on a deployed worker, that function's code is what the worker was sent last
  since its last restoration, and the same holds of every deployed worker and the function recorded for
  it.
\<close>

theorem requests_reach_their_function:
  assumes "reach (pool_start names runtime) sched_step p"
  shows "(\<forall>j \<in> set (jobs p). \<forall>d f. j = Serving d f \<longrightarrow> last_sent p d = Some f) \<and>
     (\<forall>d \<in> set (deployed (sched p)). \<exists>f. GetFunction (sched p) d = Some f \<and> last_sent p d = Some f)"
proof -
  from scheduling.reach_inv [OF assms] have "functions_known p" by (simp add: sched_inv_def)
  then show ?thesis by (auto simp: functions_known_def)
qed

theorem requests_reach_their_function_witness:
  "last_sent (ex_pool (ex_sched [] [] [''w''] ''f'' [''w'']) [Answered, Watching ''w'', Serving ''w'' ''f''] (Some ''f''))
     ''w'' = Some ''f''"
  using requests_reach_their_function [OF ex_path] by simp

text \<open>A worker whose code could not be read stays with the call that returned the error.\<close>

lemma leaked_step:
  assumes "sched_step p p'" and "Leaked d \<in> set (jobs p)"
  shows "Leaked d \<in> set (jobs p')"
proof -
  have keep: "Leaked d \<in> set ((jobs p)[k := j])" if "k < length (jobs p)" "jobs p ! k \<noteq> Leaked d" for k j
  proof -
    from assms(2) obtain i where i: "i < length (jobs p)" "jobs p ! i = Leaked d" by (auto simp: in_set_conv_nth)
    then have "(jobs p)[k := j] ! i = Leaked d" using that by (cases "i = k") simp_all
    with i(1) show ?thesis by (metis length_list_update nth_mem)
  qed
  from assms(1) show ?thesis
  proof cases
    case (load_done k e f s')
    then show ?thesis using keep [of k Answered] by simp
  qed (use assms(2) keep in auto)
qed

text \<open>
  C40: A document whose code cannot be read costs the pool a worker for good: the call that got the error
  of \<open>CodeString\<close> never gives the worker back, so that in every state reached afterwards, whatever the
  other goroutines do, the worker is still on the running list.
\<close>

theorem code_error_loses_worker:
  assumes "reach (pool_start names runtime) sched_step p" and "k < length (jobs p)"
    and "jobs p ! k = Loading d f (Inl (Returned e))"
  shows "\<exists>q. sched_step p q \<and> (\<forall>p'. sched_step\<^sup>*\<^sup>* q p' \<longrightarrow> d \<in> set (running (sched p')))"
proof (intro exI conjI allI impI)
  show step: "sched_step p (set_job k (Leaked d) p)" by (rule code_error [OF assms(2,3)])
  fix p'
  assume run: "sched_step\<^sup>*\<^sup>* (set_job k (Leaked d) p) p'"
  from reach_rtranclp [OF reach_step [OF assms(1) step] run] have
    inv: "conserved names p'" using scheduling.reach_inv by (auto simp: sched_inv_def)
  have "Leaked d \<in> set (jobs (set_job k (Leaked d) p))" using assms(2) by (simp add: set_update_memI)
  with run have "Leaked d \<in> set (jobs p')"
    by (induction rule: rtranclp_induct) (auto intro: leaked_step)
  then obtain i where "i < length (jobs p')" "jobs p' ! i = Leaked d" by (auto simp: in_set_conv_nth)
  then show "d \<in> set (running (sched p'))" using held_running [OF inv, of i d] by simp
qed

lemma ex_bad_path:
  "reach (pool_start [''w''] ''python'') sched_step
     (ex_pool (ex_sched [] [] [''w''] [] []) [Loading ''w'' ''f'' (Inl (Returned (Errorf ''no code'')))] None)"
proof -
  let ?R = "reach (pool_start [''w''] ''python'') sched_step"
  let ?code = "Inl (Returned (Errorf ''no code'')) :: string res"
  have "NewScheduler [''w''] ''python'' = ex_sched [''w''] [] [] [] []"
    by (simp add: ex_sched_def NewScheduler_def new_workers_def fun_eq_iff)
  then have "?R (ex_pool (ex_sched [''w''] [] [] [] []) [] None)"
    by (intro reach_init) (simp add: pool_start_def ex_pool_def)
  from reach_step [OF this, OF new_call [where f = "''f''" and code = ?code]]
  have r: "?R (ex_pool (ex_sched [''w''] [] [] [] []) [Wants ''f'' ?code] None)" by simp
  have "?R (ex_pool (ex_sched [''w''] [] [] [] []) [Missed ''f'' ?code] None)"
    using reach_step [OF r, OF find_none [where k = 0 and f = "''f''" and code = ?code]]
    by (simp add: RunDeployedFunction_def ex_sched_simps)
  note r = this
  show ?thesis
    using reach_step [OF r, OF take_undeployed [where k = 0 and f = "''f''" and code = ?code and d = "''w''"]]
    by (simp add: RunUndeployed_def ex_sched_simps)
qed

theorem code_error_loses_worker_witness:
  "\<exists>q. sched_step (ex_pool (ex_sched [] [] [''w''] [] []) [Loading ''w'' ''f'' (Inl (Returned (Errorf ''no code'')))] None) q \<and>
     ''w'' \<in> set (running (sched q))"
proof -
  let ?p = "ex_pool (ex_sched [] [] [''w''] [] []) [Loading ''w'' ''f'' (Inl (Returned (Errorf ''no code'')))] None"
  have "0 < length (jobs ?p)" "jobs ?p ! 0 = Loading ''w'' ''f'' (Inl (Returned (Errorf ''no code'')))" by simp_all
  from code_error_loses_worker [OF ex_bad_path this] obtain q where
    "sched_step ?p q" "\<forall>p'. sched_step\<^sup>*\<^sup>* q p' \<longrightarrow> ''w'' \<in> set (running (sched p'))" by blast
  then show ?thesis by blast
qed

text \<open>
  With no worker deployed or undeployed a call never returns: \<open>ForceDecomission\<close> calls itself for
  ever, and \<open>Run\<close> waits for it, for every function and request.
\<close>

theorem exhausted_pool_blocks:
  assumes "undeployed s = []" and "deployed s = []"
  shows "Run ops n function request (s, w) = (Inl Blocked, (s, w))"
proof -
  have force: "ForceDecomission ops k (s, w) = (Inl Blocked, (s, w))" for k
    using assms(2) by (induction k) (simp_all add: force_take_def)
  have "RunDeployedFunction (f_id function) s = (None, s)" by (simp add: RunDeployedFunction_def assms(2))
  then show ?thesis
    using assms(1) by (cases n) (simp_all add: bindS_def atomic_def force)
qed

definition ex_workers :: "string list worker_ops" where
  "ex_workers = \<lparr>w_send_function = (\<lambda>d code w. (Inr (), w @ [''load''])),
     w_send_request = (\<lambda>d req w. (Inr req, w @ [''run''])),
     w_restore = (\<lambda>d w. (Inr (), w @ [''restore''])), w_end = (\<lambda>d w. (Inr (), w)), w_now = (\<lambda>w. int (length w))\<rparr>"

theorem exhausted_pool_blocks_witness:
  "Run ex_workers 100 ex_doc JNull (ex_sched [] [] [''w''] [] [], []) = (Inl Blocked, (ex_sched [] [] [''w''] [] [], []))"
  by (rule exhausted_pool_blocks) (simp_all add: ex_sched_simps)

lemma RunComplete_added:
  assumes "running s = rs @ [d]" and "d \<notin> set rs"
  shows "RunComplete d s = Inr (s\<lparr>running := rs, deployed := deployed s @ [d]\<rparr>)"
  using drop_last_added [OF assms(2)] assms(1) by (simp add: RunComplete_def)

text \<open>The scheduler of the tests, with its workers and undeployed list given.\<close>

definition NewFakeScheduler :: "(string \<Rightarrow> schedule_worker option) \<Rightarrow> string list \<Rightarrow> string list \<Rightarrow> int \<Rightarrow> scheduler" where
  "NewFakeScheduler workers names ids t =
     \<lparr>sc_runtime = [], sc_workers = workers, sc_names = names, undeployed = ids, deployed = [], running = [],
      decommissionTime = t, watching = []\<rparr>"

definition loaded_with :: "string \<Rightarrow> string \<Rightarrow> int \<Rightarrow> scheduler \<Rightarrow> scheduler" where
  "loaded_with d f now s = SetFunction d f (MarkRunTime d now s)"

lemma run_undeployed_Inr:
  assumes "running s = rs @ [d]" and "d \<notin> set rs" and "CodeString function = Inr code"
    and "w_send_function ops d code w = (Inr (), w1)" and "w_send_request ops d request w1 = (Inr v, w2)"
  shows "run_undeployed ops d function request (s, w) =
     (Inr v, (ScheduleDecommission d ((loaded_with d (f_id function) (w_now ops w1) s)
        \<lparr>running := rs, deployed := deployed s @ [d]\<rparr>), w2))"
proof -
  let ?s = "loaded_with d (f_id function) (w_now ops w1) s"
  have "running ?s = rs @ [d]" "deployed ?s = deployed s"
    using assms(1) by (simp_all add: loaded_with_def SetFunction_def MarkRunTime_def)
  from RunComplete_added [OF this(1) assms(2)] this(2) have
    "RunComplete d ?s = Inr (?s\<lparr>running := rs, deployed := deployed s @ [d]\<rparr>)" by simp
  then show ?thesis
    using assms by (simp add: run_undeployed_def bindS_def tryS_def in_pool_def modify_def complete_def
        reply_of_def loaded_with_def)
qed

lemma loaded_with_GetFunction:
  "sc_workers s d \<noteq> None \<Longrightarrow> GetFunction (loaded_with d f now s) e = (if e = d then Some f else GetFunction s e)"
  by (auto simp: loaded_with_def GetFunction_def SetFunction_def MarkRunTime_def update_worker_def)

lemma GetFunction_lists [simp]:
  "GetFunction (s\<lparr>undeployed := x\<rparr>) = GetFunction s" "GetFunction (s\<lparr>deployed := x\<rparr>) = GetFunction s"
  "GetFunction (s\<lparr>running := x\<rparr>) = GetFunction s" "GetFunction (s\<lparr>watching := x\<rparr>) = GetFunction s"
  by (simp_all add: GetFunction_def fun_eq_iff)

text \<open>
  C29: A function is loaded once and then reused: when no deployed worker has the function, a successful
  \<open>Run\<close> sends its code and then the request to the first undeployed worker, returns the worker's result,
  and deploys that worker with the function; and the next \<open>Run\<close> of the same function sends its request to
  that worker at once, with no code, and leaves it deployed.
\<close>

theorem Run_loads_once:
  assumes "\<forall>e \<in> set (deployed s). GetFunction s e \<noteq> Some (f_id function)" and "undeployed s = d # ds"
    and "d \<notin> set (running s)" and "d \<notin> set (deployed s)" and "sc_workers s d \<noteq> None"
    and "CodeString function = Inr code"
    and "w_send_function ops d code w = (Inr (), w1)" and "w_send_request ops d request w1 = (Inr v, w2)"
    and "w_send_request ops d request' w2 = (Inr v', w3)"
  shows "\<exists>s1 s2.
     Run ops (Suc n) function request (s, w) = (Inr v, (s1, w2)) \<and>
     undeployed s1 = ds \<and> deployed s1 = deployed s @ [d] \<and> running s1 = running s \<and>
     GetFunction s1 d = Some (f_id function) \<and> watching s1 = watching s @ [d] \<and>
     Run ops (Suc m) function request' (s1, w2) = (Inr v', (s2, w3)) \<and>
     undeployed s2 = ds \<and> deployed s2 = deployed s @ [d] \<and> running s2 = running s"
proof -
  let ?f = "f_id function"
  let ?s0 = "s\<lparr>undeployed := ds, running := running s @ [d]\<rparr>"
  let ?s1 = "ScheduleDecommission d ((loaded_with d ?f (w_now ops w1) ?s0)\<lparr>running := running s, deployed := deployed s @ [d]\<rparr>)"
  have none: "RunDeployedFunction ?f s = (None, s)"
    using assms(1) find_index_None [of "\<lambda>e. GetFunction s e = Some ?f" "deployed s"]
    by (simp add: RunDeployedFunction_def)
  have first: "Run ops (Suc n) function request (s, w) = (Inr v, (?s1, w2))"
    using run_undeployed_Inr [of ?s0 "running s" d "function" code ops w w1 request v w2] assms none
    by (simp add: bindS_def atomic_def RunUndeployed_def)
  have "sc_workers ?s0 d \<noteq> None" using assms(5) by simp
  note lw = loaded_with_GetFunction [OF this, of ?f "w_now ops w1"]
  have get: "GetFunction ?s1 e = (if e = d then Some ?f else GetFunction s e)" for e
    by (simp add: lw)
  have lists1: "undeployed ?s1 = ds" "deployed ?s1 = deployed s @ [d]" "running ?s1 = running s"
    "watching ?s1 = watching s @ [d]"
    by (simp_all add: ScheduleDecommission_def loaded_with_def SetFunction_def MarkRunTime_def update_worker_def)
  have "\<forall>e \<in> set (deployed s). GetFunction ?s1 e \<noteq> Some ?f" using assms(1,4) get by auto
  then have "find_index (\<lambda>e. GetFunction ?s1 e = Some ?f) (deployed s @ [d]) = Some (length (deployed s))"
    by (rule find_index_append) (simp add: lw)
  then have found: "RunDeployedFunction ?f ?s1 =
      (Some d, ?s1\<lparr>deployed := deployed s, running := running s @ [d]\<rparr>)"
    unfolding RunDeployedFunction_def lists1 by simp
  let ?t = "MarkRunTime d (w_now ops w2) (?s1\<lparr>deployed := deployed s, running := running s @ [d]\<rparr>)"
  have t: "running ?t = running s @ [d]" "deployed ?t = deployed s" "undeployed ?t = ds"
    using lists1 by (simp_all add: MarkRunTime_def update_worker_def)
  let ?s2 = "?t\<lparr>running := running s, deployed := deployed s @ [d]\<rparr>"
  from RunComplete_added [OF t(1) assms(3)] t(2) have "RunComplete d ?t = Inr ?s2" by simp
  then have second: "Run ops (Suc m) function request' (?s1, w2) = (Inr v', (?s2, w3))"
    using found assms(9)
    by (simp add: bindS_def atomic_def run_deployed_def modify_def tryS_def in_pool_def complete_def reply_of_def)
  show ?thesis
    by (intro exI [of _ ?s1] exI [of _ ?s2] conjI first second) (use lists1 get t in simp_all)
qed

theorem Run_loads_once_witness:
  "\<exists>s1 s2. Run ex_workers 1 ex_doc JNull (ex_sched [''w''] [] [] [] [], []) = (Inr JNull, (s1, [''load'', ''run''])) \<and>
     Run ex_workers 1 ex_doc (JBool True) (s1, [''load'', ''run'']) = (Inr (JBool True), (s2, [''load'', ''run'', ''run'']))"
  using Run_loads_once [of "ex_sched [''w''] [] [] [] []" ex_doc "''w''" "[]" "''def main(req): return req''"
      ex_workers "[]" "[''load'']" JNull JNull "[''load'', ''run'']" "JBool True" "JBool True" "[''load'', ''run'', ''run'']" 0 0]
  by (simp add: ex_sched_simps ex_workers_def CodeString_def ex_doc_def) (auto simp: ex_sched_def)

end
