(* ===== verification/Worker_Life.thy ===== *)
theory Worker_Life
  imports Scheduler
begin

text \<open>
  What \<open>invoker/workerpool/scheduler.go\<close> promises of one worker, as an abstract life cycle without lists,
  goroutines and critical sections, and the proof that the scheduler refines it: every step of any
  interleaving of callers and decommissioning goroutines moves at most one worker, along the life cycle.
\<close>

section \<open>The life cycle of a worker\<close>

text \<open>
  A worker that is \<open>In_use\<close> has been sent the code of the given function since its last restoration, or
  none yet.
\<close>

datatype phase = Idle | In_use "string option" | Ready string | Cleaning | Gone

inductive life_step :: "phase \<Rightarrow> phase \<Rightarrow> bool" where
  acquire: "life_step Idle (In_use None)"
| load: "life_step (In_use None) (In_use (Some f))"
| release: "life_step (In_use (Some f)) (Ready f)"
| reuse: "life_step (Ready f) (In_use (Some f))"
| recycle: "life_step (Ready f) Cleaning"
| cleaned: "life_step Cleaning Idle"
| give_up: "life_step Cleaning Gone"

inductive_simps life_step_from [simp]:
  "life_step Idle x" "life_step (In_use None) x" "life_step (In_use (Some f)) x" "life_step (Ready f) x"
  "life_step Cleaning x" "life_step Gone x"

code_pred life_step .

text \<open>
  The phase of a worker in a state of the scheduler. By \<open>workers_conserved\<close> a worker that is on none
  of the lists and not lost is being restored.
\<close>

definition phase_of :: "pool \<Rightarrow> string \<Rightarrow> phase" where
  "phase_of p d =
     (if d \<in> set (undeployed (sched p)) then Idle
      else if d \<in> set (deployed (sched p)) then Ready (case last_sent p d of Some f \<Rightarrow> f | None \<Rightarrow> [])
      else if d \<in> set (running (sched p)) then In_use (last_sent p d)
      else if d \<in> set (lost p) then Gone
      else Cleaning)"

section \<open>Only clean workers are loaded\<close>

definition clean :: "pool \<Rightarrow> bool" where
  "clean p \<longleftrightarrow> (\<forall>d \<in> set (undeployed (sched p)). last_sent p d = None) \<and>
     (\<forall>d f code. Loading d f code \<in> set (jobs p) \<longrightarrow> last_sent p d = None)"

text \<open>How the critical sections move one name between the lists.\<close>

lemma RunDeployedFunction_moves:
  assumes "RunDeployedFunction f s = (Some d, s')"
  shows "undeployed s' = undeployed s" and "add_mset d (mset (deployed s')) = mset (deployed s)"
    and "running s' = running s @ [d]"
proof -
  from assms obtain i where i: "find_index (\<lambda>d. GetFunction s d = Some f) (deployed s) = Some i"
    and s': "d = deployed s ! i" "s' = s\<lparr>deployed := drop_index i (deployed s), running := running s @ [deployed s ! i]\<rparr>"
    by (auto simp: RunDeployedFunction_def split: option.splits)
  show "undeployed s' = undeployed s" "running s' = running s @ [d]" by (simp_all add: s')
  show "add_mset d (mset (deployed s')) = mset (deployed s)"
    using mset_drop_index [of i "deployed s"] find_index_Some [OF i] by (simp add: s')
qed

lemma RunUndeployed_moves:
  "RunUndeployed s = Inr (d, s') \<Longrightarrow>
     undeployed s = d # undeployed s' \<and> deployed s' = deployed s \<and> running s' = running s @ [d]"
  by (auto simp: RunUndeployed_def split: list.splits)

lemma RunComplete_moves: "RunComplete d s = Inr s' \<Longrightarrow> undeployed s' = undeployed s"
  by (auto simp: RunComplete_def Let_def split: if_splits)

lemma force_take_moves:
  "force_take s = Some (d, s') \<Longrightarrow> undeployed s' = undeployed s \<and> deployed s = d # deployed s' \<and> running s' = running s"
  by (auto simp: force_take_def split: list.splits)

lemma wake_take_moves:
  assumes "wake_take d s = (Taken, s')"
  shows "undeployed s' = undeployed s" and "add_mset d (mset (deployed s')) = mset (deployed s)" and "running s' = running s"
proof -
  from assms obtain i where i: "find_index (\<lambda>w. w = d) (deployed s) = Some i"
    and s': "s' = s\<lparr>deployed := drop_index i (deployed s)\<rparr>"
    by (auto simp: wake_take_def split: option.splits)
  show "undeployed s' = undeployed s" "running s' = running s" by (simp_all add: s')
  show "add_mset d (mset (deployed s')) = mset (deployed s)"
    using mset_drop_index [of i "deployed s"] find_index_Some [OF i] by (simp add: s')
qed

lemma same_lists [simp]:
  "undeployed (MarkRunTime d now s) = undeployed s" "deployed (MarkRunTime d now s) = deployed s"
  "running (MarkRunTime d now s) = running s"
  "undeployed (SetFunction d f s) = undeployed s" "deployed (SetFunction d f s) = deployed s"
  "running (SetFunction d f s) = running s"
  "undeployed (ScheduleDecommission d s) = undeployed s"
  by (simp_all add: MarkRunTime_def SetFunction_def update_worker_def ScheduleDecommission_def)

lemma undeployed_give_back [simp]: "undeployed (give_back d s) = undeployed s @ [d]"
  by (simp add: give_back_def)

text \<open>A goroutine that is not about to load a worker, and takes none that is to be loaded, keeps it clean.\<close>

lemma clean_same:
  assumes "clean p" and "set (undeployed (sched p')) \<subseteq> set (undeployed (sched p))"
    and "jobs p' = (jobs p)[k := j] @ js" and "last_sent p' = last_sent p"
    and "\<And>d f code. Loading d f code \<in> set (j # js) \<Longrightarrow> last_sent p d = None"
  shows "clean p'"
proof -
  have "last_sent p d = None" if "Loading d f code \<in> set ((jobs p)[k := j] @ js)" for d f code
  proof -
    from that set_update_subset_insert [of "jobs p" k j]
    have "Loading d f code \<in> set (j # js) \<or> Loading d f code \<in> set (jobs p)" by auto
    with assms(1,5) show ?thesis unfolding clean_def by blast
  qed
  with assms(1,2) show ?thesis by (auto simp: clean_def assms(3,4))
qed

lemma clean_given_back:
  assumes "clean p" and "\<And>e f code. j \<noteq> Loading e f code"
  shows "clean (set_job k j (p\<lparr>sched := give_back d (sched p), last_sent := (last_sent p)(d := None)\<rparr>))"
  using assms set_update_subset_insert [of "jobs p" k j] unfolding clean_def by (fastforce simp: set_job_def)

lemma clean_sent:
  assumes "sched_inv names p" and "clean p" and k: "k < length (jobs p)" and job: "jobs p ! k = Loading d f code"
  shows "clean (set_job k (Sent d f) (p\<lparr>last_sent := (last_sent p)(d := Some f)\<rparr>))"
proof -
  from assms(1) have c: "conserved names p" "distinct names" by (simp_all add: sched_inv_def)
  have d: "d \<in> set (holds (jobs p ! k))" by (simp add: job)
  note once = held_once [OF c k d]
  have "e \<noteq> d \<and> last_sent p e = None" if "Loading e g code' \<in> set ((jobs p)[k := Sent d f])" for e g code'
  proof -
    from that obtain i where i: "i < length (jobs p)" "(jobs p)[k := Sent d f] ! i = Loading e g code'"
      by (auto simp: in_set_conv_nth)
    then have "i \<noteq> k" by (cases "i = k") auto
    with i have j: "jobs p ! i = Loading e g code'" by simp
    then have "Loading e g code' \<in> set (jobs p)" using i(1) by (metis nth_mem)
    with once(4) [OF i(1) \<open>i \<noteq> k\<close>] assms(2) show ?thesis by (auto simp: j clean_def)
  qed
  then show ?thesis using assms(2) once(1) by (auto simp: clean_def)
qed

text \<open>Most goroutines only move on, and leave the workers that wait for their first code as they are.\<close>

lemma clean_step:
  assumes "sched_step p p'" and "sched_inv names p" and "clean p"
  shows "clean p'"
  using assms(1)
proof cases
  case (new_call f code)
  then show ?thesis using assms(3) by (auto simp: clean_def)
next
  case (find_deployed k f code d s')
  with RunDeployedFunction_moves [OF find_deployed(4)] show ?thesis
    by (intro clean_same [OF assms(3), where k = k and j = "Serving d f" and js = "[]"]) simp_all
next
  case (find_none k f code s')
  with RunDeployedFunction_None [OF find_none(4)] show ?thesis
    by (intro clean_same [OF assms(3), where k = k and j = "Missed f code" and js = "[]"]) simp_all
next
  case (take_undeployed k f code d s')
  from RunUndeployed_moves [OF take_undeployed(4)] assms(3) have "last_sent p d = None" by (simp add: clean_def)
  with take_undeployed(1) RunUndeployed_moves [OF take_undeployed(4)] show ?thesis
    by (intro clean_same [OF assms(3), where k = k and j = "Loading d f code" and js = "[]"]) auto
next
  case (none_undeployed k f code)
  then show ?thesis
    by (intro clean_same [OF assms(3), where k = k and j = "Forcing f code" and js = "[]"]) simp_all
next
  case (force k f code d s')
  with force_take_moves [OF force(4)] show ?thesis
    by (intro clean_same [OF assms(3), where k = k and j = "Evicting d f code" and js = "[]"]) simp_all
next
  case (evicted k d f code)
  show ?thesis unfolding evicted(1) by (rule clean_given_back [OF assms(3)]) simp
next
  case (evict_fails k d f code)
  then show ?thesis
    by (intro clean_same [OF assms(3), where k = k and j = "Wants f code" and js = "[]"]) simp_all
next
  case (serve k d f s')
  with RunComplete_moves [OF serve(4)] show ?thesis
    by (intro clean_same [OF assms(3), where k = k and j = Answered and js = "[]"]) simp_all
next
  case (code_error k d f e)
  then show ?thesis
    by (intro clean_same [OF assms(3), where k = k and j = "Leaked d" and js = "[]"]) simp_all
next
  case (send_code k d f code)
  show ?thesis unfolding send_code(1) by (rule clean_sent [OF assms(2,3) send_code(2,3)])
next
  case (set_function k d f)
  then show ?thesis
    by (intro clean_same [OF assms(3), where k = k and j = "Loaded d f" and js = "[]"]) simp_all
next
  case (load_done k d f s')
  with RunComplete_moves [OF load_done(4)] show ?thesis
    by (intro clean_same [OF assms(3), where k = k and j = Answered and js = "[Watching d]"]) simp_all
next
  case (wake_taken k d s')
  with wake_take_moves [OF wake_taken(4)] show ?thesis
    by (intro clean_same [OF assms(3), where k = k and j = "Restoring d" and js = "[]"]) simp_all
next
  case (wake_evicted k d s')
  with wake_take_other [OF wake_evicted(4)] show ?thesis
    by (intro clean_same [OF assms(3), where k = k and j = Answered and js = "[]"]) simp_all
next
  case (restored k d)
  show ?thesis unfolding restored(1) by (rule clean_given_back [OF assms(3)]) simp
next
  case (restore_fails k d)
  then show ?thesis
    by (intro clean_same [OF assms(3), where k = k and j = Answered and js = "[]"]) simp_all
next
  case (mark_time d now)
  then show ?thesis using assms(3) by (simp add: clean_def)
qed

section \<open>The refinement\<close>

definition life_inv :: "string list \<Rightarrow> pool \<Rightarrow> bool" where
  "life_inv names p \<longleftrightarrow> sched_inv names p \<and> clean p"

lemma life_inv_step:
  assumes "life_inv names p" and "sched_step p p'"
  shows "life_inv names p'"
  using assms clean_step scheduling.inv_step unfolding life_inv_def by blast

text \<open>Where a worker is determines its phase.\<close>

lemma phase_at:
  assumes "sched_inv names p"
  shows "d \<in> set (undeployed (sched p)) \<Longrightarrow> phase_of p d = Idle"
    and "d \<in> set (deployed (sched p)) \<Longrightarrow> \<exists>f. last_sent p d = Some f \<and> phase_of p d = Ready f"
    and "d \<in> set (running (sched p)) \<Longrightarrow> phase_of p d = In_use (last_sent p d)"
    and "d \<in> set (lost p) \<Longrightarrow> phase_of p d = Gone"
    and "d \<in># restoring (jobs p) \<Longrightarrow> phase_of p d = Cleaning"
proof -
  from assms have c: "conserved names p" "distinct names" and f: "functions_known p" by (simp_all add: sched_inv_def)
  note le = pool_count [OF c, of d, unfolded lists_def count_union]
  note at = in_set_count [of d "undeployed (sched p)"] in_set_count [of d "deployed (sched p)"]
    in_set_count [of d "running (sched p)"] in_set_count [of d "lost p"]
  show "d \<in> set (undeployed (sched p)) \<Longrightarrow> phase_of p d = Idle" by (simp add: phase_of_def)
  {
    assume d: "d \<in> set (deployed (sched p))"
    then have "d \<notin> set (undeployed (sched p))" using le at by linarith
    with deployed_at [OF f d] d show "\<exists>f. last_sent p d = Some f \<and> phase_of p d = Ready f" by (auto simp: phase_of_def)
  next
    assume d: "d \<in> set (running (sched p))"
    then have "d \<notin> set (undeployed (sched p))" "d \<notin> set (deployed (sched p))" using le at by linarith+
    with d show "phase_of p d = In_use (last_sent p d)" by (simp add: phase_of_def)
  next
    assume d: "d \<in> set (lost p)"
    then have "d \<notin> set (undeployed (sched p))" "d \<notin> set (deployed (sched p))" "d \<notin> set (running (sched p))"
      using le at by linarith+
    with d show "phase_of p d = Gone" by (simp add: phase_of_def)
  next
    assume "d \<in># restoring (jobs p)"
    then have "1 \<le> count (restoring (jobs p)) d" by simp
    then have "d \<notin> set (undeployed (sched p))" "d \<notin> set (deployed (sched p))" "d \<notin> set (running (sched p))"
      "d \<notin> set (lost p)" using le at by linarith+
    then show "phase_of p d = Cleaning" by (simp add: phase_of_def)
  }
qed

text \<open>
  One worker moves: every other worker keeps its place on the lists and what it was sent.
\<close>

definition others_stay :: "string \<Rightarrow> pool \<Rightarrow> pool \<Rightarrow> bool" where
  "others_stay d p p' \<longleftrightarrow> (\<forall>e. e \<noteq> d \<longrightarrow>
     (e \<in> set (undeployed (sched p')) \<longleftrightarrow> e \<in> set (undeployed (sched p))) \<and>
     (e \<in> set (deployed (sched p')) \<longleftrightarrow> e \<in> set (deployed (sched p))) \<and>
     (e \<in> set (running (sched p')) \<longleftrightarrow> e \<in> set (running (sched p))) \<and>
     (e \<in> set (lost p') \<longleftrightarrow> e \<in> set (lost p)) \<and> last_sent p' e = last_sent p e)"

definition one_moves :: "pool \<Rightarrow> pool \<Rightarrow> bool" where
  "one_moves p p' \<longleftrightarrow> (\<exists>d. (\<forall>e. e \<noteq> d \<longrightarrow> phase_of p' e = phase_of p e) \<and>
     (phase_of p' d = phase_of p d \<or> life_step (phase_of p d) (phase_of p' d)))"

lemma one_movesI:
  assumes "others_stay d p p'" and "phase_of p' d = phase_of p d \<or> life_step (phase_of p d) (phase_of p' d)"
  shows "one_moves p p'"
  using assms unfolding one_moves_def others_stay_def by (intro exI [of _ d]) (simp add: phase_of_def)

lemma none_moves:
  assumes "undeployed (sched p') = undeployed (sched p)" and "deployed (sched p') = deployed (sched p)"
    and "running (sched p') = running (sched p)" and "lost p' = lost p" and "last_sent p' = last_sent p"
  shows "one_moves p p'"
  unfolding one_moves_def by (simp add: phase_of_def assms)

lemma mem_add_mset: "add_mset d (mset xs) = mset ys \<Longrightarrow> set ys = insert d (set xs)"
  by (metis set_mset_add_mset_insert set_mset_mset)

lemma restoring_at:
  "\<lbrakk> k < length (jobs p); d \<in> set (restores (jobs p ! k)) \<rbrakk> \<Longrightarrow> d \<in># restoring (jobs p)"
  by (rule restoring_mem) simp_all

lemma restoring_set: "\<lbrakk> k < length js; d \<in> set (restores j) \<rbrakk> \<Longrightarrow> d \<in># restoring (js[k := j])"
  by (rule restoring_mem [of j]) (simp_all add: set_update_memI)

lemma taken_for_cleaning:
  assumes inv: "sched_inv names p" "sched_inv names p'" and k: "k < length (jobs p)" and d: "restores j = [d]"
    and moves: "undeployed s' = undeployed (sched p)" "add_mset d (mset (deployed s')) = mset (deployed (sched p))"
      "running s' = running (sched p)"
    and p': "p' = set_job k j (p\<lparr>sched := s'\<rparr>)"
  shows "one_moves p p'"
proof (rule one_movesI [of d])
  note dep = mem_add_mset [OF moves(2)]
  show "others_stay d p p'" using dep moves by (auto simp: others_stay_def p')
  have "d \<in># restoring (jobs p')" using k d by (simp add: p' restoring_set)
  from phase_at(5) [OF inv(2) this] phase_at(2) [OF inv(1), of d] dep
  show "phase_of p' d = phase_of p d \<or> life_step (phase_of p d) (phase_of p' d)" by auto
qed

lemma cleaned_up:
  assumes inv: "sched_inv names p" "sched_inv names p'" and k: "k < length (jobs p)" and d: "restores (jobs p ! k) = [d]"
    and p': "p' = set_job k j (p\<lparr>sched := give_back d (sched p), last_sent := (last_sent p)(d := None)\<rparr>)"
  shows "one_moves p p'"
proof (rule one_movesI [of d])
  show "others_stay d p p'" by (auto simp: others_stay_def p' give_back_def)
  have "d \<in> set (undeployed (sched p'))" by (simp add: p')
  from phase_at(1) [OF inv(2) this] phase_at(5) [OF inv(1) restoring_at [OF k, of d]] d
  show "phase_of p' d = phase_of p d \<or> life_step (phase_of p d) (phase_of p' d)" by simp
qed

lemma given_up:
  assumes inv: "sched_inv names p" "sched_inv names p'" and k: "k < length (jobs p)" and d: "restores (jobs p ! k) = [d]"
    and p': "p' = set_job k j (p\<lparr>lost := lost p @ [d]\<rparr>)"
  shows "one_moves p p'"
proof (rule one_movesI [of d])
  show "others_stay d p p'" by (auto simp: others_stay_def p')
  have "d \<in> set (lost p')" by (simp add: p')
  from phase_at(4) [OF inv(2) this] phase_at(5) [OF inv(1) restoring_at [OF k, of d]] d
  show "phase_of p' d = phase_of p d \<or> life_step (phase_of p d) (phase_of p' d)" by simp
qed

lemma completed:
  assumes inv: "sched_inv names p" "sched_inv names p'" and k: "k < length (jobs p)" and d: "d \<in> set (holds (jobs p ! k))"
    and rc: "RunComplete d (sched p) = Inr s'"
    and p': "undeployed (sched p') = undeployed s'" "deployed (sched p') = deployed s'" "running (sched p') = running s'"
      "lost p' = lost p" "last_sent p' = last_sent p"
  shows "one_moves p p'"
proof (rule one_movesI [of d])
  from inv(1) have "conserved names p" by (simp add: sched_inv_def)
  then have run: "d \<in> set (running (sched p))" using k d by (rule held_running)
  note c = RunComplete_Inr [OF rc run] RunComplete_moves [OF rc]
  note r = mem_add_mset [OF c(2)]
  show "others_stay d p p'" using c(3,5) r by (auto simp: others_stay_def p')
  have "d \<in> set (deployed (sched p'))" by (simp add: p' c(3))
  from phase_at(2) [OF inv(2) this] phase_at(3) [OF inv(1) run]
  show "phase_of p' d = phase_of p d \<or> life_step (phase_of p d) (phase_of p' d)" by (auto simp: p')
qed

lemma step_moves_one:
  assumes "life_inv names p" and "sched_step p p'"
  shows "one_moves p p'"
proof -
  from assms life_inv_step [OF assms] have inv: "sched_inv names p" "sched_inv names p'" and cl: "clean p"
    by (simp_all add: life_inv_def)
  from inv(1) have cons: "conserved names p" by (simp add: sched_inv_def)
  from assms(2) show ?thesis
  proof cases
    case (find_deployed k f code d s')
    note m = RunDeployedFunction_moves [OF find_deployed(4)]
    note dep = mem_add_mset [OF m(2)]
    show ?thesis
    proof (rule one_movesI [of d])
      show "others_stay d p p'" using m dep by (auto simp: others_stay_def find_deployed(1))
      have "d \<in> set (running (sched p'))" by (simp add: find_deployed(1) m)
      from phase_at(3) [OF inv(2) this] phase_at(2) [OF inv(1), of d] dep
      show "phase_of p' d = phase_of p d \<or> life_step (phase_of p d) (phase_of p' d)"
        by (auto simp: find_deployed(1))
    qed
  next
    case (take_undeployed k f code d s')
    note m = RunUndeployed_moves [OF take_undeployed(4)]
    show ?thesis
    proof (rule one_movesI [of d])
      show "others_stay d p p'" using m by (auto simp: others_stay_def take_undeployed(1))
      have "d \<in> set (running (sched p'))" by (simp add: take_undeployed(1) m)
      from phase_at(3) [OF inv(2) this] phase_at(1) [OF inv(1), of d] m cl
      show "phase_of p' d = phase_of p d \<or> life_step (phase_of p d) (phase_of p' d)"
        by (simp add: take_undeployed(1) clean_def)
    qed
  next
    case (force k f code d s')
    then show ?thesis using force_take_moves [OF force(4)]
      by (intro taken_for_cleaning [OF inv force(2) _ _ _ _ force(1)]) simp_all
  next
    case (wake_taken k d s')
    with wake_take_moves [OF wake_taken(4)] show ?thesis
      by (intro taken_for_cleaning [OF inv wake_taken(2) _ _ _ _ wake_taken(1)]) simp_all
  next
    case (evicted k d f code)
    then show ?thesis by (intro cleaned_up [OF inv evicted(2) _ evicted(1)]) simp
  next
    case (restored k d)
    then show ?thesis by (intro cleaned_up [OF inv restored(2) _ restored(1)]) simp
  next
    case (evict_fails k d f code)
    then show ?thesis by (intro given_up [OF inv evict_fails(2) _ evict_fails(1)]) simp
  next
    case (restore_fails k d)
    then show ?thesis by (intro given_up [OF inv restore_fails(2) _ restore_fails(1)]) simp
  next
    case (serve k d f s')
    then show ?thesis by (intro completed [OF inv serve(2) _ serve(4)]) simp_all
  next
    case (load_done k d f s')
    then show ?thesis
      by (intro completed [OF inv load_done(2) _ load_done(4)]) (simp_all add: ScheduleDecommission_def)
  next
    case (send_code k d f code)
    then have run: "d \<in> set (running (sched p))" using held_running [OF cons send_code(2)] by simp
    have "Loading d f (Inr code) \<in> set (jobs p)" using send_code(2,3) by (metis nth_mem)
    then have none: "last_sent p d = None" using cl unfolding clean_def by blast
    show ?thesis
    proof (rule one_movesI [of d])
      show "others_stay d p p'" by (simp add: others_stay_def send_code(1))
      have "d \<in> set (running (sched p'))" using run by (simp add: send_code(1))
      from phase_at(3) [OF inv(2) this] phase_at(3) [OF inv(1) run] none
      show "phase_of p' d = phase_of p d \<or> life_step (phase_of p d) (phase_of p' d)" by (simp add: send_code(1))
    qed
  next
    case (find_none k f code s')
    with RunDeployedFunction_None [OF find_none(4)] show ?thesis by (intro none_moves) simp_all
  next
    case (wake_evicted k d s')
    with wake_take_other [OF wake_evicted(4)] show ?thesis by (intro none_moves) simp_all
  qed (intro none_moves; simp)+
qed

text \<open>
  A system whose steps move one component at a time along a relation: each component of a whole run goes
  along the reflexive transitive closure.
\<close>

locale component_refinement = guarded_system +
  fixes view :: "'a \<Rightarrow> 'b \<Rightarrow> 'c" and life :: "'c \<Rightarrow> 'c \<Rightarrow> bool"
  assumes one_along: "inv s \<Longrightarrow> step s t \<Longrightarrow>
    \<exists>d. (\<forall>e. e \<noteq> d \<longrightarrow> view t e = view s e) \<and> (view t d = view s d \<or> life (view s d) (view t d))"
begin

lemma component_step: "inv s \<Longrightarrow> step s t \<Longrightarrow> life\<^sup>*\<^sup>* (view s e) (view t e)"
  using one_along [of s t] by (metis r_into_rtranclp rtranclp.rtrancl_refl)

lemma component_run:
  assumes "step\<^sup>*\<^sup>* s t" and "inv s"
  shows "life\<^sup>*\<^sup>* (view s e) (view t e)"
  using assms
proof (induction rule: rtranclp_induct)
  case base
  then show ?case by simp
next
  case (step t u)
  then have "inv t" using steps_inv by blast
  with step component_step [of t u e] show ?case by (meson rtranclp_trans)
qed

end

interpretation worker_life: component_refinement "pool_start names runtime" sched_step "life_inv names" phase_of life_step
  for names runtime
proof unfold_locales
  fix p
  assume start: "pool_start names runtime p"
  then have "clean p" by (simp add: pool_start_def clean_def)
  with start scheduling.inv_init show "life_inv names p" by (simp add: life_inv_def)
next
  fix p p'
  assume "life_inv names p" and "sched_step p p'"
  then show "life_inv names p'" by (rule life_inv_step)
next
  fix p p'
  assume "life_inv names p" and "sched_step p p'"
  from step_moves_one [OF this] show "\<exists>d. (\<forall>e. e \<noteq> d \<longrightarrow> phase_of p' e = phase_of p e) \<and>
      (phase_of p' d = phase_of p d \<or> life_step (phase_of p d) (phase_of p' d))" by (simp add: one_moves_def)
qed

text \<open>
  C4: The scheduler refines the life cycle of its workers: at the start every worker is idle, and from then
  on, in every interleaving, a step moves at most one worker, along the life cycle. So a worker is loaded
  with code only when it is clean, is ready and reused only for that function, and is idle again only
  after it has been restored; and over a whole run every worker has gone along the life cycle.
\<close>

theorem scheduler_refines_life_cycle:
  assumes "reach (pool_start names runtime) sched_step p" and "sched_step p p'" and "sched_step\<^sup>*\<^sup>* p' q"
  shows "(\<exists>d. (\<forall>e. e \<noteq> d \<longrightarrow> phase_of p' e = phase_of p e) \<and>
       (phase_of p' d = phase_of p d \<or> life_step (phase_of p d) (phase_of p' d))) \<and>
     (\<forall>d. life_step\<^sup>*\<^sup>* (phase_of p' d) (phase_of q d))"
proof -
  have inv: "life_inv names p" by (rule worker_life.reach_inv [OF assms(1)])
  show ?thesis
    using worker_life.one_along [OF inv assms(2)] worker_life.component_run [OF assms(3) life_inv_step [OF inv assms(2)]]
    by simp
qed

text \<open>The worker of the example goes from serving a request to ready.\<close>

lemma ex_serve:
  "sched_step (ex_pool (ex_sched [] [] [''w''] ''f'' [''w'']) [Answered, Watching ''w'', Serving ''w'' ''f''] (Some ''f''))
     (ex_pool (ex_sched [] [''w''] [] ''f'' [''w'']) [Answered, Watching ''w'', Answered] (Some ''f''))"
proof -
  let ?p = "ex_pool (ex_sched [] [] [''w''] ''f'' [''w'']) [Answered, Watching ''w'', Serving ''w'' ''f''] (Some ''f'')"
  have "RunComplete ''w'' (sched ?p) = Inr (ex_sched [] [''w''] [] ''f'' [''w''])"
    by (simp add: RunComplete_def ex_sched_simps)
  from sched_step.serve [where p = ?p and k = 2, OF _ _ this] show ?thesis by simp
qed

lemma ex_phases:
  "phase_of (ex_pool (ex_sched [] [] [''w''] ''f'' [''w'']) js (Some ''f'')) ''w'' = In_use (Some ''f'')"
  "phase_of (ex_pool (ex_sched [] [''w''] [] ''f'' [''w'']) js (Some ''f'')) ''w'' = Ready ''f''"
  by (simp_all add: phase_of_def ex_sched_simps ex_pool_def)

theorem scheduler_refines_life_cycle_witness:
  "life_step (In_use (Some ''f'')) (Ready ''f'') \<and>
   phase_of (ex_pool (ex_sched [] [] [''w''] ''f'' [''w'']) [Answered, Watching ''w'', Serving ''w'' ''f''] (Some ''f'')) ''v'' =
     phase_of (ex_pool (ex_sched [] [''w''] [] ''f'' [''w'']) [Answered, Watching ''w'', Answered] (Some ''f'')) ''v''"
proof -
  let ?p = "ex_pool (ex_sched [] [] [''w''] ''f'' [''w'']) [Answered, Watching ''w'', Serving ''w'' ''f''] (Some ''f'')"
  let ?q = "ex_pool (ex_sched [] [''w''] [] ''f'' [''w'']) [Answered, Watching ''w'', Answered] (Some ''f'')"
  from scheduler_refines_life_cycle [OF ex_path ex_serve rtranclp.rtrancl_refl] obtain d where
    d: "\<forall>e. e \<noteq> d \<longrightarrow> phase_of ?q e = phase_of ?p e" "phase_of ?q d = phase_of ?p d \<or> life_step (phase_of ?p d) (phase_of ?q d)"
    by blast
  then have "d = ''w''" using ex_phases by fastforce
  with d ex_phases show ?thesis by simp
qed

section \<open>Progress\<close>

text \<open>
  When a goroutine of the scheduler waits: a call inside \<open>ForceDecomission\<close> while nothing is deployed, a
  decommissioning goroutine while its worker is on neither list it looks at, and one that is done (a panic of
  \<open>CodeString\<close> ends the process).
\<close>

fun waits :: "scheduler \<Rightarrow> job \<Rightarrow> bool" where
  "waits s (Forcing f code) \<longleftrightarrow> deployed s = []"
| "waits s (Watching d) \<longleftrightarrow> d \<notin> set (deployed s) \<and> d \<notin> set (undeployed s)"
| "waits s Answered \<longleftrightarrow> True"
| "waits s (Leaked d) \<longleftrightarrow> True"
| "waits s (Loading d f code) \<longleftrightarrow> (case code of Inl (Returned e) \<Rightarrow> False | Inl _ \<Rightarrow> True | Inr _ \<Rightarrow> False)"
| "waits s _ \<longleftrightarrow> False"

lemma wake_take_cases:
  "d \<in> set (deployed s) \<Longrightarrow> \<exists>s'. wake_take d s = (Taken, s')"
  "\<lbrakk> d \<notin> set (deployed s); d \<in> set (undeployed s) \<rbrakk> \<Longrightarrow> wake_take d s = (Evicted, s)"
  "\<lbrakk> d \<notin> set (deployed s); d \<notin> set (undeployed s) \<rbrakk> \<Longrightarrow> wake_take d s = (StillRunning, s)"
proof -
  have hit: "\<exists>i. find_index (\<lambda>w. w = d) xs = Some i" if "d \<in> set xs" for xs :: "string list"
    using that by (cases "find_index (\<lambda>w. w = d) xs") auto
  have miss: "find_index (\<lambda>w. w = d) xs = None" if "d \<notin> set xs" for xs :: "string list"
    using that by simp
  show "d \<in> set (deployed s) \<Longrightarrow> \<exists>s'. wake_take d s = (Taken, s')"
    using hit [of "deployed s"] by (auto simp: wake_take_def)
  {
    assume "d \<notin> set (deployed s)" and "d \<in> set (undeployed s)"
    then show "wake_take d s = (Evicted, s)" using hit [of "undeployed s"] by (auto simp: wake_take_def miss)
  next
    assume "d \<notin> set (deployed s)" and "d \<notin> set (undeployed s)"
    then show "wake_take d s = (StillRunning, s)" by (simp add: wake_take_def miss)
  }
qed

lemma RunComplete_running: "d \<in> set (running s) \<Longrightarrow> \<exists>s'. RunComplete d s = Inr s'"
  by (auto simp: RunComplete_def Let_def)

definition moves :: "nat \<Rightarrow> pool \<Rightarrow> bool" where
  "moves k p \<longleftrightarrow> (\<exists>p'. sched_step p p' \<and> jobs p' ! k \<noteq> jobs p ! k)"

lemma movesI: "\<lbrakk> sched_step p p'; jobs p' ! k \<noteq> jobs p ! k \<rbrakk> \<Longrightarrow> moves k p"
  unfolding moves_def by blast

lemma moves_Wants:
  assumes k: "k < length (jobs p)" and job: "jobs p ! k = Wants f code"
  shows "moves k p"
proof (cases "RunDeployedFunction f (sched p)")
  case (Pair found s')
  show ?thesis
  proof (cases found)
    case None
    with Pair job k show ?thesis by (intro movesI [OF find_none]) auto
  next
    case (Some d)
    with Pair job k show ?thesis by (intro movesI [OF find_deployed]) auto
  qed
qed

lemma moves_Missed:
  assumes k: "k < length (jobs p)" and job: "jobs p ! k = Missed f code"
  shows "moves k p"
proof (cases "undeployed (sched p)")
  case Nil
  with job k show ?thesis by (intro movesI [OF none_undeployed]) auto
next
  case (Cons d ds)
  then obtain s' where "RunUndeployed (sched p) = Inr (d, s')" by (simp add: RunUndeployed_def)
  with job k show ?thesis by (intro movesI [OF take_undeployed]) auto
qed

lemma moves_Loading:
  assumes k: "k < length (jobs p)" and job: "jobs p ! k = Loading d f code" and "\<not> waits (sched p) (Loading d f code)"
  shows "moves k p"
proof -
  from assms(3) consider e where "code = Inl (Returned e)" | c where "code = Inr c"
    by (auto split: sum.splits fault.splits)
  then show ?thesis
  proof cases
    case 1
    with job k show ?thesis by (intro movesI [OF code_error]) auto
  next
    case 2
    with job k show ?thesis by (intro movesI [OF send_code]) auto
  qed
qed

lemma moves_Watching:
  assumes k: "k < length (jobs p)" and job: "jobs p ! k = Watching d" and "\<not> waits (sched p) (Watching d)"
  shows "moves k p"
proof (cases "d \<in> set (deployed (sched p))")
  case True
  then obtain s' where "wake_take d (sched p) = (Taken, s')" using wake_take_cases(1) by blast
  with job k show ?thesis by (intro movesI [OF wake_taken]) auto
next
  case False
  with assms(3) have "wake_take d (sched p) = (Evicted, sched p)" by (simp add: wake_take_cases(2))
  with job k show ?thesis by (intro movesI [OF wake_evicted]) auto
qed

lemma moves_if:
  assumes "conserved names p" and k: "k < length (jobs p)" and w: "\<not> waits (sched p) (jobs p ! k)"
  shows "moves k p"
proof (cases "jobs p ! k")
  case (Forcing f code)
  with w obtain d ds where "deployed (sched p) = d # ds" by (cases "deployed (sched p)") auto
  then obtain s' where "force_take (sched p) = Some (d, s')" by (simp add: force_take_def)
  with Forcing k show ?thesis by (intro movesI [OF force]) auto
next
  case (Serving d f)
  with held_running [OF assms(1) k] obtain s' where "RunComplete d (sched p) = Inr s'"
    using RunComplete_running by fastforce
  with Serving k show ?thesis by (intro movesI [OF serve]) auto
next
  case (Sent d f)
  with k show ?thesis by (intro movesI [OF set_function]) auto
next
  case (Loaded d f)
  with held_running [OF assms(1) k] obtain s' where "RunComplete d (sched p) = Inr s'"
    using RunComplete_running by fastforce
  with Loaded k show ?thesis by (intro movesI [OF load_done]) (auto simp: nth_append)
next
  case (Evicting d f code)
  with k show ?thesis by (intro movesI [OF evicted]) auto
next
  case (Restoring d)
  with k show ?thesis by (intro movesI [OF restored]) auto
qed (use w moves_Wants [OF k] moves_Missed [OF k] moves_Loading [OF k] moves_Watching [OF k] in simp_all)

text \<open>A step that moves the goroutine \<open>k\<close> is one of its own.\<close>

lemma waits_stays:
  assumes "sched_step p p'" and "k < length (jobs p)" and "waits (sched p) (jobs p ! k)"
  shows "jobs p' ! k = jobs p ! k"
proof -
  have upd: "(jobs p)[i := j] ! k = jobs p ! k" if "\<not> waits (sched p) (jobs p ! i)" for i j
    using that assms(3) by (cases "i = k") simp_all
  from assms(1) show ?thesis
  proof cases
    case (force i f code d s')
    then have "deployed (sched p) \<noteq> []" by (auto simp: force_take_def)
    then have "\<not> waits (sched p) (jobs p ! i)" by (simp add: force(3))
    then show ?thesis using upd by (simp add: force(1))
  next
    case (wake_taken i d s')
    then have "\<not> waits (sched p) (jobs p ! i)" using wake_take_cases(3) [of d "sched p"] by auto
    then show ?thesis using upd by (simp add: wake_taken(1))
  next
    case (wake_evicted i d s')
    then have "\<not> waits (sched p) (jobs p ! i)" using wake_take_cases(3) [of d "sched p"] by auto
    then show ?thesis using upd by (simp add: wake_evicted(1))
  next
    case (load_done i d f s')
    then have "\<not> waits (sched p) (jobs p ! i)" by (simp add: load_done(3))
    then show ?thesis using upd assms(2) by (simp add: load_done(1) nth_append)
  next
    case (new_call f code)
    then show ?thesis using assms(2) by (simp add: nth_append)
  qed (use assms(2,3) upd in auto)
qed



section \<open>A call that waits beside an idle worker\<close>

definition no_call :: "pool \<Rightarrow> pool \<Rightarrow> bool" where
  "no_call p p' \<longleftrightarrow> sched_step p p' \<and> length (jobs p') = length (jobs p)"

definition all_wait :: "pool \<Rightarrow> bool" where
  "all_wait p \<longleftrightarrow> list_all (waits (sched p)) (jobs p)"

text \<open>When every goroutine waits, the lists change no more until a new call arrives.\<close>

lemma all_wait_step:
  assumes "all_wait p" and "no_call p p'"
  shows "jobs p' = jobs p \<and> undeployed (sched p') = undeployed (sched p) \<and> deployed (sched p') = deployed (sched p)"
proof -
  from assms(2) have step: "sched_step p p'" and len: "length (jobs p') = length (jobs p)" by (simp_all add: no_call_def)
  have w: "waits (sched p) (jobs p ! k)" if "k < length (jobs p)" for k
    using assms(1) that by (simp add: all_wait_def list_all_length)
  from step show ?thesis
  proof cases
    case (force k f code d s')
    then show ?thesis using w [OF force(2)] by (simp add: force_take_def)
  next
    case (wake_taken k d s')
    then show ?thesis using w [OF wake_taken(2)] wake_take_cases(3) [of d "sched p"] by simp
  next
    case (wake_evicted k d s')
    then show ?thesis using w [OF wake_evicted(2)] wake_take_cases(3) [of d "sched p"] by simp
  next
    case (new_call f code)
    then show ?thesis using len by simp
  next
    case (mark_time d now)
    then show ?thesis by simp
  qed (use w in fastforce)+
qed

lemma waits_cong: "\<lbrakk> undeployed s' = undeployed s; deployed s' = deployed s \<rbrakk> \<Longrightarrow> waits s' j = waits s j"
  by (cases j) simp_all

lemma all_wait_run:
  assumes "no_call\<^sup>*\<^sup>* p q" and "all_wait p"
  shows "all_wait q \<and> jobs q = jobs p \<and> undeployed (sched q) = undeployed (sched p) \<and> deployed (sched q) = deployed (sched p)"
  using assms
proof (induction rule: rtranclp_induct)
  case base
  then show ?case by simp
next
  case (step q r)
  then have IH: "all_wait q" "jobs q = jobs p" "undeployed (sched q) = undeployed (sched p)" "deployed (sched q) = deployed (sched p)"
    by simp_all
  note same = all_wait_step [OF IH(1) step.hyps(2)]
  then have "all_wait r" using IH(1) waits_cong [of "sched r" "sched q"] by (simp add: all_wait_def list_all_iff)
  with same IH show ?case by simp
qed

text \<open>
  C30: A call can wait for ever while a worker is idle: a call that arrives while the only worker is being
  decommissioned finds nothing deployed and nothing undeployed and waits in \<open>ForceDecomission\<close>, which looks
  only at the deployed workers. When the worker has been restored it is idle and nothing is deployed: until
  another call arrives, whatever happens the call goes on waiting.
\<close>

theorem call_waits_beside_idle_worker:
  "\<exists>p. reach (pool_start [''w''] ''python'') sched_step p \<and>
     (\<forall>q. no_call\<^sup>*\<^sup>* p q \<longrightarrow> jobs q = [Answered, Answered, Answered, Forcing g code] \<and>
        undeployed (sched q) = [''w''] \<and> deployed (sched q) = [])"
proof -
  let ?R = "reach (pool_start [''w''] ''python'') sched_step"
  let ?s = "\<lambda>u. ex_sched u [] [] ''f'' [''w'']"
  let ?p = "ex_pool (ex_sched [] [''w''] [] ''f'' [''w'']) [Answered, Watching ''w'', Answered] (Some ''f'')"
  have "wake_take ''w'' (sched ?p) = (Taken, ?s [])" by (simp add: wake_take_def ex_sched_def)
  from wake_taken [where p = ?p and k = 1, OF _ _ this]
  have "sched_step ?p (ex_pool (?s []) [Answered, Restoring ''w'', Answered] (Some ''f''))" by simp
  with reach_step [OF ex_path, OF ex_serve]
  have "?R (ex_pool (?s []) [Answered, Restoring ''w'', Answered] (Some ''f''))" by (rule reach_step)
  from reach_step [OF this, OF new_call [where f = g and code = code]]
  have "?R (ex_pool (?s []) [Answered, Restoring ''w'', Answered, Wants g code] (Some ''f''))" by simp
  from reach_step [OF this, OF find_none [where k = 3 and f = g and code = code]]
  have "?R (ex_pool (?s []) [Answered, Restoring ''w'', Answered, Missed g code] (Some ''f''))"
    by (simp add: RunDeployedFunction_def ex_sched_simps)
  from reach_step [OF this, OF none_undeployed [where k = 3 and f = g and code = code]]
  have "?R (ex_pool (?s []) [Answered, Restoring ''w'', Answered, Forcing g code] (Some ''f''))"
    by (simp add: ex_sched_simps)
  note waiting = this
  have "give_back ''w'' (?s []) = ?s [''w'']" by (simp add: give_back_def ex_sched_def)
  moreover have "(ex_pool (?s [''w'']) js (Some ''f''))\<lparr>last_sent := (last_sent (ex_pool (?s []) js (Some ''f'')))(''w'' := None)\<rparr> =
      ex_pool (?s [''w'']) js None" for js by (simp add: ex_pool_def)
  ultimately have r: "?R (ex_pool (?s [''w'']) [Answered, Answered, Answered, Forcing g code] None)"
    using reach_step [OF waiting, OF restored [where k = 1 and d = "''w''"]] by simp
  have "all_wait (ex_pool (?s [''w'']) [Answered, Answered, Answered, Forcing g code] None)"
    by (simp add: all_wait_def ex_sched_simps)
  then have "jobs q = [Answered, Answered, Answered, Forcing g code] \<and> undeployed (sched q) = [''w''] \<and> deployed (sched q) = []"
    if "no_call\<^sup>*\<^sup>* (ex_pool (?s [''w'']) [Answered, Answered, Answered, Forcing g code] None) q" for q
    using all_wait_run [OF that] by (simp add: ex_sched_simps)
  with r show ?thesis by blast
qed

theorem call_waits_beside_idle_worker_witness:
  "\<exists>p. reach (pool_start [''w''] ''python'') sched_step p \<and>
     jobs p = [Answered, Answered, Answered, Forcing ''g'' (Inr ''code'')] \<and> undeployed (sched p) = [''w'']"
proof -
  obtain p where "reach (pool_start [''w''] ''python'') sched_step p"
    and "no_call\<^sup>*\<^sup>* p p \<longrightarrow> jobs p = [Answered, Answered, Answered, Forcing ''g'' (Inr ''code'')] \<and>
      undeployed (sched p) = [''w''] \<and> deployed (sched p) = []"
    using call_waits_beside_idle_worker [of "''g''" "Inr ''code''"] by blast
  then show ?thesis by blast
qed

section \<open>Every name has its worker\<close>

text \<open>The names that a goroutine goes on to look up in the map of workers.\<close>

fun looks_up :: "job \<Rightarrow> string list" where
  "looks_up (Watching d) = [d]"
| "looks_up j = holds j @ restores j"

lemma held_name:
  assumes "conserved names p" and "j \<in> set (jobs p)" and "d \<in> set (holds j @ restores j)"
  shows "d \<in> set names"
proof -
  from assms(3) consider "d \<in> set (holds j)" | "d \<in> set (restores j)" by auto
  then have "d \<in># lists (sched p) + restoring (jobs p) + mset (lost p)"
  proof cases
    case 1
    with held_mem [OF assms(2)] assms(1) have "d \<in> set (running (sched p))" by (simp add: conserved_def)
    then show ?thesis by (simp add: lists_def)
  next
    case 2
    with restoring_mem [OF assms(2)] show ?thesis by simp
  qed
  with assms(1) show ?thesis by (simp add: conserved_lists)
qed

lemma watched_name:
  assumes "reach (pool_start names runtime) sched_step p" and "Watching d \<in> set (jobs p)"
  shows "d \<in> set names"
  using assms
proof (induction arbitrary: d rule: reach.induct)
  case (reach_init p)
  then show ?case by (simp add: pool_start_def)
next
  case (reach_step p q)
  have old: "d \<in> set names" if "Watching d \<in> set ((jobs p)[k := j])" "j \<noteq> Watching d" for k j
  proof -
    from that set_update_subset_insert [of "jobs p" k j] have "Watching d \<in> set (jobs p)" by auto
    then show ?thesis by (rule reach_step.IH)
  qed
  from reach_step.hyps(2) show ?case
  proof cases
    case (load_done k e f s')
    from scheduling.reach_inv [OF reach_step.hyps(1)] have "conserved names p" by (simp add: sched_inv_def)
    moreover have "Loaded e f \<in> set (jobs p)" using load_done(2,3) by (metis nth_mem)
    ultimately have "e \<in> set names" using held_name [of names p "Loaded e f" e] by simp
    then show ?thesis using reach_step.prems old [of k Answered] by (auto simp: load_done(1))
  qed (use reach_step.prems reach_step.IH old in auto)
qed

lemma RunComplete_workers: "RunComplete d s = Inr s' \<Longrightarrow> sc_workers s' = sc_workers s"
  by (auto simp: RunComplete_def Let_def split: if_splits)

lemma worker_not_nil:
  assumes "reach (pool_start names runtime) sched_step p" and "sc_workers (sched p) d = Some sw"
  shows "sw_worker sw"
  using assms
proof (induction arbitrary: sw rule: reach.induct)
  case (reach_init p)
  then show ?case by (auto simp: pool_start_def NewScheduler_def new_workers_def split: if_splits)
next
  case (reach_step p q)
  from reach_step.hyps(2) show ?case
  proof cases
    case (find_none k f code s')
    then show ?thesis using RunDeployedFunction_None [OF find_none(4)] reach_step by simp
  next
    case (wake_evicted k e s')
    then show ?thesis using wake_take_other [OF wake_evicted(4)] reach_step by simp
  next
    case (set_function k e f)
    then show ?thesis using reach_step.prems reach_step.IH
      by (auto simp: SetFunction_def update_worker_def split: if_splits)
  next
    case (mark_time e now)
    then show ?thesis using reach_step.prems reach_step.IH
      by (auto simp: MarkRunTime_def update_worker_def split: if_splits)
  qed (use reach_step.prems reach_step.IH in
      \<open>auto dest: RunDeployedFunction_Some(6) RunUndeployed_Inr force_take_Some wake_take_Taken RunComplete_workers\<close>)
qed

text \<open>
  C5: No goroutine of the scheduler dereferences a nil worker: in every interleaving every name on a list of
  the scheduler, and every name that a goroutine holds, is restoring or watches, is a key of the map of
  workers, and its entry has a worker.
\<close>

theorem every_name_has_a_worker:
  assumes "reach (pool_start names runtime) sched_step p"
    and "d \<in> set (undeployed (sched p) @ deployed (sched p) @ running (sched p)) \<or>
      (\<exists>j \<in> set (jobs p). d \<in> set (looks_up j))"
  shows "\<exists>sw. sc_workers (sched p) d = Some sw \<and> sw_worker sw"
proof -
  from scheduling.reach_inv [OF assms(1)] have inv: "conserved names p" "known_workers names p"
    by (simp_all add: sched_inv_def)
  have "d \<in> set names"
  proof (cases "d \<in> set (undeployed (sched p) @ deployed (sched p) @ running (sched p))")
    case True
    then have "d \<in># lists (sched p) + restoring (jobs p) + mset (lost p)" by (auto simp: lists_def)
    with inv(1) show ?thesis by (simp add: conserved_lists)
  next
    case False
    with assms(2) obtain j where j: "j \<in> set (jobs p)" "d \<in> set (looks_up j)" by blast
    have "d \<in> set (looks_up i) \<Longrightarrow> i = Watching d \<or> d \<in> set (holds i @ restores i)" for i by (cases i) auto
    with j(2) have "j = Watching d \<or> d \<in> set (holds j @ restores j)" by blast
    then show ?thesis using watched_name [OF assms(1), of d] held_name [OF inv(1) j(1)] j(1) by blast
  qed
  with inv(2) obtain sw where "sc_workers (sched p) d = Some sw" by (auto simp: known_workers_def)
  with worker_not_nil [OF assms(1)] show ?thesis by blast
qed

theorem every_name_has_a_worker_witness:
  "\<exists>sw. sc_workers (ex_sched [] [] [''w''] ''f'' [''w'']) ''w'' = Some sw \<and> sw_worker sw"
  using every_name_has_a_worker [OF ex_path, of "''w''"] by (simp add: ex_sched_simps)

end

