(* ===== verification/Messaging.thy ===== *)
theory Messaging
  imports Function_Doc Go_Env "HOL-Library.Multiset"
begin

text \<open>
  \<open>invoker/messages\<close>: the provider keeps one writer and one reader per topic (\<open>provider.go\<close>), the
  messenger addresses the messages of one invoker (\<open>messenger.go\<close>). The Kafka client is the parameter
  \<open>'k kafka\<close> with handles for its connections, writers and readers; \<open>encoding/json\<close> is the parameter
  \<open>message_codec\<close>.
\<close>

section \<open>The Kafka client\<close>

record topic_config =
  tc_topic :: string
  tc_partitions :: int
  tc_replication :: int

record writer_config =
  wc_brokers :: "string list"
  wc_topic :: string
  wc_batch_size :: int

text \<open>Durations are in milliseconds.\<close>

record reader_config =
  rdc_brokers :: "string list"
  rdc_topic :: string
  rdc_group :: string
  rdc_partition :: int
  rdc_min_bytes :: int
  rdc_max_bytes :: int
  rdc_max_wait :: int
  rdc_lag_interval :: int
  rdc_heartbeat :: int

type_synonym handle = nat

record 'k kafka =
  k_Dial :: "string \<Rightarrow> string \<Rightarrow> ('k, handle) io"
  k_CreateTopics :: "handle \<Rightarrow> topic_config list \<Rightarrow> ('k, unit) io"
  k_CloseConn :: "handle \<Rightarrow> ('k, unit) io"
  k_NewWriter :: "writer_config \<Rightarrow> ('k, handle) io"
  k_WriteMessages :: "handle \<Rightarrow> string list \<Rightarrow> ('k, unit) io"
  k_CloseWriter :: "handle \<Rightarrow> ('k, unit) io"
  k_NewReader :: "reader_config \<Rightarrow> ('k, handle) io"
  k_ReadMessage :: "handle \<Rightarrow> ('k, string) io"
  k_CloseReader :: "handle \<Rightarrow> ('k, unit) io"

text \<open>The interfaces \<open>KafkaConnection\<close>, \<open>Writer\<close> and \<open>Reader\<close>, and the two constructors of a provider.\<close>

record 'k clients =
  create_topics :: "handle \<Rightarrow> topic_config list \<Rightarrow> ('k, unit) io"
  close_connection :: "handle \<Rightarrow> ('k, unit) io"
  new_writer :: "string \<Rightarrow> string \<Rightarrow> ('k, handle) io"
  write_messages :: "handle \<Rightarrow> string list \<Rightarrow> ('k, unit) io"
  close_writer :: "handle \<Rightarrow> ('k, unit) io"
  new_reader :: "string \<Rightarrow> string \<Rightarrow> ('k, handle) io"
  reader_read :: "handle \<Rightarrow> ('k, string) io"
  close_reader :: "handle \<Rightarrow> ('k, unit) io"

definition NewKafkaConnection :: "'k kafka \<Rightarrow> string \<Rightarrow> string \<Rightarrow> ('k, handle) io" where
  "NewKafkaConnection kf network host = wrapS ''could not start kafka admin client'' (k_Dial kf network host)"

definition conn_CreateTopics :: "'k kafka \<Rightarrow> handle \<Rightarrow> topic_config list \<Rightarrow> ('k, unit) io" where
  "conn_CreateTopics kf c topics = k_CreateTopics kf c topics"

definition conn_Close :: "'k kafka \<Rightarrow> handle \<Rightarrow> ('k, unit) io" where
  "conn_Close kf c = k_CloseConn kf c"

definition NewWriter :: "'k kafka \<Rightarrow> string \<Rightarrow> string \<Rightarrow> ('k, handle) io" where
  "NewWriter kf host topic = k_NewWriter kf \<lparr>wc_brokers = [host], wc_topic = topic, wc_batch_size = 1\<rparr>"

definition writer_WriteMessages :: "'k kafka \<Rightarrow> handle \<Rightarrow> string list \<Rightarrow> ('k, unit) io" where
  "writer_WriteMessages kf h messages = k_WriteMessages kf h messages"

definition writer_Close :: "'k kafka \<Rightarrow> handle \<Rightarrow> ('k, unit) io" where
  "writer_Close kf h = k_CloseWriter kf h"

definition defaultMinBytes :: int where "defaultMinBytes = 10"
definition defaultMaxBytes :: int where "defaultMaxBytes = 1000000"

definition NewReader :: "'k kafka \<Rightarrow> string \<Rightarrow> string \<Rightarrow> ('k, handle) io" where
  "NewReader kf host topic =
     k_NewReader kf
       \<lparr>rdc_brokers = [host], rdc_topic = topic, rdc_group = topic, rdc_partition = 0,
        rdc_min_bytes = defaultMinBytes, rdc_max_bytes = defaultMaxBytes, rdc_max_wait = 500,
        rdc_lag_interval = - 1, rdc_heartbeat = 10000\<rparr>"

definition reader_ReadMessage :: "'k kafka \<Rightarrow> handle \<Rightarrow> ('k, string) io" where
  "reader_ReadMessage kf h = k_ReadMessage kf h"

definition reader_Close :: "'k kafka \<Rightarrow> handle \<Rightarrow> ('k, unit) io" where
  "reader_Close kf h = k_CloseReader kf h"

definition kafka_clients :: "'k kafka \<Rightarrow> 'k clients" where
  "kafka_clients kf =
     \<lparr>create_topics = conn_CreateTopics kf, close_connection = conn_Close kf, new_writer = NewWriter kf,
      write_messages = writer_WriteMessages kf, close_writer = writer_Close kf, new_reader = NewReader kf,
      reader_read = reader_ReadMessage kf, close_reader = reader_Close kf\<rparr>"

section \<open>The provider\<close>

record provider =
  kafkaConnection :: handle
  pv_host :: string
  writers :: "string \<Rightarrow> handle option"
  readers :: "string \<Rightarrow> handle option"

type_synonym 'k provider_sys = "provider \<times> 'k"

definition defaultPartitions :: int where "defaultPartitions = 1"
definition defaultReplication :: int where "defaultReplication = 1"
definition defaultNetwork :: string where "defaultNetwork = ''tcp''"

definition new_provider :: "handle \<Rightarrow> string \<Rightarrow> provider" where
  "new_provider conn host =
     \<lparr>kafkaConnection = conn, pv_host = host, writers = (\<lambda>_. None), readers = (\<lambda>_. None)\<rparr>"

definition NewMessageProvider :: "'k kafka \<Rightarrow> string \<Rightarrow> ('k, provider) io" where
  "NewMessageProvider kf host =
     bindS (wrapS ''could not start message provider'' (NewKafkaConnection kf defaultNetwork host)) (\<lambda>conn.
     retS (new_provider conn host))"

definition NewFakeProvider :: "handle \<Rightarrow> provider" where
  "NewFakeProvider conn = new_provider conn ''anyhost''"

definition EnsureTopic :: "'k clients \<Rightarrow> string \<Rightarrow> ('k provider_sys, unit) io" where
  "EnsureTopic cl topic = (\<lambda>(p, k).
     env (create_topics cl (kafkaConnection p)
       [\<lparr>tc_topic = topic, tc_partitions = defaultPartitions, tc_replication = defaultReplication\<rparr>]) (p, k))"

text \<open>The lookup in the map of writers and, for a new topic, the making of its writer; the same for readers.\<close>

definition writer_for :: "'k clients \<Rightarrow> string \<Rightarrow> ('k provider_sys, handle) io" where
  "writer_for cl topic = (\<lambda>(p, k).
     case writers p topic of
       Some wr \<Rightarrow> (Inr wr, (p, k))
     | None \<Rightarrow>
         bindS (env (new_writer cl (pv_host p) topic)) (\<lambda>wr.
         bindS (modS (\<lambda>p. p\<lparr>writers := (writers p)(topic \<mapsto> wr)\<rparr>)) (\<lambda>_.
         retS wr)) (p, k))"

definition reader_for :: "'k clients \<Rightarrow> string \<Rightarrow> ('k provider_sys, handle) io" where
  "reader_for cl topic = (\<lambda>(p, k).
     case readers p topic of
       Some reader \<Rightarrow> (Inr reader, (p, k))
     | None \<Rightarrow>
         bindS (env (new_reader cl (pv_host p) topic)) (\<lambda>reader.
         bindS (modS (\<lambda>p. p\<lparr>readers := (readers p)(topic \<mapsto> reader)\<rparr>)) (\<lambda>_.
         retS reader)) (p, k))"

definition WriteMessage :: "'k clients \<Rightarrow> string \<Rightarrow> string \<Rightarrow> ('k provider_sys, unit) io" where
  "WriteMessage cl topic v =
     bindS (writer_for cl topic) (\<lambda>wr. env (write_messages cl wr [v]))"

definition ReadMessage :: "'k clients \<Rightarrow> string \<Rightarrow> ('k provider_sys, string) io" where
  "ReadMessage cl topic =
     bindS (reader_for cl topic) (\<lambda>reader.
     wrapS (''could not read message from topic '' @ topic) (env (reader_read cl reader)))"

text \<open>
  \<open>Close\<close> walks over the two maps in the orders that the runtime picks, which are arguments here, and
  returns at the first error.
\<close>

definition close_entry :: "(provider \<Rightarrow> string \<Rightarrow> handle option) \<Rightarrow> (handle \<Rightarrow> ('k, unit) io) \<Rightarrow> string \<Rightarrow>
    ('k provider_sys, unit) io" where
  "close_entry table close topic = (\<lambda>(p, k).
     case table p topic of None \<Rightarrow> (Inl nil_pointer, (p, k)) | Some h \<Rightarrow> env (close h) (p, k))"

definition Close_provider :: "'k clients \<Rightarrow> string list \<Rightarrow> string list \<Rightarrow> ('k provider_sys, unit) io" where
  "Close_provider cl writer_order reader_order =
     thenS (eachS (close_entry writers (close_writer cl)) writer_order)
     (thenS (eachS (close_entry readers (close_reader cl)) reader_order)
     (\<lambda>(p, k). env (close_connection cl (kafkaConnection p)) (p, k)))"

text \<open>Both maps are tables of handles.\<close>

interpretation writer_table: handle_table "\<lambda>(p, k). writers p" "writer_for cl" for cl :: "'k clients"
proof
  fix s :: "'k provider_sys" and t h
  assume "(case s of (p, k) \<Rightarrow> writers p) t = Some h"
  then show "writer_for cl t s = (Inr h, s)" by (cases s) (simp add: writer_for_def)
next
  fix s s' :: "'k provider_sys" and t h
  assume none: "(case s of (p, k) \<Rightarrow> writers p) t = None" and r: "writer_for cl t s = (Inr h, s')"
  then show "(case s' of (p, k) \<Rightarrow> writers p) = (case s of (p, k) \<Rightarrow> writers p)(t \<mapsto> h)"
    by (cases s) (auto simp: writer_for_def bindS_Inr_iff)
next
  fix s s' :: "'k provider_sys" and t e
  assume "writer_for cl t s = (Inl e, s')"
  then show "(case s' of (p, k) \<Rightarrow> writers p) = (case s of (p, k) \<Rightarrow> writers p)"
    by (cases s) (auto simp: writer_for_def bindS_def split: option.splits sum.splits prod.splits)
qed

interpretation reader_table: handle_table "\<lambda>(p, k). readers p" "reader_for cl" for cl :: "'k clients"
proof
  fix s :: "'k provider_sys" and t h
  assume "(case s of (p, k) \<Rightarrow> readers p) t = Some h"
  then show "reader_for cl t s = (Inr h, s)" by (cases s) (simp add: reader_for_def)
next
  fix s s' :: "'k provider_sys" and t h
  assume none: "(case s of (p, k) \<Rightarrow> readers p) t = None" and r: "reader_for cl t s = (Inr h, s')"
  then show "(case s' of (p, k) \<Rightarrow> readers p) = (case s of (p, k) \<Rightarrow> readers p)(t \<mapsto> h)"
    by (cases s) (auto simp: reader_for_def bindS_Inr_iff)
next
  fix s s' :: "'k provider_sys" and t e
  assume "reader_for cl t s = (Inl e, s')"
  then show "(case s' of (p, k) \<Rightarrow> readers p) = (case s of (p, k) \<Rightarrow> readers p)"
    by (cases s) (auto simp: reader_for_def bindS_def split: option.splits sum.splits prod.splits)
qed

section \<open>The messenger\<close>

definition healthTopic :: string where "healthTopic = ''health''"
definition twoGigMem :: string where "twoGigMem = ''2147483648 B''"

record ping =
  ping_name :: invoker_name

record messenger =
  invokerNumber :: int
  invokerTopic :: string
  messenger_name :: invoker_name

record message_codec =
  unmarshal_activation :: "string \<Rightarrow> error + activation_message"
  marshal_completion :: "completion_message \<Rightarrow> error + string"
  marshal_result :: "completion_response \<Rightarrow> error + string"
  marshal_ping :: "ping \<Rightarrow> error + string"

definition new_messenger :: "int \<Rightarrow> messenger" where
  "new_messenger number =
     \<lparr>invokerNumber = number, invokerTopic = ''invoker'' @ Itoa number,
      messenger_name = \<lparr>n_instance = number, n_unique = Itoa number, n_memory = twoGigMem\<rparr>\<rparr>"

text \<open>The messenger with the provider it keeps; a provider whose topic cannot be made is dropped unclosed.\<close>

definition NewMessenger :: "'k kafka \<Rightarrow> int \<Rightarrow> string \<Rightarrow> ('k, messenger \<times> provider) io" where
  "NewMessenger kf number kafkaAddress =
     bindS (NewMessageProvider kf kafkaAddress) (\<lambda>p k.
     case wrapS (''could not ensure topic for invoker '' @ Itoa number)
            (EnsureTopic (kafka_clients kf) (invokerTopic (new_messenger number))) (p, k) of
       (Inl e, (_, k')) \<Rightarrow> (Inl e, k')
     | (Inr _, (p', k')) \<Rightarrow> (Inr (new_messenger number, p'), k'))"

definition GetActivation :: "'k clients \<Rightarrow> message_codec \<Rightarrow> messenger \<Rightarrow> ('k provider_sys, activation_message) io" where
  "GetActivation cl js m =
     bindS (wrapS ''could not pull from invoker queue'' (ReadMessage cl (invokerTopic m))) (\<lambda>rawMessage.
     wrapS ''could not parse activation message'' (liftS (of_sum (unmarshal_activation js rawMessage))))"

definition controller_topic :: "activation_message \<Rightarrow> string" where
  "controller_topic activation = ''completed'' @ am_controller activation"

definition completion_of :: "messenger \<Rightarrow> activation_message \<Rightarrow> completion_message" where
  "completion_of m activation =
     \<lparr>cm_activation = am_id activation, cm_invoker = messenger_name m, cm_system_error = False,
      cm_transaction = am_transaction activation\<rparr>"

definition SendCompletion ::
  "'k clients \<Rightarrow> message_codec \<Rightarrow> messenger \<Rightarrow> activation_message \<Rightarrow> function_doc \<Rightarrow> json \<Rightarrow> ('k provider_sys, unit) io" where
  "SendCompletion cl js m activation function result =
     bindS (wrapS ''could not marshal completion message''
       (liftS (of_sum (marshal_completion js (completion_of m activation))))) (\<lambda>rawCompletion.
     WriteMessage cl (controller_topic activation) rawCompletion)"

text \<open>The two readings of the clock by \<open>GenerateResponse\<close> are arguments.\<close>

definition SendResult ::
  "'k clients \<Rightarrow> message_codec \<Rightarrow> int \<Rightarrow> int \<Rightarrow> activation_message \<Rightarrow> function_doc \<Rightarrow> json \<Rightarrow> ('k provider_sys, unit) io" where
  "SendResult cl js now1 now2 activation function result =
     bindS (wrapS ''could not marshal completion message''
       (liftS (of_sum (marshal_result js
          \<lparr>cr_response = GenerateResponse now1 now2 activation function result,
           cr_transaction = am_transaction activation\<rparr>)))) (\<lambda>rawCompletion.
     WriteMessage cl (controller_topic activation) rawCompletion)"

definition sendPing :: "'k clients \<Rightarrow> message_codec \<Rightarrow> messenger \<Rightarrow> ('k provider_sys, unit) io" where
  "sendPing cl js m =
     bindS (wrapS ''could not marshal ping message''
       (liftS (of_sum (marshal_ping js \<lparr>ping_name = messenger_name m\<rparr>)))) (\<lambda>msgBytes.
     wrapS ''could not send ping message'' (WriteMessage cl healthTopic msgBytes))"

text \<open>
  The loop of \<open>StartHealthPings\<close>: \<open>stop i\<close> is whether somebody is sending on the stop channel when the
  \<open>i\<close>-th \<open>select\<close> is evaluated, in which case the default is not taken. The value is the number of pings
  started before the loop ended.
\<close>

fun health_loop :: "nat \<Rightarrow> (nat \<Rightarrow> bool) \<Rightarrow> nat \<Rightarrow> nat option" where
  "health_loop 0 stop i = None"
| "health_loop (Suc n) stop i = (if stop i then Some i else health_loop n stop (Suc i))"

definition StartHealthPings :: "nat \<Rightarrow> (nat \<Rightarrow> bool) \<Rightarrow> nat option" where
  "StartHealthPings fuel stop = health_loop fuel stop 0"

definition Close_messenger :: "'k clients \<Rightarrow> string list \<Rightarrow> string list \<Rightarrow> ('k provider_sys, unit) io" where
  "Close_messenger cl writer_order reader_order = Close_provider cl writer_order reader_order"

section \<open>A recording client\<close>

text \<open>
  A client that notes what it is asked to do: a writer or reader is the position of its topic among the
  topics opened so far, and the \<open>n\<close>-th write, read or close fails as \<open>fails n\<close> says.
\<close>

record recorder =
  opened :: "string list"
  written :: "(handle \<times> string list) list"
  opened_readers :: "string list"
  queue :: "string \<Rightarrow> string list"
  closed :: "handle list"
  closed_readers :: "handle list"
  connections_closed :: nat

definition answer :: "error option \<Rightarrow> 'a \<Rightarrow> 'a res" where
  "answer e x = (case e of None \<Rightarrow> Inr x | Some err \<Rightarrow> Inl (Returned err))"

definition rec_new_writer :: "string \<Rightarrow> string \<Rightarrow> (recorder, handle) io" where
  "rec_new_writer host topic r = (Inr (length (opened r)), r\<lparr>opened := opened r @ [topic]\<rparr>)"

definition rec_write :: "(nat \<Rightarrow> error option) \<Rightarrow> handle \<Rightarrow> string list \<Rightarrow> (recorder, unit) io" where
  "rec_write fails h vs r = (answer (fails (length (written r))) (), r\<lparr>written := written r @ [(h, vs)]\<rparr>)"

definition rec_read :: "handle \<Rightarrow> (recorder, string) io" where
  "rec_read h r =
     (case queue r (opened_readers r ! h) of
        [] \<Rightarrow> (Inl Blocked, r)
      | m # ms \<Rightarrow> (Inr m, r\<lparr>queue := (queue r)(opened_readers r ! h := ms)\<rparr>))"

definition recording :: "(nat \<Rightarrow> error option) \<Rightarrow> (handle \<Rightarrow> error option) \<Rightarrow> recorder clients" where
  "recording fails close_fails =
     \<lparr>create_topics = (\<lambda>c ts. retS ()),
      close_connection = (\<lambda>c r. (Inr (), r\<lparr>connections_closed := Suc (connections_closed r)\<rparr>)),
      new_writer = rec_new_writer, write_messages = rec_write fails,
      close_writer = (\<lambda>h r. (answer (close_fails h) (), r\<lparr>closed := closed r @ [h]\<rparr>)),
      new_reader = (\<lambda>host topic r. (Inr (length (opened_readers r)), r\<lparr>opened_readers := opened_readers r @ [topic]\<rparr>)),
      reader_read = rec_read,
      close_reader = (\<lambda>h r. (Inr (), r\<lparr>closed_readers := closed_readers r @ [h]\<rparr>))\<rparr>"

definition blank :: recorder where
  "blank = \<lparr>opened = [], written = [], opened_readers = [], queue = (\<lambda>_. []), closed = [], closed_readers = [],
     connections_closed = 0\<rparr>"

lemma answer_simps [simp]: "answer None x = Inr x" "answer (Some e) x = Inl (Returned e)"
  by (simp_all add: answer_def)

text \<open>What reached which topic, in order.\<close>

definition delivered :: "recorder \<Rightarrow> (string \<times> string list) list" where
  "delivered r = map (\<lambda>(h, vs). (opened r ! h, vs)) (written r)"

text \<open>The writers of the provider are those that the recorder opened, each under its topic.\<close>

definition writers_recorded :: "recorder provider_sys \<Rightarrow> bool" where
  "writers_recorded = (\<lambda>(p, r).
     distinct (opened r) \<and> (\<forall>t. writers p t = find_index (\<lambda>x. x = t) (opened r)) \<and>
     list_all (\<lambda>(h, vs). h < length (opened r)) (written r))"

lemma writer_for_recorded:
  assumes "writers_recorded (p, r)"
  obtains h p' where "writer_for (recording fails cf) t (p, r) =
      (Inr h, (p', r\<lparr>opened := if t \<in> set (opened r) then opened r else opened r @ [t]\<rparr>))"
    and "writers_recorded (p', r\<lparr>opened := if t \<in> set (opened r) then opened r else opened r @ [t]\<rparr>)"
    and "h < length (if t \<in> set (opened r) then opened r else opened r @ [t])"
    and "(if t \<in> set (opened r) then opened r else opened r @ [t]) ! h = t"
proof (cases "t \<in> set (opened r)")
  case True
  then obtain i where i: "find_index (\<lambda>x. x = t) (opened r) = Some i"
    by (cases "find_index (\<lambda>x. x = t) (opened r)") auto
  with assms have "writer_for (recording fails cf) t (p, r) = (Inr i, (p, r))"
    by (simp add: writer_for_def writers_recorded_def)
  with True show ?thesis using that [of i p] assms find_index_Some [OF i] by simp
next
  case False
  let ?p = "p\<lparr>writers := (writers p)(t \<mapsto> length (opened r))\<rparr>"
  have "writers p t = None" using assms False by (simp add: writers_recorded_def)
  then have w: "writer_for (recording fails cf) t (p, r) =
      (Inr (length (opened r)), (?p, r\<lparr>opened := opened r @ [t]\<rparr>))"
    by (simp add: writer_for_def recording_def bindS_def rec_new_writer_def)
  have nf: "find_index (\<lambda>x. x = t) (opened r) = None" using False by simp
  have "find_index (\<lambda>x. x = u) (opened r @ [t]) = (if u = t then Some (length (opened r)) else find_index (\<lambda>x. x = u) (opened r))" for u
    using nf by (cases "find_index (\<lambda>x. x = u) (opened r)"; cases "u = t") (simp_all add: find_index_snoc del: find_index_None_eq)
  then have "writers_recorded (?p, r\<lparr>opened := opened r @ [t]\<rparr>)"
    using assms False by (auto simp: writers_recorded_def list_all_iff less_SucI)
  then show ?thesis using that [of "length (opened r)" ?p] w False by simp
qed

text \<open>The messages of many calls of \<open>WriteMessage\<close>, each of which only logs its error.\<close>

definition write_all :: "'k clients \<Rightarrow> (string \<times> string) list \<Rightarrow> ('k provider_sys, unit) io" where
  "write_all cl ms = eachS (\<lambda>(t, v). loggedS (WriteMessage cl t v)) ms"

definition add_topic :: "string list \<Rightarrow> string \<Rightarrow> string list" where
  "add_topic ts t = (if t \<in> set ts then ts else ts @ [t])"

lemma WriteMessage_recorded:
  assumes "writers_recorded (p, r)"
  obtains p' r' where "loggedS (WriteMessage (recording fails cf) t v) (p, r) = (Inr (), (p', r'))"
    and "writers_recorded (p', r')" and "opened r' = add_topic (opened r) t"
    and "delivered r' = delivered r @ [(t, [v])]"
proof -
  let ?o = "if t \<in> set (opened r) then opened r else opened r @ [t]"
  from writer_for_recorded [OF assms, of fails cf t] obtain h p' where
    w: "writer_for (recording fails cf) t (p, r) = (Inr h, (p', r\<lparr>opened := ?o\<rparr>))"
    and ok: "writers_recorded (p', r\<lparr>opened := ?o\<rparr>)" and h: "h < length ?o" "?o ! h = t" by blast
  let ?r = "r\<lparr>opened := ?o, written := written r @ [(h, [v])]\<rparr>"
  have "WriteMessage (recording fails cf) t v (p, r) = (answer (fails (length (written r))) (), (p', ?r))"
    unfolding WriteMessage_def bindS_def w by (simp add: recording_def rec_write_def)
  then have run: "loggedS (WriteMessage (recording fails cf) t v) (p, r) = (Inr (), (p', ?r))"
    by (cases "fails (length (written r))") (auto intro: loggedS_Inr loggedS_Returned)
  have old: "list_all (\<lambda>(h, vs). h < length (opened r)) (written r)" using assms by (simp add: writers_recorded_def)
  have "writers_recorded (p', ?r)" using ok h(1) by (simp add: writers_recorded_def)
  moreover have "opened ?r = add_topic (opened r) t" by (simp add: add_topic_def)
  moreover have "map (\<lambda>(h, vs). (?o ! h, vs)) (written r) = map (\<lambda>(h, vs). (opened r ! h, vs)) (written r)"
    using old by (auto simp: nth_append list_all_iff)
  then have "delivered ?r = delivered r @ [(t, [v])]" using h(2) by (simp add: delivered_def)
  ultimately show ?thesis using that run by blast
qed

lemma write_all_recorded:
  assumes "writers_recorded (p, r)"
  shows "\<exists>p' r'. write_all (recording fails cf) ms (p, r) = (Inr (), (p', r')) \<and> writers_recorded (p', r') \<and>
     opened r' = fold (\<lambda>t ts. add_topic ts t) (map fst ms) (opened r) \<and>
     delivered r' = delivered r @ map (\<lambda>(t, v). (t, [v])) ms"
  using assms
proof (induction ms arbitrary: p r)
  case Nil
  then show ?case by (simp add: write_all_def)
next
  case (Cons m ms)
  obtain t v where m: "m = (t, v)" by (cases m)
  from WriteMessage_recorded [OF Cons.prems, of fails cf t v] obtain p1 r1 where
    s: "loggedS (WriteMessage (recording fails cf) t v) (p, r) = (Inr (), (p1, r1))" "writers_recorded (p1, r1)"
    "opened r1 = add_topic (opened r) t" "delivered r1 = delivered r @ [(t, [v])]" by blast
  from Cons.IH [OF s(2)] obtain p' r' where
    "write_all (recording fails cf) ms (p1, r1) = (Inr (), (p', r'))" "writers_recorded (p', r')"
    "opened r' = fold (\<lambda>t ts. add_topic ts t) (map fst ms) (opened r1)"
    "delivered r' = delivered r1 @ map (\<lambda>(t, v). (t, [v])) ms" by blast
  then show ?case using s m by (simp add: write_all_def bindS_Inr)
qed

text \<open>The elements of a list in the order of their first occurrences.\<close>

fun firsts :: "'a list \<Rightarrow> 'a list" where
  "firsts [] = []"
| "firsts (x # xs) = x # removeAll x (firsts xs)"

lemma set_firsts [simp]: "set (firsts xs) = set xs"
  by (induction xs) auto

lemma fold_add_topic: "fold (\<lambda>t ts. add_topic ts t) us ts = ts @ filter (\<lambda>u. u \<notin> set ts) (firsts us)"
proof (induction us arbitrary: ts)
  case Nil
  then show ?case by simp
next
  case (Cons u us)
  show ?case
  proof (cases "u \<in> set ts")
    case True
    then have "filter (\<lambda>u. u \<notin> set ts) (firsts us) = filter (\<lambda>v. v \<notin> set ts) (removeAll u (firsts us))"
      by (induction "firsts us") (auto simp: removeAll_filter_not_eq intro!: filter_cong)
    with True Cons show ?thesis by (simp add: add_topic_def)
  next
    case False
    with Cons show ?thesis
      by (auto simp: add_topic_def removeAll_filter_not_eq intro!: filter_cong)
  qed
qed

text \<open>
  Whatever the topics and whichever writes fail, the provider opens one writer for each topic, in the
  order in which the topics first occur, and every message is handed exactly once, in the order of the
  calls, to the writer of its own topic.
\<close>

theorem writes_reach_their_topic:
  "\<exists>p r. write_all (recording fails close_fails) ms (NewFakeProvider conn, blank) = (Inr (), (p, r)) \<and>
     delivered r = map (\<lambda>(t, v). (t, [v])) ms \<and> opened r = firsts (map fst ms) \<and>
     dom (writers p) = set (map fst ms)"
proof -
  have "writers_recorded (NewFakeProvider conn, blank)"
    by (simp add: writers_recorded_def NewFakeProvider_def new_provider_def blank_def)
  from write_all_recorded [OF this, of fails close_fails ms] obtain p r where
    w: "write_all (recording fails close_fails) ms (NewFakeProvider conn, blank) = (Inr (), (p, r))"
    "writers_recorded (p, r)" "opened r = fold (\<lambda>t ts. add_topic ts t) (map fst ms) []"
    "delivered r = map (\<lambda>(t, v). (t, [v])) ms" by (auto simp: blank_def delivered_def)
  have "opened r = firsts (map fst ms)" using w(3) by (simp add: fold_add_topic)
  moreover from this have "dom (writers p) = set (map fst ms)"
    using w(2) by (auto simp: writers_recorded_def dom_def)
  ultimately show ?thesis using w by blast
qed

section \<open>Concurrent writes\<close>

text \<open>
  The invoker calls \<open>WriteMessage\<close> from a goroutine per message and per ping, and nothing protects the map.
  A call between its lookup, the making of a writer, the store into the map and the write; the runtime's
  own check for concurrent map writes, which ends the process, is left out.
\<close>

datatype write_job =
    Asks string string
  | Opening string string
  | Storing string string handle
  | Writing string string handle
  | Written string string

record race =
  race_provider :: provider
  race_client :: recorder
  race_jobs :: "write_job list"

definition set_write :: "nat \<Rightarrow> write_job \<Rightarrow> race \<Rightarrow> race" where
  "set_write k j w = w\<lparr>race_jobs := (race_jobs w)[k := j]\<rparr>"

inductive write_step :: "(nat \<Rightarrow> error option) \<Rightarrow> race \<Rightarrow> race \<Rightarrow> bool" for fails where
  write_call: "write_step fails w (w\<lparr>race_jobs := race_jobs w @ [Asks t v]\<rparr>)"
| lookup_found: "\<lbrakk> k < length (race_jobs w); race_jobs w ! k = Asks t v; writers (race_provider w) t = Some h \<rbrakk> \<Longrightarrow>
     write_step fails w (set_write k (Writing t v h) w)"
| lookup_missed: "\<lbrakk> k < length (race_jobs w); race_jobs w ! k = Asks t v; writers (race_provider w) t = None \<rbrakk> \<Longrightarrow>
     write_step fails w (set_write k (Opening t v) w)"
| make_writer: "\<lbrakk> k < length (race_jobs w); race_jobs w ! k = Opening t v;
     rec_new_writer (pv_host (race_provider w)) t (race_client w) = (Inr h, r) \<rbrakk> \<Longrightarrow>
     write_step fails w (set_write k (Storing t v h) (w\<lparr>race_client := r\<rparr>))"
| store_writer: "\<lbrakk> k < length (race_jobs w); race_jobs w ! k = Storing t v h \<rbrakk> \<Longrightarrow>
     write_step fails w (set_write k (Writing t v h)
       (w\<lparr>race_provider := (race_provider w)\<lparr>writers := (writers (race_provider w))(t \<mapsto> h)\<rparr>\<rparr>))"
| write_out: "\<lbrakk> k < length (race_jobs w); race_jobs w ! k = Writing t v h;
     rec_write fails h [v] (race_client w) = (res, r) \<rbrakk> \<Longrightarrow>
     write_step fails w (set_write k (Written t v) (w\<lparr>race_client := r\<rparr>))"

fun job_writer_ok :: "string list \<Rightarrow> write_job \<Rightarrow> bool" where
  "job_writer_ok os (Storing t v h) \<longleftrightarrow> h < length os \<and> os ! h = t"
| "job_writer_ok os (Writing t v h) \<longleftrightarrow> h < length os \<and> os ! h = t"
| "job_writer_ok os _ \<longleftrightarrow> True"

fun job_written :: "write_job \<Rightarrow> (string \<times> string list) multiset" where
  "job_written (Written t v) = {#(t, [v])#}"
| "job_written _ = {#}"

definition all_written :: "write_job list \<Rightarrow> (string \<times> string list) multiset" where
  "all_written js = (\<Sum>j\<leftarrow>js. job_written j)"

definition handles_ok :: "string list \<Rightarrow> (handle \<times> string list) list \<Rightarrow> bool" where
  "handles_ok os out \<longleftrightarrow> list_all (\<lambda>(h, vs). h < length os) out"

lemma handles_ok_simps [simp]:
  "handles_ok os []" "handles_ok os (out @ [(h, vs)]) \<longleftrightarrow> handles_ok os out \<and> h < length os"
  by (simp_all add: handles_ok_def)

definition race_inv :: "race \<Rightarrow> bool" where
  "race_inv w \<longleftrightarrow>
     (\<forall>t h. writers (race_provider w) t = Some h \<longrightarrow>
        h < length (opened (race_client w)) \<and> opened (race_client w) ! h = t) \<and>
     (\<forall>j \<in> set (race_jobs w). job_writer_ok (opened (race_client w)) j) \<and>
     handles_ok (opened (race_client w)) (written (race_client w)) \<and>
     mset (delivered (race_client w)) = all_written (race_jobs w)"

definition race_start :: "handle \<Rightarrow> race \<Rightarrow> bool" where
  "race_start conn w \<longleftrightarrow> w = \<lparr>race_provider = NewFakeProvider conn, race_client = blank, race_jobs = []\<rparr>"

lemma all_written_simps [simp]:
  "all_written [] = {#}" "all_written (j # js) = job_written j + all_written js"
  "all_written (js @ ks) = all_written js + all_written ks"
  by (simp_all add: all_written_def)

lemma all_written_update:
  "k < length js \<Longrightarrow> all_written (js[k := j]) + job_written (js ! k) = all_written js + job_written j"
  by (induction js arbitrary: k) (auto split: nat.splits)

lemma job_writer_ok_mono: "job_writer_ok os j \<Longrightarrow> job_writer_ok (os @ [t]) j"
  by (cases j) (auto simp: nth_append)

lemma delivered_open:
  "handles_ok (opened r) (written r) \<Longrightarrow> delivered (r\<lparr>opened := opened r @ [t]\<rparr>) = delivered r"
  by (auto simp: delivered_def nth_append handles_ok_def list_all_iff)

lemma handles_ok_mono: "handles_ok os out \<Longrightarrow> handles_ok (os @ [t]) out"
  by (auto simp: handles_ok_def list_all_iff less_SucI)

lemma race_inv_step:
  assumes "write_step fails w w'" and inv: "race_inv w"
  shows "race_inv w'"
proof -
  have upd: "\<forall>i \<in> set ((race_jobs w)[k := j]). job_writer_ok (opened (race_client w)) i"
    if "job_writer_ok (opened (race_client w)) j" for k j
    using inv that by (auto simp: race_inv_def dest!: set_update_subset_insert [THEN subsetD])
  show ?thesis
    using assms(1)
  proof cases
    case (write_call t v)
    then show ?thesis using inv by (simp add: race_inv_def)
  next
    case (lookup_found k t v h)
    with inv upd [of "Writing t v h" k] all_written_update [of k "race_jobs w" "Writing t v h"] show ?thesis
      by (simp add: race_inv_def set_write_def)
  next
    case (lookup_missed k t v)
    with inv upd [of "Opening t v" k] all_written_update [of k "race_jobs w" "Opening t v"] show ?thesis
      by (simp add: race_inv_def set_write_def)
  next
    case (make_writer k t v h r)
    then have h: "h = length (opened (race_client w))" and r: "r = (race_client w)\<lparr>opened := opened (race_client w) @ [t]\<rparr>"
      by (simp_all add: rec_new_writer_def)
    have old: "handles_ok (opened (race_client w)) (written (race_client w))"
      using inv by (simp add: race_inv_def)
    have "job_writer_ok (opened r) i" if "i \<in> set ((race_jobs w)[k := Storing t v h])" for i
    proof -
      from that consider "i = Storing t v h" | "i \<in> set (race_jobs w)" by (auto dest!: set_update_subset_insert [THEN subsetD])
      then show ?thesis
      proof cases
        case 1
        then show ?thesis by (simp add: h r)
      next
        case 2
        then show ?thesis using inv by (auto simp: race_inv_def r intro: job_writer_ok_mono)
      qed
    qed
    moreover have "mset (delivered r) = all_written ((race_jobs w)[k := Storing t v h])"
      using delivered_open [OF old, of t] inv make_writer all_written_update [of k "race_jobs w" "Storing t v h"]
      by (simp add: race_inv_def r)
    ultimately show ?thesis using inv make_writer(1)
      by (auto simp: race_inv_def set_write_def r nth_append less_SucI handles_ok_mono)
  next
    case (store_writer k t v h)
    then have "job_writer_ok (opened (race_client w)) (Storing t v h)"
      using inv nth_mem [of k "race_jobs w"] by (auto simp: race_inv_def)
    with store_writer inv upd [of "Writing t v h" k] all_written_update [of k "race_jobs w" "Writing t v h"] show ?thesis
      by (auto simp: race_inv_def set_write_def)
  next
    case (write_out k t v h res r)
    then have "job_writer_ok (opened (race_client w)) (Writing t v h)"
      using inv nth_mem [of k "race_jobs w"] by (auto simp: race_inv_def)
    with write_out inv upd [of "Written t v" k] all_written_update [of k "race_jobs w" "Written t v"] show ?thesis
      by (auto simp: race_inv_def set_write_def rec_write_def delivered_def)
  qed
qed

interpretation racing: guarded_system "race_start conn" "write_step fails" race_inv for conn fails
proof
  show "race_inv w" if "race_start conn w" for w
    using that by (simp add: race_start_def race_inv_def NewFakeProvider_def new_provider_def blank_def delivered_def)
  show "race_inv w'" if "race_inv w" "write_step fails w w'" for w w'
    using race_inv_step that by blast
qed

text \<open>
  However the goroutines that write messages interleave, each message that has been written was handed
  exactly once to a writer of its own topic, and nothing else was handed to any writer.
\<close>

theorem racing_writes_reach_their_topic:
  assumes "reach (race_start conn) (write_step fails) w"
  shows "mset (delivered (race_client w)) = all_written (race_jobs w)"
  using racing.reach_inv [OF assms] by (simp add: race_inv_def)

definition raced :: "write_job list \<Rightarrow> (string \<Rightarrow> handle option) \<Rightarrow> string list \<Rightarrow> (handle \<times> string list) list \<Rightarrow> race" where
  "raced js ws os out =
     \<lparr>race_provider = (NewFakeProvider 0)\<lparr>writers := ws\<rparr>, race_client = blank\<lparr>opened := os, written := out\<rparr>,
      race_jobs = js\<rparr>"

lemma raced_simps [simp]:
  "race_jobs (raced js ws os out) = js" "writers (race_provider (raced js ws os out)) = ws"
  "opened (race_client (raced js ws os out)) = os" "written (race_client (raced js ws os out)) = out"
  "set_write k j (raced js ws os out) = raced (js[k := j]) ws os out"
  "(raced js ws os out)\<lparr>race_jobs := js'\<rparr> = raced js' ws os out"
  by (simp_all add: raced_def set_write_def)

lemma raced_make: "rec_new_writer host t (race_client (raced js ws os out)) =
    (Inr (length os), race_client (raced js ws (os @ [t]) out))"
  by (simp add: rec_new_writer_def raced_def blank_def)

lemma raced_client [simp]:
  "set_write k j ((raced js ws os out)\<lparr>race_client := race_client (raced js' ws' os' out')\<rparr>) =
     raced (js[k := j]) ws os' out'"
  by (simp add: raced_def set_write_def)

lemma raced_store:
  "set_write k j ((raced js ws os out)\<lparr>race_provider := (race_provider (raced js ws os out))\<lparr>writers := ws'\<rparr>\<rparr>) =
     raced (js[k := j]) ws' os out"
  by (simp add: raced_def set_write_def)

lemma raced_write:
  "rec_write fails h vs (race_client (raced js ws os out)) =
     (answer (fails (length out)) (), race_client (raced js ws os (out @ [(h, vs)])))"
  by (simp add: rec_write_def raced_def blank_def)

text \<open>
  Two goroutines that write to a new topic at the same time can both open a writer for it: the map keeps
  one of them, and \<open>Close\<close>, in whatever order it walks over the map, closes only that one and reports success.
\<close>

theorem racing_writes_leak_a_writer:
  "\<exists>w. reach (race_start 0) (write_step fails) w \<and> race_jobs w = [Written t u, Written t v] \<and>
     opened (race_client w) = [t, t] \<and> closed (race_client w) = [] \<and>
     (\<exists>p r. Close_provider (recording fails (\<lambda>_. None)) [t] [] (race_provider w, race_client w) = (Inr (), (p, r)) \<and>
        closed r = [1])"
proof -
  let ?R = "reach (race_start 0) (write_step fails)"
  have "?R (raced [] (\<lambda>_. None) [] [])"
    by (rule reach_init) (simp add: race_start_def raced_def NewFakeProvider_def new_provider_def blank_def)
  from reach_step [OF this, OF write_call [where t = t and v = u]]
  have "?R (raced [Asks t u] (\<lambda>_. None) [] [])" by simp
  from reach_step [OF this, OF write_call [where t = t and v = v]]
  have "?R (raced [Asks t u, Asks t v] (\<lambda>_. None) [] [])" by simp
  from reach_step [OF this, OF lookup_missed [where k = 0 and t = t and v = u]]
  have "?R (raced [Opening t u, Asks t v] (\<lambda>_. None) [] [])" by simp
  from reach_step [OF this, OF lookup_missed [where k = 1 and t = t and v = v]]
  have "?R (raced [Opening t u, Opening t v] (\<lambda>_. None) [] [])" by simp
  from reach_step [OF this, OF make_writer [where k = 0 and t = t and v = u, OF _ _ raced_make]]
  have "?R (raced [Storing t u 0, Opening t v] (\<lambda>_. None) [t] [])" by simp
  from reach_step [OF this, OF make_writer [where k = 1 and t = t and v = v, OF _ _ raced_make]]
  have "?R (raced [Storing t u 0, Storing t v 1] (\<lambda>_. None) [t, t] [])" by simp
  from reach_step [OF this, OF store_writer [where k = 0 and t = t and v = u and h = 0]]
  have "?R (raced [Writing t u 0, Storing t v 1] [t \<mapsto> 0] [t, t] [])" by (simp add: raced_store)
  from reach_step [OF this, OF store_writer [where k = 1 and t = t and v = v and h = 1]]
  have "?R (raced [Writing t u 0, Writing t v 1] [t \<mapsto> 1] [t, t] [])" by (simp add: raced_store)
  from reach_step [OF this, OF write_out [where k = 0 and t = t and v = u and h = 0, OF _ _ raced_write]]
  have "?R (raced [Written t u, Writing t v 1] [t \<mapsto> 1] [t, t] [(0, [u])])" by simp
  from reach_step [OF this, OF write_out [where k = 1 and t = t and v = v and h = 1, OF _ _ raced_write]]
  have r: "?R (raced [Written t u, Written t v] [t \<mapsto> 1] [t, t] [(0, [u]), (1, [v])])" by simp
  show ?thesis
  proof (rule exI, rule conjI [OF r], intro conjI)
    let ?w = "raced [Written t u, Written t v] [t \<mapsto> 1] [t, t] [(0, [u]), (1, [v])]"
    show "\<exists>p r. Close_provider (recording fails (\<lambda>_. None)) [t] [] (race_provider ?w, race_client ?w) = (Inr (), (p, r)) \<and> closed r = [1]"
      by (simp add: raced_def Close_provider_def thenS_def close_entry_def recording_def bindS_def blank_def)
  qed (simp_all add: raced_def blank_def)
qed

section \<open>Closing and sending\<close>

lemma close_entries:
  assumes "list_all (\<lambda>t. writers p t \<noteq> None) ws" and "list_all (\<lambda>t. cf (the (writers p t)) = None) ws"
  shows "eachS (close_entry writers (close_writer (recording fails cf))) ws (p, r) =
     (Inr (), (p, r\<lparr>closed := closed r @ map (\<lambda>t. the (writers p t)) ws\<rparr>))"
  using assms by (induction ws arbitrary: r) (auto simp: bindS_def close_entry_def recording_def)

lemma close_reader_entries:
  assumes "list_all (\<lambda>t. readers p t \<noteq> None) rs"
  shows "eachS (close_entry readers (close_reader (recording fails cf))) rs (p, r) =
     (Inr (), (p, r\<lparr>closed_readers := closed_readers r @ map (\<lambda>t. the (readers p t)) rs\<rparr>))"
  using assms by (induction rs arbitrary: r) (auto simp: bindS_def close_entry_def recording_def)

text \<open>
  In whatever orders \<open>Close\<close> walks over the two maps, if closing succeeds then every writer and every
  reader of the provider has been closed exactly once, and then the connection.
\<close>

theorem Close_closes_everything:
  assumes "list_all (\<lambda>t. writers p t \<noteq> None) ws" and "list_all (\<lambda>t. readers p t \<noteq> None) rs"
    and "list_all (\<lambda>t. close_fails (the (writers p t)) = None) ws"
  shows "Close_messenger (recording fails close_fails) ws rs (p, r) =
     (Inr (), (p, r\<lparr>closed := closed r @ map (\<lambda>t. the (writers p t)) ws,
        closed_readers := closed_readers r @ map (\<lambda>t. the (readers p t)) rs,
        connections_closed := Suc (connections_closed r)\<rparr>))"
  using close_entries [OF assms(1,3)] close_reader_entries [OF assms(2)]
  by (simp add: Close_messenger_def Close_provider_def thenS_def bindS_def recording_def)

text \<open>
  \<open>Close\<close> gives up at the first writer whose closing fails: it returns that error, and the writers
  after it, all readers and the connection stay open.
\<close>

theorem Close_stops_at_first_error:
  assumes "list_all (\<lambda>t. writers p t \<noteq> None) ws" and "list_all (\<lambda>t. close_fails (the (writers p t)) = None) ws"
    and "writers p t = Some h" and "close_fails h = Some e"
  shows "Close_messenger (recording fails close_fails) (ws @ t # ts) rs (p, r) =
     (Inl (Returned e), (p, r\<lparr>closed := closed r @ map (\<lambda>t. the (writers p t)) ws @ [h]\<rparr>))"
proof -
  have "close_entry writers (close_writer (recording fails close_fails)) t (p, r') =
      (Inl (Returned e), (p, r'\<lparr>closed := closed r' @ [h]\<rparr>))" for r'
    using assms(3,4) by (simp add: close_entry_def recording_def)
  from eachS_stops [OF close_entries [OF assms(1,2), of fails r] this, of ts]
  show ?thesis by (simp add: Close_messenger_def Close_provider_def thenS_def bindS_def)
qed

definition ex_provider :: provider where
  "ex_provider = (NewFakeProvider 0)\<lparr>writers := [''health'' \<mapsto> 0, ''completed0'' \<mapsto> 1], readers := [''invoker0'' \<mapsto> 0]\<rparr>"

lemma ex_provider_simps [simp]:
  "writers ex_provider = [''health'' \<mapsto> 0, ''completed0'' \<mapsto> 1]" "readers ex_provider = [''invoker0'' \<mapsto> 0]"
  by (simp_all add: ex_provider_def)

theorem Close_closes_everything_witness:
  "Close_messenger (recording (\<lambda>_. None) (\<lambda>_. None)) [''completed0'', ''health''] [''invoker0''] (ex_provider, blank) =
     (Inr (), (ex_provider, blank\<lparr>closed := [1, 0], closed_readers := [0], connections_closed := 1\<rparr>))"
  using Close_closes_everything [of ex_provider "[''completed0'', ''health'']" "[''invoker0'']" "\<lambda>_. None" "\<lambda>_. None" blank]
  by (simp add: blank_def)

theorem Close_stops_at_first_error_witness:
  "Close_messenger (recording (\<lambda>_. None) [0 \<mapsto> Ext ''closed'']) [''health'', ''completed0''] [''invoker0''] (ex_provider, blank) =
     (Inl (Returned (Ext ''closed'')), (ex_provider, blank\<lparr>closed := [0]\<rparr>))"
  using Close_stops_at_first_error [of ex_provider "[]" "[0 \<mapsto> Ext ''closed'']" "''health''" 0 "Ext ''closed''"
      "\<lambda>_. None" "[''completed0'']" "[''invoker0'']" blank]
  by (simp add: blank_def)

text \<open>
  The result and the completion of an activation go, in the order in which they are sent, to the one
  topic of the controller that the activation names, as the encodings of messages that carry the
  activation's id and transaction; the completion always says that there was no system error.
\<close>

theorem answers_reach_the_controller:
  assumes "marshal_result js \<lparr>cr_response = GenerateResponse now1 now2 activation function result,
             cr_transaction = am_transaction activation\<rparr> = Inr raw"
    and "marshal_completion js \<lparr>cm_activation = am_id activation, cm_invoker = messenger_name m,
             cm_system_error = False, cm_transaction = am_transaction activation\<rparr> = Inr ack"
  shows "\<exists>p r. thenS (SendResult (recording (\<lambda>_. None) cf) js now1 now2 activation function result)
       (SendCompletion (recording (\<lambda>_. None) cf) js m activation function result) (NewFakeProvider conn, blank) = (Inr (), (p, r)) \<and>
     delivered r = [(''completed'' @ am_controller activation, [raw]), (''completed'' @ am_controller activation, [ack])] \<and>
     opened r = [''completed'' @ am_controller activation]"
proof -
  let ?cl = "recording (\<lambda>_. None) cf" and ?t = "controller_topic activation"
  have sends: "SendResult ?cl js now1 now2 activation function result = WriteMessage ?cl ?t raw"
      "SendCompletion ?cl js m activation function result = WriteMessage ?cl ?t ack"
    using assms by (simp_all add: SendResult_def SendCompletion_def completion_of_def wrapS_def liftS_def bindS_def fun_eq_iff)
  show ?thesis
    unfolding sends
    by (simp add: thenS_def bindS_def WriteMessage_def writer_for_def recording_def NewFakeProvider_def new_provider_def
        blank_def rec_new_writer_def rec_write_def delivered_def controller_topic_def)
qed

definition ex_codec :: message_codec where
  "ex_codec = \<lparr>unmarshal_activation = (\<lambda>s. Inl (Ext s)), marshal_completion = (\<lambda>m. Inr (cm_activation m)),
     marshal_result = (\<lambda>m. Inr (r_name (cr_response m))), marshal_ping = (\<lambda>m. Inr (n_unique (ping_name m)))\<rparr>"

definition ex_activation :: activation_message where
  "ex_activation =
     \<lparr>am_action = \<lparr>a_name = ''hello'', a_path = ''guest'', a_version = ''0.0.1''\<rparr>, am_id = ''a1'', am_blocking = True,
      am_parameters = JObject [], am_revision = ''1'', am_controller = ''0'', am_transaction = [],
      am_user = \<lparr>u_api_key = [], u_limits = JNull, u_namespace = ''guest'', u_uuid = [], u_rights = [], u_subject = ''guest''\<rparr>\<rparr>"

theorem answers_reach_the_controller_witness:
  "\<exists>p r. thenS (SendResult (recording (\<lambda>_. None) (\<lambda>_. None)) ex_codec 0 0 ex_activation ex_doc JNull)
       (SendCompletion (recording (\<lambda>_. None) (\<lambda>_. None)) ex_codec (new_messenger 0) ex_activation ex_doc JNull)
       (NewFakeProvider 0, blank) = (Inr (), (p, r)) \<and>
     delivered r = [(''completed0'', [f_name ex_doc]), (''completed0'', [''a1''])] \<and> opened r = [''completed0'']"
  using answers_reach_the_controller [of ex_codec 0 0 ex_activation ex_doc JNull "f_name ex_doc" "new_messenger 0" "''a1''" "\<lambda>_. None" 0]
  by (simp add: ex_codec_def ex_activation_def GenerateResponse_def)

text \<open>A ping per second until somebody stops them, and no end before that.\<close>

lemma health_loop_runs: "\<lbrakk> \<forall>k. i \<le> k \<longrightarrow> k < i + n \<longrightarrow> \<not> stop k \<rbrakk> \<Longrightarrow> health_loop n stop i = None"
  by (induction n arbitrary: i) auto

lemma health_loop_stops:
  "\<lbrakk> stop (i + n); \<forall>k. i \<le> k \<longrightarrow> k < i + n \<longrightarrow> \<not> stop k \<rbrakk> \<Longrightarrow> health_loop (Suc n) stop i = Some (i + n)"
  by (induction n arbitrary: i) auto

text \<open>
  The health pings go on until the stop channel is used and end then: if the first \<open>select\<close> that finds a
  sender on it is the \<open>n\<close>-th, exactly \<open>n\<close> pings have been started.
\<close>

theorem StartHealthPings_stops:
  assumes "stop n" and "list_all (\<lambda>k. \<not> stop k) [0..<n]"
  shows "StartHealthPings (Suc n) stop = Some n"
  using health_loop_stops [of stop 0 n] assms by (simp add: StartHealthPings_def list_all_iff)

theorem StartHealthPings_stops_witness: "StartHealthPings 4 (\<lambda>k. k = 3) = Some 3"
  using StartHealthPings_stops [of "\<lambda>k. k = 3" 3] by (simp add: upt_rec)

theorem racing_writes_reach_their_topic_witness:
  "mset (delivered (race_client (raced [Written ''t'' ''u'', Asks ''t'' ''v''] [''t'' \<mapsto> 0] [''t''] [(0, [''u''])]))) =
     {#(''t'', [''u''])#}"
proof -
  let ?R = "reach (race_start 0) (write_step (\<lambda>_. None))"
  have "?R (raced [] (\<lambda>_. None) [] [])"
    by (rule reach_init) (simp add: race_start_def raced_def NewFakeProvider_def new_provider_def blank_def)
  from reach_step [OF this, OF write_call [where t = "''t''" and v = "''u''"]]
  have "?R (raced [Asks ''t'' ''u''] (\<lambda>_. None) [] [])" by simp
  from reach_step [OF this, OF lookup_missed [where k = 0 and t = "''t''" and v = "''u''"]]
  have "?R (raced [Opening ''t'' ''u''] (\<lambda>_. None) [] [])" by simp
  from reach_step [OF this, OF make_writer [where k = 0 and t = "''t''" and v = "''u''", OF _ _ raced_make]]
  have "?R (raced [Storing ''t'' ''u'' 0] (\<lambda>_. None) [''t''] [])" by simp
  from reach_step [OF this, OF store_writer [where k = 0 and t = "''t''" and v = "''u''" and h = 0]]
  have "?R (raced [Writing ''t'' ''u'' 0] [''t'' \<mapsto> 0] [''t''] [])" by (simp add: raced_store)
  from reach_step [OF this, OF write_out [where k = 0 and t = "''t''" and v = "''u''" and h = 0, OF _ _ raced_write]]
  have "?R (raced [Written ''t'' ''u''] [''t'' \<mapsto> 0] [''t''] [(0, [''u''])])" by simp
  from reach_step [OF this, OF write_call [where t = "''t''" and v = "''v''"]]
  have "?R (raced [Written ''t'' ''u'', Asks ''t'' ''v''] [''t'' \<mapsto> 0] [''t''] [(0, [''u''])])" by simp
  from racing_writes_reach_their_topic [OF this] show ?thesis by (simp add: all_written_def)
qed

end
