(* ===== verification/Storage.thy ===== *)
theory Storage
  imports Function_Doc Go_Env
begin

text \<open>
  \<open>invoker/storage/function_storage.go\<close>: functions come from a CouchDB database through an LRU cache, and
  activations are stored in another database. The database client (kivik) and the cache (golang-lru) are
  parameters; \<open>lru_laws\<close> is what the documentation of the cache says.
\<close>

section \<open>The storage\<close>

type_synonym db_handle = nat

record 'k database =
  db_New :: "string \<Rightarrow> string \<Rightarrow> ('k, db_handle) io"
  db_DB :: "db_handle \<Rightarrow> string \<Rightarrow> ('k, db_handle) io"
  db_Get :: "db_handle \<Rightarrow> string \<Rightarrow> ('k, string) io"
  db_ScanDoc :: "string \<Rightarrow> error + function_doc"
  db_Put :: "db_handle \<Rightarrow> string \<Rightarrow> activation_doc \<Rightarrow> ('k, unit) io"
  db_marshal :: "activation_doc \<Rightarrow> error + string"
  db_now :: "'k \<Rightarrow> int"

record 'c lru =
  lru_New :: "nat \<Rightarrow> error + 'c"
  lru_Contains :: "'c \<Rightarrow> string \<Rightarrow> bool"
  lru_Get :: "string \<Rightarrow> 'c \<Rightarrow> function_doc option \<times> 'c"
  lru_Add :: "string \<Rightarrow> function_doc \<Rightarrow> 'c \<Rightarrow> 'c"

definition defaultCacheSize :: nat where "defaultCacheSize = 64"

record 'c function_storage =
  functionDB :: db_handle
  functionCache :: 'c
  activationDB :: db_handle

type_synonym ('c, 'k) storage_sys = "'c function_storage \<times> 'k"

definition NewFunctionStorage ::
  "'c lru \<Rightarrow> 'k database \<Rightarrow> string \<Rightarrow> string \<Rightarrow> string \<Rightarrow> ('k, 'c function_storage) io" where
  "NewFunctionStorage L db host functionDBName activationDBName =
     bindS (wrapS ''could not establish connection to database'' (db_New db ''couch'' host)) (\<lambda>client.
     bindS (wrapS ''could not create functionDB connection'' (db_DB db client functionDBName)) (\<lambda>fdb.
     bindS (wrapS ''could not create activationDB connection'' (db_DB db client activationDBName)) (\<lambda>adb.
     bindS (wrapS ''could not initialize function cache'' (liftS (of_sum (lru_New L defaultCacheSize)))) (\<lambda>cache.
     retS \<lparr>functionDB = fdb, functionCache = cache, activationDB = adb\<rparr>))))"

definition fullDocID :: "string \<Rightarrow> string \<Rightarrow> string" where
  "fullDocID path name = path @ ''/'' @ name"

text \<open>
  The answer of the cache after \<open>Contains\<close>: the type assertion \<open>cacheResp.(*types.FunctionDoc)\<close> panics on
  the nil that the cache returns for a missing key.
\<close>

definition cache_hit :: "'c lru \<Rightarrow> string \<Rightarrow> 'c \<Rightarrow> function_doc res \<times> 'c" where
  "cache_hit L docID c =
     (case lru_Get L docID c of
        (Some f, c') \<Rightarrow> (Inr f, c')
      | (None, c') \<Rightarrow> (Inl (Panicked ''interface conversion: interface is nil''), c'))"

definition on_cache :: "('c \<Rightarrow> 'a res \<times> 'c) \<Rightarrow> ('c function_storage, 'a) io" where
  "on_cache m s = (case m (functionCache s) of (r, c) \<Rightarrow> (r, s\<lparr>functionCache := c\<rparr>))"

definition fetch :: "'k database \<Rightarrow> db_handle \<Rightarrow> string \<Rightarrow> ('k, function_doc) io" where
  "fetch db h docID =
     bindS (wrapS (''could not fetch database function '' @ docID) (db_Get db h docID)) (\<lambda>row.
     wrapS (''could not parse database function '' @ docID) (liftS (of_sum (db_ScanDoc db row))))"

definition GetFunction_doc ::
  "'c lru \<Rightarrow> 'k database \<Rightarrow> string \<Rightarrow> string \<Rightarrow> (('c, 'k) storage_sys, function_doc) io" where
  "GetFunction_doc L db path name = (\<lambda>(s, k).
     let docID = fullDocID path name in
     if lru_Contains L (functionCache s) docID then recS (on_cache (cache_hit L docID)) (s, k)
     else
       bindS (env (fetch db (functionDB s) docID)) (\<lambda>function.
       bindS (recS (on_cache (\<lambda>c. (Inr (), lru_Add L docID function c)))) (\<lambda>_.
       retS function)) (s, k))"

definition activation_doc_of :: "int \<Rightarrow> int \<Rightarrow> int \<Rightarrow> activation_message \<Rightarrow> function_doc \<Rightarrow> json \<Rightarrow> activation_doc" where
  "activation_doc_of now now1 now2 activation function result =
     \<lparr>ad_id = f_namespace function @ ''/'' @ am_id activation, ad_revision = [], ad_updated = now,
      ad_response = GenerateResponse now1 now2 activation function result\<rparr>"

text \<open>The marshalled document is only logged, but an error of the marshalling is returned.\<close>

definition StoreActivation ::
  "'k database \<Rightarrow> int \<Rightarrow> int \<Rightarrow> activation_message \<Rightarrow> function_doc \<Rightarrow> json \<Rightarrow> (('c, 'k) storage_sys, unit) io" where
  "StoreActivation db now1 now2 activation function result = (\<lambda>(s, k).
     let doc = activation_doc_of (db_now db k) now1 now2 activation function result in
     bindS (wrapS ''could not marshal activation'' (liftS (of_sum (db_marshal db doc)))) (\<lambda>_.
     env (db_Put db (activationDB s) (ad_id doc) doc)) (s, k))"

section \<open>What the cache promises\<close>

definition cached :: "'c lru \<Rightarrow> 'c \<Rightarrow> string \<Rightarrow> function_doc option" where
  "cached L c docID = fst (lru_Get L docID c)"

definition lru_laws :: "'c lru \<Rightarrow> bool" where
  "lru_laws L \<longleftrightarrow>
     (\<forall>c i. lru_Contains L c i \<longleftrightarrow> cached L c i \<noteq> None) \<and>
     (\<forall>c i j. cached L (snd (lru_Get L i c)) j = cached L c j) \<and>
     (\<forall>c i f. cached L (lru_Add L i f c) i = Some f) \<and>
     (\<forall>c i f j. j \<noteq> i \<longrightarrow> cached L (lru_Add L i f c) j \<in> {None, cached L c j}) \<and>
     (\<forall>n c i. lru_New L n = Inr c \<longrightarrow> cached L c i = None)"

lemma lru_contains: "lru_laws L \<Longrightarrow> lru_Contains L c i \<longleftrightarrow> cached L c i \<noteq> None"
  and lru_get: "lru_laws L \<Longrightarrow> cached L (snd (lru_Get L i c)) j = cached L c j"
  and lru_add: "lru_laws L \<Longrightarrow> cached L (lru_Add L i f c) i = Some f"
  and lru_add_other: "lru_laws L \<Longrightarrow> j \<noteq> i \<Longrightarrow> cached L (lru_Add L i f c) j \<in> {None, cached L c j}"
  and lru_new: "lru_laws L \<Longrightarrow> lru_New L n = Inr c \<Longrightarrow> cached L c i = None"
  by (simp_all add: lru_laws_def)

lemmas lru_facts = lru_contains lru_get lru_add lru_new

text \<open>The cases of \<open>GetFunction\<close>: served from the cache, or fetched and then cached.\<close>

lemma GetFunction_cached:
  assumes "lru_laws L" and "cached L (functionCache s) (fullDocID path name) = Some f"
  shows "GetFunction_doc L db path name (s, k) =
     (Inr f, (s\<lparr>functionCache := snd (lru_Get L (fullDocID path name) (functionCache s))\<rparr>, k))"
proof -
  obtain c' where "lru_Get L (fullDocID path name) (functionCache s) = (Some f, c')"
    using assms(2) by (cases "lru_Get L (fullDocID path name) (functionCache s)") (auto simp: cached_def)
  then show ?thesis
    using lru_contains [OF assms(1)] assms(2) by (simp add: GetFunction_doc_def on_cache_def cache_hit_def)
qed

lemma GetFunction_fetched:
  assumes "lru_laws L" and "cached L (functionCache s) (fullDocID path name) = None"
  shows "GetFunction_doc L db path name (s, k) =
     (case fetch db (functionDB s) (fullDocID path name) k of
        (Inl e, k') \<Rightarrow> (Inl e, (s, k'))
      | (Inr f, k') \<Rightarrow> (Inr f, (s\<lparr>functionCache := lru_Add L (fullDocID path name) f (functionCache s)\<rparr>, k')))"
  using lru_contains [OF assms(1)] assms(2)
  by (cases "fetch db (functionDB s) (fullDocID path name) k")
    (auto simp: GetFunction_doc_def bindS_def on_cache_def split: sum.splits)

text \<open>
  A function that was fetched is served from the cache from then on: right after a successful
  \<open>GetFunction\<close> the next one for the same name returns the same document without asking the database,
  whatever has happened to the database in between.
\<close>

theorem GetFunction_cached_afterwards:
  assumes "lru_laws L" and "GetFunction_doc L db path name (s, k) = (Inr f, (s1, k1))"
  shows "\<exists>s2. GetFunction_doc L db path name (s1, k2) = (Inr f, (s2, k2))"
proof -
  have "cached L (functionCache s1) (fullDocID path name) = Some f"
  proof (cases "cached L (functionCache s) (fullDocID path name)")
    case None
    with assms show ?thesis
      using GetFunction_fetched [OF assms(1) None, of db k]
      by (cases "fetch db (functionDB s) (fullDocID path name) k") (auto simp: lru_add split: sum.splits)
  next
    case (Some g)
    with assms show ?thesis using GetFunction_cached [OF assms(1) Some, of db k] by (auto simp: lru_get)
  qed
  from GetFunction_cached [OF assms(1) this] show ?thesis by (rule exI)
qed

text \<open>
  A database in which every document that can be read is the one in \<open>docs\<close>; reading may still fail.
\<close>

definition serves :: "'k database \<Rightarrow> db_handle \<Rightarrow> (string \<Rightarrow> string option) \<Rightarrow> bool" where
  "serves db h docs \<longleftrightarrow> (\<forall>docID k row k'. db_Get db h docID k = (Inr row, k') \<longrightarrow> docs docID = Some row)"

definition doc_in :: "'k database \<Rightarrow> (string \<Rightarrow> string option) \<Rightarrow> string \<Rightarrow> function_doc \<Rightarrow> bool" where
  "doc_in db docs docID f \<longleftrightarrow> (case docs docID of None \<Rightarrow> False | Some row \<Rightarrow> db_ScanDoc db row = Inr f)"

definition cache_coherent :: "'c lru \<Rightarrow> 'k database \<Rightarrow> (string \<Rightarrow> string option) \<Rightarrow> 'c \<Rightarrow> bool" where
  "cache_coherent L db docs c \<longleftrightarrow> (\<forall>docID f. cached L c docID = Some f \<longrightarrow> doc_in db docs docID f)"

lemma fetch_doc_in:
  assumes "serves db h docs" and "fetch db h docID k = (Inr f, k')"
  shows "doc_in db docs docID f"
proof -
  from assms(2) obtain row k1 where row: "db_Get db h docID k = (Inr row, k1)" and f: "db_ScanDoc db row = Inr f"
    by (auto simp: fetch_def bindS_Inr_iff wrapS_Inr_iff)
  from assms(1) row have "docs docID = Some row" unfolding serves_def by blast
  with f show ?thesis by (simp add: doc_in_def)
qed

lemma GetFunction_coherent:
  assumes "lru_laws L" and "serves db (functionDB s) docs" and "cache_coherent L db docs (functionCache s)"
    and "GetFunction_doc L db path name (s, k) = (r, (s', k'))"
  shows "cache_coherent L db docs (functionCache s') \<and> functionDB s' = functionDB s \<and>
     (\<forall>f. r = Inr f \<longrightarrow> doc_in db docs (fullDocID path name) f)"
proof (cases "cached L (functionCache s) (fullDocID path name)")
  case (Some g)
  with assms(3) have "doc_in db docs (fullDocID path name) g" by (simp add: cache_coherent_def)
  with assms GetFunction_cached [OF assms(1) Some, of db k] show ?thesis
    by (auto simp: cache_coherent_def lru_get)
next
  case None
  note run = assms(4) [unfolded GetFunction_fetched [OF assms(1) None]]
  show ?thesis
  proof (cases "fetch db (functionDB s) (fullDocID path name) k")
    case (Pair q k1)
    show ?thesis
    proof (cases q)
      case (Inl e)
      with run Pair assms(3) show ?thesis by auto
    next
      case (Inr f)
      from fetch_doc_in [OF assms(2)] Pair Inr have f: "doc_in db docs (fullDocID path name) f" by simp
      have "cache_coherent L db docs (lru_Add L (fullDocID path name) f (functionCache s))"
        unfolding cache_coherent_def
      proof (intro allI impI)
        fix i g
        assume g: "cached L (lru_Add L (fullDocID path name) f (functionCache s)) i = Some g"
        show "doc_in db docs i g"
        proof (cases "i = fullDocID path name")
          case True
          with g f show ?thesis by (simp add: lru_add [OF assms(1)])
        next
          case False
          from lru_add_other [OF assms(1) False, of f "functionCache s"] g assms(3) show ?thesis
            by (auto simp: cache_coherent_def)
        qed
      qed
      with run Pair Inr f show ?thesis by auto
    qed
  qed
qed


section \<open>A cache\<close>

text \<open>A cache of a given size as the list of its entries, the one used last first.\<close>

type_synonym lru_state = "nat \<times> (string \<times> function_doc) list"

definition without :: "string \<Rightarrow> (string \<times> function_doc) list \<Rightarrow> (string \<times> function_doc) list" where
  "without i xs = filter (\<lambda>e. fst e \<noteq> i) xs"

definition list_lru :: "lru_state lru" where
  "list_lru =
     \<lparr>lru_New = (\<lambda>n. if n = 0 then Inl (Errorf ''Must provide a positive size'') else Inr (n, [])),
      lru_Contains = (\<lambda>(n, xs) i. map_of xs i \<noteq> None),
      lru_Get = (\<lambda>i (n, xs). case map_of xs i of None \<Rightarrow> (None, (n, xs)) | Some f \<Rightarrow> (Some f, (n, (i, f) # without i xs))),
      lru_Add = (\<lambda>i f (n, xs). (n, take (max 1 n) ((i, f) # without i xs)))\<rparr>"

lemma map_of_without: "map_of (without i xs) j = (if j = i then None else map_of xs j)"
  by (induction xs) (auto simp: without_def)

lemma map_of_take: "map_of (take n xs) j \<in> {None, map_of xs j}"
proof (induction xs arbitrary: n)
  case Nil
  then show ?case by simp
next
  case (Cons x xs)
  then show ?case by (cases n) auto
qed

lemma list_lru_cached [simp]: "cached list_lru (n, xs) i = map_of xs i"
  by (simp add: cached_def list_lru_def split: option.splits)

lemma list_lru_laws: "lru_laws list_lru"
  unfolding lru_laws_def
proof (intro conjI allI impI)
  fix c :: lru_state and i f j n
  obtain m xs where c: "c = (m, xs)" by (cases c)
  show "lru_Contains list_lru c i \<longleftrightarrow> cached list_lru c i \<noteq> None" by (simp add: c) (simp add: list_lru_def)
  show "cached list_lru (snd (lru_Get list_lru i c)) j = cached list_lru c j"
    by (cases "map_of xs i") (simp_all add: c list_lru_def cached_def map_of_without split: option.splits)
  have add: "lru_Add list_lru i f c = (m, (i, f) # take (max 1 m - 1) (without i xs))"
    by (cases "max 1 m") (simp_all add: list_lru_def c)
  show "cached list_lru (lru_Add list_lru i f c) i = Some f" by (simp add: add)
  show "cached list_lru (lru_Add list_lru i f c) j \<in> {None, cached list_lru c j}" if "j \<noteq> i"
    using that map_of_take [of "max 1 m - 1" "without i xs" j] unfolding add by (simp add: c map_of_without)
  show "cached list_lru c i = None" if "lru_New list_lru n = Inr c"
    using that by (auto simp: list_lru_def cached_def split: if_splits)
qed

text \<open>A database with one document, which counts the reads.\<close>

definition ex_database :: "nat database" where
  "ex_database =
     \<lparr>db_New = (\<lambda>_ _. retS 0), db_DB = (\<lambda>_ _. retS 1),
      db_Get = (\<lambda>_ docID k. if docID = ''guest/hello'' then (Inr ''doc'', Suc k) else (Inl (Returned (Ext ''not_found'')), Suc k)),
      db_ScanDoc = (\<lambda>row. Inr ex_doc), db_Put = (\<lambda>_ _ _. retS ()), db_marshal = (\<lambda>_. Inr []), db_now = (\<lambda>_. 0)\<rparr>"

definition ex_storage :: "lru_state function_storage" where
  "ex_storage = \<lparr>functionDB = 1, functionCache = (64, []), activationDB = 1\<rparr>"

lemma ex_GetFunction:
  "GetFunction_doc list_lru ex_database ''guest'' ''hello'' (ex_storage, k) =
     (Inr ex_doc, (ex_storage\<lparr>functionCache := (64, [(''guest/hello'', ex_doc)])\<rparr>, Suc k))"
proof -
  have "cached list_lru (functionCache ex_storage) (fullDocID ''guest'' ''hello'') = None" by (simp add: ex_storage_def)
  from GetFunction_fetched [OF list_lru_laws this, of ex_database k] show ?thesis
    by (simp add: fetch_def wrapS_def bindS_def ex_database_def fullDocID_def ex_storage_def list_lru_def without_def)
qed

theorem GetFunction_cached_afterwards_witness:
  "\<exists>s2. GetFunction_doc list_lru ex_database ''guest'' ''hello'' (ex_storage\<lparr>functionCache := (64, [(''guest/hello'', ex_doc)])\<rparr>, 7) = (Inr ex_doc, (s2, 7))"
  by (rule GetFunction_cached_afterwards [OF list_lru_laws ex_GetFunction])

section \<open>Concurrent lookups\<close>

text \<open>
  The goroutines of the invoker share the storage. A call of \<open>GetFunction\<close> for an id before \<open>Contains\<close>,
  after it (with either answer), between the fetch and \<open>Add\<close>, and at its end; each access to the cache
  is atomic, as the cache has a lock of its own. \<open>docs\<close> is the database.
\<close>

datatype lookup =
    Looking string
  | Hitting string
  | Missing string
  | Adding string function_doc
  | Got string "function_doc res"

record 'c lookups =
  lk_cache :: 'c
  lk_jobs :: "lookup list"

definition set_lookup :: "nat \<Rightarrow> lookup \<Rightarrow> 'c lookups \<Rightarrow> 'c lookups" where
  "set_lookup k j w = w\<lparr>lk_jobs := (lk_jobs w)[k := j]\<rparr>"

inductive lookup_step :: "'c lru \<Rightarrow> (string \<Rightarrow> function_doc option) \<Rightarrow> 'c lookups \<Rightarrow> 'c lookups \<Rightarrow> bool"
  for L docs where
  look: "lookup_step L docs w (w\<lparr>lk_jobs := lk_jobs w @ [Looking i]\<rparr>)"
| contains_it: "\<lbrakk> k < length (lk_jobs w); lk_jobs w ! k = Looking i; lru_Contains L (lk_cache w) i \<rbrakk> \<Longrightarrow>
     lookup_step L docs w (set_lookup k (Hitting i) w)"
| lacks_it: "\<lbrakk> k < length (lk_jobs w); lk_jobs w ! k = Looking i; \<not> lru_Contains L (lk_cache w) i \<rbrakk> \<Longrightarrow>
     lookup_step L docs w (set_lookup k (Missing i) w)"
| fetch_it: "\<lbrakk> k < length (lk_jobs w); lk_jobs w ! k = Missing i; docs i = Some f \<rbrakk> \<Longrightarrow>
     lookup_step L docs w (set_lookup k (Adding i f) w)"
| fetch_fails: "\<lbrakk> k < length (lk_jobs w); lk_jobs w ! k = Missing i \<rbrakk> \<Longrightarrow>
     lookup_step L docs w (set_lookup k (Got i (Inl (Returned e))) w)"
| add_it: "\<lbrakk> k < length (lk_jobs w); lk_jobs w ! k = Adding i f \<rbrakk> \<Longrightarrow>
     lookup_step L docs w (set_lookup k (Got i (Inr f)) (w\<lparr>lk_cache := lru_Add L i f (lk_cache w)\<rparr>))"
| hit_it: "\<lbrakk> k < length (lk_jobs w); lk_jobs w ! k = Hitting i; cache_hit L i (lk_cache w) = (r, c) \<rbrakk> \<Longrightarrow>
     lookup_step L docs w (set_lookup k (Got i r) (w\<lparr>lk_cache := c\<rparr>))"

fun lookup_ok :: "(string \<Rightarrow> function_doc option) \<Rightarrow> lookup \<Rightarrow> bool" where
  "lookup_ok docs (Adding i f) \<longleftrightarrow> docs i = Some f"
| "lookup_ok docs (Got i (Inr f)) \<longleftrightarrow> docs i = Some f"
| "lookup_ok docs _ \<longleftrightarrow> True"

definition lookup_start :: "'c lru \<Rightarrow> 'c lookups \<Rightarrow> bool" where
  "lookup_start L w \<longleftrightarrow> lru_New L defaultCacheSize = Inr (lk_cache w) \<and> lk_jobs w = []"

definition lookup_inv :: "'c lru \<Rightarrow> (string \<Rightarrow> function_doc option) \<Rightarrow> 'c lookups \<Rightarrow> bool" where
  "lookup_inv L docs w \<longleftrightarrow> lru_laws L \<longrightarrow>
     (\<forall>i f. cached L (lk_cache w) i = Some f \<longrightarrow> docs i = Some f) \<and> (\<forall>j \<in> set (lk_jobs w). lookup_ok docs j)"

lemma lookups_ok_update:
  "\<lbrakk> \<forall>j \<in> set js. lookup_ok docs j; lookup_ok docs j \<rbrakk> \<Longrightarrow> \<forall>j \<in> set (js[k := j]). lookup_ok docs j"
  by (auto dest!: set_update_subset_insert [THEN subsetD])

lemma lookup_inv_step:
  assumes "lookup_step L docs w w'" and inv: "lookup_inv L docs w"
  shows "lookup_inv L docs w'"
  unfolding lookup_inv_def
proof (intro impI)
  assume laws: "lru_laws L"
  with inv have c: "cached L (lk_cache w) i = Some f \<Longrightarrow> docs i = Some f" for i f by (simp add: lookup_inv_def)
  from inv laws have jobs: "\<forall>j \<in> set (lk_jobs w). lookup_ok docs j" by (simp add: lookup_inv_def)
  note upd = lookups_ok_update [OF jobs]
  show "(\<forall>i f. cached L (lk_cache w') i = Some f \<longrightarrow> docs i = Some f) \<and> (\<forall>j \<in> set (lk_jobs w'). lookup_ok docs j)"
    using assms(1)
  proof cases
    case (add_it k i f)
    then have f: "docs i = Some f" using jobs nth_mem [of k "lk_jobs w"] by fastforce
    have "docs j = Some g" if "cached L (lru_Add L i f (lk_cache w)) j = Some g" for j g
    proof (cases "j = i")
      case True
      with that f show ?thesis by (simp add: lru_add [OF laws])
    next
      case False
      from lru_add_other [OF laws False, of f "lk_cache w"] that c [of j g] show ?thesis by auto
    qed
    with add_it f upd [of "Got i (Inr f)" k] show ?thesis by (simp add: set_lookup_def)
  next
    case (hit_it k i r c')
    then have c': "c' = snd (lru_Get L i (lk_cache w))" and r: "\<And>f. r = Inr f \<Longrightarrow> cached L (lk_cache w) i = Some f"
      by (auto simp: cache_hit_def cached_def split: prod.splits option.splits)
    have "lookup_ok docs (Got i r)" using r c by (cases r) auto
    with hit_it c' c upd [of "Got i r" k] show ?thesis by (simp add: set_lookup_def lru_get [OF laws])
  qed (use c jobs in \<open>auto simp: set_lookup_def dest!: set_update_subset_insert [THEN subsetD]\<close>)
qed

interpretation lookups: guarded_system "lookup_start L" "lookup_step L docs" "lookup_inv L docs" for L docs
proof
  show "lookup_inv L docs w" if "lookup_start L w" for w
    using that by (auto simp: lookup_start_def lookup_inv_def lru_new)
  show "lookup_inv L docs w'" if "lookup_inv L docs w" "lookup_step L docs w w'" for w w'
    using lookup_inv_step that by blast
qed

text \<open>
  However the goroutines that look functions up interleave, a call that returns a function returns the
  document of the database for its id.
\<close>

theorem concurrent_lookups_correct:
  assumes "lru_laws L" and "reach (lookup_start L) (lookup_step L docs) w" and "Got docID (Inr f) \<in> set (lk_jobs w)"
  shows "docs docID = Some f"
  using lookups.reach_inv [OF assms(2)] assms(1,3) by (fastforce simp: lookup_inv_def)

text \<open>One whole call that misses the cache.\<close>

lemma whole_miss:
  assumes r: "reach (lookup_start L) (lookup_step L docs) \<lparr>lk_cache = c, lk_jobs = js\<rparr>"
    and "\<not> lru_Contains L c i" and "docs i = Some f"
  shows "reach (lookup_start L) (lookup_step L docs) \<lparr>lk_cache = lru_Add L i f c, lk_jobs = js @ [Got i (Inr f)]\<rparr>"
proof -
  let ?R = "reach (lookup_start L) (lookup_step L docs)"
  have "?R \<lparr>lk_cache = c, lk_jobs = js @ [Looking i]\<rparr>" using reach_step [OF r, OF look [where i = i]] by simp
  from reach_step [OF this, OF lacks_it [where k = "length js" and i = i]] assms(2)
  have "?R \<lparr>lk_cache = c, lk_jobs = js @ [Missing i]\<rparr>" by (simp add: set_lookup_def)
  from reach_step [OF this, OF fetch_it [where k = "length js" and i = i and f = f]] assms(3)
  have "?R \<lparr>lk_cache = c, lk_jobs = js @ [Adding i f]\<rparr>" by (simp add: set_lookup_def)
  from reach_step [OF this, OF add_it [where k = "length js" and i = i and f = f]]
  show ?thesis by (simp add: set_lookup_def)
qed

theorem concurrent_lookups_correct_witness: "[''f'' \<mapsto> ex_doc] ''f'' = Some ex_doc"
proof -
  have "reach (lookup_start list_lru) (lookup_step list_lru [''f'' \<mapsto> ex_doc]) \<lparr>lk_cache = (64, []), lk_jobs = []\<rparr>"
    by (rule reach_init) (simp add: lookup_start_def list_lru_def defaultCacheSize_def)
  from whole_miss [OF this, of "''f''" ex_doc] have
    "reach (lookup_start list_lru) (lookup_step list_lru [''f'' \<mapsto> ex_doc])
       \<lparr>lk_cache = lru_Add list_lru ''f'' ex_doc (64, []), lk_jobs = [Got ''f'' (Inr ex_doc)]\<rparr>"
    by (simp add: lru_contains [OF list_lru_laws])
  from concurrent_lookups_correct [OF list_lru_laws this, of "''f''" ex_doc] show ?thesis by simp
qed

definition key :: "nat \<Rightarrow> string" where "key n = replicate n CHR ''k''"

definition keys_below :: "function_doc \<Rightarrow> nat \<Rightarrow> (string \<times> function_doc) list" where
  "keys_below f n = map (\<lambda>i. (key i, f)) (rev [0..<n])"

lemma key_eq [simp]: "key m = key n \<longleftrightarrow> m = n"
  by (metis key_def length_replicate)

lemma keys_below_simps [simp]:
  "keys_below f 0 = []" "keys_below f (Suc n) = (key n, f) # keys_below f n" "length (keys_below f n) = n"
  by (simp_all add: keys_below_def)

lemma map_of_keys_below: "map_of (keys_below f n) (key m) = (if m < n then Some f else None)"
  by (induction n) auto

lemma without_keys_below: "n \<le> m \<Longrightarrow> without (key m) (keys_below f n) = keys_below f n"
  by (induction n) (auto simp: without_def)

lemma add_key: "n \<le> m \<Longrightarrow> 0 < s \<Longrightarrow> lru_Add list_lru (key m) f (s, keys_below f n) = (s, take s ((key m, f) # keys_below f n))"
  using without_keys_below [of n m f] by (simp add: list_lru_def max_def)

lemma fill_cache:
  "n \<le> 64 \<Longrightarrow> \<exists>js. reach (lookup_start list_lru) (lookup_step list_lru (\<lambda>_. Some f)) \<lparr>lk_cache = (64, keys_below f n), lk_jobs = js\<rparr>"
proof (induction n)
  case 0
  have "reach (lookup_start list_lru) (lookup_step list_lru (\<lambda>_. Some f)) \<lparr>lk_cache = (64, keys_below f 0), lk_jobs = []\<rparr>"
    by (rule reach_init) (simp add: lookup_start_def list_lru_def defaultCacheSize_def)
  then show ?case by blast
next
  case (Suc n)
  then obtain js where
    r: "reach (lookup_start list_lru) (lookup_step list_lru (\<lambda>_. Some f)) \<lparr>lk_cache = (64, keys_below f n), lk_jobs = js\<rparr>"
    by auto
  have "\<not> lru_Contains list_lru (64, keys_below f n) (key n)"
    by (simp add: lru_contains [OF list_lru_laws] map_of_keys_below)
  from whole_miss [OF r this] Suc.prems show ?case by (auto simp: add_key simp del: lru_add)
qed

lemma oldest_key_goes: "map_of (take n (keys_below f (Suc n))) (key 0) = None"
proof -
  have "[0..<Suc n] = 0 # [1..<Suc n]" by (simp add: upt_conv_Cons del: upt_Suc)
  then have "keys_below f (Suc n) = map (\<lambda>i. (key i, f)) (rev [1..<Suc n]) @ [(key 0, f)]"
    by (simp add: keys_below_def del: upt_Suc)
  then have "take n (keys_below f (Suc n)) = map (\<lambda>i. (key i, f)) (rev [1..<Suc n])" by (simp del: upt_Suc keys_below_simps)
  then show ?thesis by (auto simp: map_of_eq_None_iff simp del: upt_Suc)
qed

text \<open>
  Two goroutines can make \<open>GetFunction\<close> panic: with the cache of the default size full, a call that
  has found its function in the cache loses it to a call that adds another one, and the type assertion on
  the cache's answer fails.
\<close>

theorem eviction_makes_GetFunction_panic:
  "\<exists>w docID. reach (lookup_start list_lru) (lookup_step list_lru (\<lambda>_. Some f)) w \<and>
     Got docID (Inl (Panicked ''interface conversion: interface is nil'')) \<in> set (lk_jobs w)"
proof -
  let ?R = "reach (lookup_start list_lru) (lookup_step list_lru (\<lambda>_. Some f))"
  let ?p = "Inl (Panicked ''interface conversion: interface is nil'')"
  obtain js where r: "?R \<lparr>lk_cache = (64, keys_below f 64), lk_jobs = js\<rparr>" using fill_cache by blast
  have has: "lru_Contains list_lru (64, keys_below f 64) (key 0)"
    by (simp add: lru_contains [OF list_lru_laws] map_of_keys_below del: keys_below_simps)
  have "?R \<lparr>lk_cache = (64, keys_below f 64), lk_jobs = js @ [Looking (key 0)]\<rparr>"
    using reach_step [OF r, OF look [where i = "key 0"]] by simp
  from reach_step [OF this, OF contains_it [where k = "length js" and i = "key 0"]] has
  have r1: "?R \<lparr>lk_cache = (64, keys_below f 64), lk_jobs = js @ [Hitting (key 0)]\<rparr>" by (simp add: set_lookup_def)
  have lacks: "\<not> lru_Contains list_lru (64, keys_below f 64) (key 64)"
    by (simp add: lru_contains [OF list_lru_laws] map_of_keys_below del: keys_below_simps)
  let ?c = "(64, take 64 ((key 64, f) # keys_below f 64))"
  from whole_miss [OF r1 lacks] have r2: "?R \<lparr>lk_cache = ?c, lk_jobs = js @ [Hitting (key 0), Got (key 64) (Inr f)]\<rparr>"
    using add_key [of 64 64 64 f] by simp
  have gone: "map_of (take 64 ((key 64, f) # keys_below f 64)) (key 0) = None"
    using oldest_key_goes [of 63 f] by simp
  then have "cache_hit list_lru (key 0) ?c = (?p, ?c)" by (simp add: cache_hit_def list_lru_def)
  with reach_step [OF r2, OF hit_it [where k = "length js" and i = "key 0" and r = ?p and c = ?c]]
  have w: "?R \<lparr>lk_cache = ?c, lk_jobs = js @ [Got (key 0) ?p, Got (key 64) (Inr f)]\<rparr>"
    by (simp add: set_lookup_def)
  show ?thesis by (rule exI, rule exI [of _ "key 0"], rule conjI [OF w]) simp
qed

end
