(* ===== verification/Snapshots.thy ===== *)
theory Snapshots
  imports Go_Text Go_Env
begin

text \<open>
  \<open>worker/snapshot.go\<close>: the layers of a runtime and of its function are snapshots of containerd, each
  unpacked onto its parent. The snapshotter, the unpacking of archives and the file system are the
  parameter \<open>'k snap_ops\<close>; \<open>snap_laws\<close> is what containerd documents of its snapshotters.
\<close>

section \<open>The snapshotter\<close>

record mount =
  mount_type :: string
  mount_source :: string
  mount_options :: "string list"

record 'k snap_ops =
  sn_Stat :: "string \<Rightarrow> ('k, unit) io"
  sn_Prepare :: "string \<Rightarrow> string \<Rightarrow> ('k, mount list) io"
  sn_View :: "string \<Rightarrow> string \<Rightarrow> ('k, mount list) io"
  sn_Commit :: "string \<Rightarrow> string \<Rightarrow> ('k, unit) io"
  sn_mount_All :: "mount list \<Rightarrow> string \<Rightarrow> ('k, unit) io"
  sn_UnmountAll :: "string \<Rightarrow> ('k, unit) io"
  sn_TempDir :: "('k, string) io"
  sn_RemoveAll :: "string \<Rightarrow> ('k, unit) io"
  sn_Open :: "string \<Rightarrow> ('k, nat) io"
  sn_Apply :: "string \<Rightarrow> nat \<Rightarrow> ('k, unit) io"
  sn_drain :: "nat \<Rightarrow> ('k, unit) io"
  sn_ReadFile :: "string \<Rightarrow> ('k, string) io"
  sn_Getwd :: "('k, string) io"
  sn_manifest :: "string \<Rightarrow> error + string list list"

section \<open>The manager\<close>

record snapshot_manager =
  sm_runtime :: string
  sm_layersPath :: string

text \<open>
  The temporary directory is removed, and once it has been mounted it is unmounted, whatever happens
  after; the active snapshot is left as it is.
\<close>

definition createLayer :: "'k snap_ops \<Rightarrow> string \<Rightarrow> string \<Rightarrow> string \<Rightarrow> ('k, unit) io" where
  "createLayer ops layerName layerPath parentName =
     bindS (tryS (sn_Stat ops layerName)) (\<lambda>st.
     case st of
       Inr _ \<Rightarrow> retS ()
     | Inl _ \<Rightarrow>
         bindS (sn_TempDir ops) (\<lambda>tmpDir.
         finallyS
           (bindS (sn_Prepare ops (layerName @ ''-active'') parentName) (\<lambda>mounts.
            bindS (wrapS ''all mount error'' (sn_mount_All ops mounts tmpDir)) (\<lambda>_.
            finallyS
              (bindS (sn_Open ops layerPath) (\<lambda>layerTar.
               bindS (wrapS ''could not apply error'' (sn_Apply ops tmpDir layerTar)) (\<lambda>_.
               bindS (wrapS ''could not read trailing data'' (sn_drain ops layerTar)) (\<lambda>_.
               wrapS ''commit error'' (sn_Commit ops layerName (layerName @ ''-active''))))))
              (sn_UnmountAll ops tmpDir))))
           (sn_RemoveAll ops tmpDir)))"

definition CreateLayerFromBase :: "'k snap_ops \<Rightarrow> snapshot_manager \<Rightarrow> string \<Rightarrow> ('k, unit) io" where
  "CreateLayerFromBase ops m layerName =
     createLayer ops layerName (sm_layersPath m @ ''/'' @ layerName @ ''/layer.tar'') (sm_runtime m)"

definition CreateRoView :: "'k snap_ops \<Rightarrow> string \<Rightarrow> string \<Rightarrow> ('k, mount list) io" where
  "CreateRoView ops layerName containerName = sn_View ops containerName layerName"

definition GetRwMounts :: "'k snap_ops \<Rightarrow> string \<Rightarrow> string \<Rightarrow> ('k, mount list) io" where
  "GetRwMounts ops layerName containerName = sn_Prepare ops containerName layerName"

text \<open>The loop over the layers of the manifest: the last one gets the name of the runtime.\<close>

fun layers_loop :: "'k snap_ops \<Rightarrow> string \<Rightarrow> string \<Rightarrow> string \<Rightarrow> string list \<Rightarrow> ('k, unit) io" where
  "layers_loop ops workDir rt prevLayer [] = retS ()"
| "layers_loop ops workDir rt prevLayer (currentLayer # ls) =
     bindS (wrapS ''could not create runtime layer''
       (createLayer ops (if ls = [] then rt else currentLayer)
          (workDir @ ''/runtimes/'' @ rt @ ''/'' @ currentLayer) prevLayer)) (\<lambda>_.
     layers_loop ops workDir rt currentLayer ls)"

definition ensureRuntimeBase :: "'k snap_ops \<Rightarrow> snapshot_manager \<Rightarrow> string \<Rightarrow> ('k, unit) io" where
  "ensureRuntimeBase ops m workDir =
     bindS (wrapS ''could not open runtime dir''
       (sn_ReadFile ops (workDir @ ''/runtimes/'' @ sm_runtime m @ ''/manifest.json''))) (\<lambda>bytes.
     bindS (wrapS ''could not parse layers from manifest'' (liftS (of_sum (sn_manifest ops bytes)))) (\<lambda>runmen.
     case runmen of
       [] \<Rightarrow> errS ''no images in runtime manifest''
     | layers # _ \<Rightarrow>
         if layers = [] then errS ''no layers in runtime manifest''
         else layers_loop ops workDir (sm_runtime m) [] layers))"

text \<open>The name of the snapshotter and the label that keeps the garbage collector away are left out.\<close>

definition NewSnapshotManager :: "'k snap_ops \<Rightarrow> string \<Rightarrow> ('k, snapshot_manager) io" where
  "NewSnapshotManager ops rt =
     bindS (sn_Getwd ops) (\<lambda>workDir.
     let cacheDir = (if contains workDir ''refunction/worker'' then workDir else ''/var/cache/refunction'');
         manager = \<lparr>sm_runtime = rt, sm_layersPath = cacheDir @ ''/activelayers''\<rparr>
     in bindS (wrapS ''could not create runtime base'' (ensureRuntimeBase ops manager cacheDir)) (\<lambda>_.
        retS manager))"

section \<open>What a snapshotter promises\<close>

text \<open>
  \<open>com k\<close> and \<open>act k\<close> are the names of the committed and of the active snapshots. \<open>Stat\<close> knows both
  kinds; \<open>Prepare\<close> refuses a name that is in use and makes an active snapshot; \<open>Commit\<close> turns an active
  snapshot into a committed one of another name; the other operations leave the snapshots alone,
  and the clean-up returns.
\<close>

definition keeps :: "('k \<Rightarrow> string set) \<Rightarrow> ('k \<Rightarrow> string set) \<Rightarrow> ('k, 'a) io \<Rightarrow> bool" where
  "keeps com act m \<longleftrightarrow> (\<forall>k. com (snd (m k)) = com k \<and> act (snd (m k)) = act k)"

definition returns :: "('k, 'a) io \<Rightarrow> bool" where
  "returns m \<longleftrightarrow> (\<forall>k f. fst (m k) = Inl f \<longrightarrow> (\<exists>e. f = Returned e))"

definition snap_laws :: "'k snap_ops \<Rightarrow> ('k \<Rightarrow> string set) \<Rightarrow> ('k \<Rightarrow> string set) \<Rightarrow> bool" where
  "snap_laws ops com act \<longleftrightarrow>
     (\<forall>n k. returns_error (fst (sn_Stat ops n k)) \<or> sn_Stat ops n k = (Inr (), snd (sn_Stat ops n k))) \<and>
     (\<forall>n k. fst (sn_Stat ops n k) = Inr () \<longleftrightarrow> n \<in> com k \<union> act k) \<and>
     (\<forall>n. keeps com act (sn_Stat ops n)) \<and>
     (\<forall>n p k. n \<in> com k \<union> act k \<longrightarrow> returns_error (fst (sn_Prepare ops n p k))) \<and>
     (\<forall>n p k e k'. sn_Prepare ops n p k = (Inl e, k') \<longrightarrow> com k' = com k \<and> act k' = act k) \<and>
     (\<forall>n p k ms k'. sn_Prepare ops n p k = (Inr ms, k') \<longrightarrow> com k' = com k \<and> act k' = insert n (act k)) \<and>
     (\<forall>n a k e k'. sn_Commit ops n a k = (Inl e, k') \<longrightarrow> com k' = com k \<and> act k' = act k) \<and>
     (\<forall>n a k k'. sn_Commit ops n a k = (Inr (), k') \<longrightarrow> com k' = insert n (com k) \<and> act k' = act k - {a}) \<and>
     (\<forall>ms d. keeps com act (sn_mount_All ops ms d)) \<and> (\<forall>d. keeps com act (sn_UnmountAll ops d)) \<and>
     keeps com act (sn_TempDir ops) \<and> (\<forall>d. keeps com act (sn_RemoveAll ops d)) \<and>
     (\<forall>p. keeps com act (sn_Open ops p)) \<and> (\<forall>d f. keeps com act (sn_Apply ops d f)) \<and>
     (\<forall>f. keeps com act (sn_drain ops f)) \<and> (\<forall>p. keeps com act (sn_ReadFile ops p)) \<and> keeps com act (sn_Getwd ops) \<and>
     (\<forall>d. returns (sn_UnmountAll ops d)) \<and> (\<forall>d. returns (sn_RemoveAll ops d))"

lemma keeps_pair: "keeps com act m \<Longrightarrow> m k = (r, k') \<Longrightarrow> com k' = com k \<and> act k' = act k"
  by (metis keeps_def snd_conv)

lemma keeps_intro: "(\<And>k r k'. m k = (r, k') \<Longrightarrow> com k' = com k \<and> act k' = act k) \<Longrightarrow> keeps com act m"
  by (metis keeps_def prod.collapse)

text \<open>
  \<open>commits n a m\<close>: \<open>m\<close> turns the active snapshot \<open>a\<close> into the committed \<open>n\<close>, or fails and leaves the
  snapshots as they are.
\<close>

definition commits :: "('k \<Rightarrow> string set) \<Rightarrow> ('k \<Rightarrow> string set) \<Rightarrow> string \<Rightarrow> string \<Rightarrow> ('k, unit) io \<Rightarrow> bool" where
  "commits com act n a m \<longleftrightarrow> (\<forall>k r k'. m k = (r, k') \<longrightarrow>
     (case r of Inr _ \<Rightarrow> com k' = insert n (com k) \<and> act k' = act k - {a}
      | Inl _ \<Rightarrow> com k' = com k \<and> act k' = act k))"

lemma commits_bindS:
  assumes "keeps com act m" and "\<And>x. commits com act n a (f x)"
  shows "commits com act n a (bindS m f)"
  unfolding commits_def
proof (intro allI impI)
  fix k r k'
  assume run: "bindS m f k = (r, k')"
  obtain q k1 where m: "m k = (q, k1)" by (cases "m k")
  note k1 = keeps_pair [OF assms(1) m]
  show "case r of Inr _ \<Rightarrow> com k' = insert n (com k) \<and> act k' = act k - {a} | Inl _ \<Rightarrow> com k' = com k \<and> act k' = act k"
  proof (cases q)
    case (Inl e)
    with run m k1 show ?thesis by (auto simp: bindS_def)
  next
    case (Inr x)
    with run m have "f x k1 = (r, k')" by (simp add: bindS_def)
    with assms(2) [of x] k1 show ?thesis unfolding commits_def by metis
  qed
qed

lemma wrapS_pair: "wrapS msg m k = (r, k') \<Longrightarrow> \<exists>q. m k = (q, k') \<and> ((\<exists>x. r = Inr x) \<longleftrightarrow> (\<exists>x. q = Inr x))"
  by (cases "m k") (auto simp: wrapS_def dest: sym)

lemma commits_wrapS:
  assumes "commits com act n a m"
  shows "commits com act n a (wrapS msg m)"
  unfolding commits_def
proof (intro allI impI)
  fix k r k'
  assume "wrapS msg m k = (r, k')"
  from wrapS_pair [OF this] obtain q where q: "m k = (q, k')" "(\<exists>x. r = Inr x) \<longleftrightarrow> (\<exists>x. q = Inr x)"
    by (elim exE conjE)
  from assms q(1) have "case q of Inr _ \<Rightarrow> com k' = insert n (com k) \<and> act k' = act k - {a} | Inl _ \<Rightarrow> com k' = com k \<and> act k' = act k"
    unfolding commits_def by blast
  with q(2) show "case r of Inr _ \<Rightarrow> com k' = insert n (com k) \<and> act k' = act k - {a} | Inl _ \<Rightarrow> com k' = com k \<and> act k' = act k"
    by (cases r; cases q) simp_all
qed

lemma keeps_wrapS: "keeps com act m \<Longrightarrow> keeps com act (wrapS msg m)"
  by (rule keeps_intro) (use wrapS_pair keeps_pair in metis)

lemma keeps_finallyS:
  assumes "keeps com act c" and "returns c" and "finallyS m c k = (r, k')" and "m k = (q, k1)"
  shows "com k' = com k1 \<and> act k' = act k1 \<and> r = q"
proof -
  obtain u k2 where c: "c k1 = (u, k2)" by (cases "c k1")
  note k2 = keeps_pair [OF assms(1) c]
  have u: "(\<exists>x. u = Inr x) \<or> (\<exists>e. u = Inl (Returned e))"
    using assms(2) c unfolding returns_def by (cases u) (metis fst_conv, blast)
  have "r = q \<and> (k' = k1 \<or> k' = k2)"
  proof (cases "q = Inl Blocked")
    case True
    with assms(3,4) show ?thesis by (simp add: finallyS_def)
  next
    case False
    then have "finallyS m c k = (case u of Inr _ \<Rightarrow> (q, k2) | Inl (Returned e) \<Rightarrow> (q, k2) | Inl f \<Rightarrow> (Inl f, k2))"
    proof (cases q)
      case (Inl f)
      with False show ?thesis by (cases f; cases u) (simp_all add: Inl finallyS_def assms(4) c split: fault.splits)
    next
      case (Inr y)
      then show ?thesis by (cases u) (simp_all add: finallyS_def assms(4) c split: fault.splits)
    qed
    with assms(3) u show ?thesis by auto
  qed
  with k2 show ?thesis by auto
qed

lemma snap_keeps:
  assumes "snap_laws ops com act"
  shows "keeps com act (sn_Stat ops n)" "keeps com act (sn_mount_All ops ms d)" "keeps com act (sn_UnmountAll ops d)"
    "keeps com act (sn_TempDir ops)" "keeps com act (sn_RemoveAll ops d)" "keeps com act (sn_Open ops p)"
    "keeps com act (sn_Apply ops d f)" "keeps com act (sn_drain ops f)" "keeps com act (sn_ReadFile ops p)"
    "keeps com act (sn_Getwd ops)" "returns (sn_UnmountAll ops d)" "returns (sn_RemoveAll ops d)"
  using assms by (simp_all add: snap_laws_def)

lemma snap_changes:
  assumes "snap_laws ops com act"
  shows "returns_error (fst (sn_Stat ops n k)) \<or> sn_Stat ops n k = (Inr (), snd (sn_Stat ops n k))"
    and "fst (sn_Stat ops n k) = Inr () \<longleftrightarrow> n \<in> com k \<union> act k"
    and "n \<in> com k \<union> act k \<Longrightarrow> returns_error (fst (sn_Prepare ops n p k))"
    and "sn_Prepare ops n p k = (Inl e, k') \<Longrightarrow> com k' = com k \<and> act k' = act k"
    and "sn_Prepare ops n p k = (Inr ms, k') \<Longrightarrow> com k' = com k \<and> act k' = insert n (act k)"
    and "sn_Commit ops n a k = (Inl e, k') \<Longrightarrow> com k' = com k \<and> act k' = act k"
    and "sn_Commit ops n a k = (Inr (), k') \<Longrightarrow> com k' = insert n (com k) \<and> act k' = act k - {a}"
  using assms unfolding snap_laws_def by (simp_all del: Un_iff)

lemma commits_Commit:
  assumes "snap_laws ops com act"
  shows "commits com act n a (sn_Commit ops n a)"
  unfolding commits_def
proof (intro allI impI)
  fix k r k'
  assume "sn_Commit ops n a k = (r, k')"
  then show "case r of Inr _ \<Rightarrow> com k' = insert n (com k) \<and> act k' = act k - {a} | Inl _ \<Rightarrow> com k' = com k \<and> act k' = act k"
    using snap_changes(6,7) [OF assms, of n a k] by (cases r) simp_all
qed

definition unpack :: "'k snap_ops \<Rightarrow> string \<Rightarrow> string \<Rightarrow> string \<Rightarrow> ('k, unit) io" where
  "unpack ops layerName layerPath tmpDir =
     bindS (sn_Open ops layerPath) (\<lambda>layerTar.
     bindS (wrapS ''could not apply error'' (sn_Apply ops tmpDir layerTar)) (\<lambda>_.
     bindS (wrapS ''could not read trailing data'' (sn_drain ops layerTar)) (\<lambda>_.
     wrapS ''commit error'' (sn_Commit ops layerName (layerName @ ''-active'')))))"

lemma unpack_commits: "snap_laws ops com act \<Longrightarrow> commits com act n (n @ ''-active'') (unpack ops n p d)"
  unfolding unpack_def by (intro commits_bindS commits_wrapS commits_Commit keeps_wrapS snap_keeps)

section \<open>Creating layers\<close>

lemma Stat_cases:
  assumes "snap_laws ops com act"
  obtains k1 where "n \<in> com k \<union> act k" and "tryS (sn_Stat ops n) k = (Inr (Inr ()), k1)" and "com k1 = com k" "act k1 = act k"
  | e k1 where "n \<notin> com k \<union> act k" and "tryS (sn_Stat ops n) k = (Inr (Inl e), k1)" and "com k1 = com k" "act k1 = act k"
proof -
  obtain r k1 where st: "sn_Stat ops n k = (r, k1)" by (cases "sn_Stat ops n k")
  note k1 = keeps_pair [OF snap_keeps(1) [OF assms] st]
  have iff: "r = Inr () \<longleftrightarrow> n \<in> com k \<union> act k" and "returns_error r \<or> r = Inr ()"
    using snap_changes(1,2) [OF assms, of n k] st by simp_all
  then consider "r = Inr ()" | e where "r = Inl (Returned e)" by (auto simp: returns_error_def)
  then show ?thesis
  proof cases
    case 1
    with that(1) [of k1] iff st k1 show ?thesis by (simp add: tryS_def)
  next
    case (2 e)
    with that(2) [of e k1] iff st k1 show ?thesis by (simp add: tryS_def)
  qed
qed

lemma Prepare_cases:
  assumes "snap_laws ops com act" and "sn_Prepare ops a p k = (r, k')"
  shows "(a \<in> com k \<union> act k \<longrightarrow> (\<exists>e. r = Inl e)) \<and>
     (case r of Inl e \<Rightarrow> com k' = com k \<and> act k' = act k
      | Inr ms \<Rightarrow> com k' = com k \<and> act k' = insert a (act k))"
  using snap_changes(3) [OF assms(1), of a k p] snap_changes(4,5) [OF assms(1), of a p k] assms(2)
  by (cases r) (auto simp: returns_error_def)

text \<open>The part of \<open>createLayer\<close> below the removal of the temporary directory.\<close>

definition prepared :: "'k snap_ops \<Rightarrow> string \<Rightarrow> string \<Rightarrow> string \<Rightarrow> string \<Rightarrow> ('k, unit) io" where
  "prepared ops layerName layerPath parentName tmpDir =
     bindS (sn_Prepare ops (layerName @ ''-active'') parentName) (\<lambda>mounts.
     bindS (wrapS ''all mount error'' (sn_mount_All ops mounts tmpDir)) (\<lambda>_.
     finallyS (unpack ops layerName layerPath tmpDir) (sn_UnmountAll ops tmpDir)))"

lemma createLayer_alt:
  "createLayer ops n p par =
     bindS (tryS (sn_Stat ops n)) (\<lambda>st. case st of Inr _ \<Rightarrow> retS () | Inl _ \<Rightarrow>
       bindS (sn_TempDir ops) (\<lambda>tmpDir. finallyS (prepared ops n p par tmpDir) (sn_RemoveAll ops tmpDir)))"
  by (simp add: createLayer_def prepared_def unpack_def cong: sum.case_cong)

definition layer_outcome :: "('k \<Rightarrow> string set) \<Rightarrow> ('k \<Rightarrow> string set) \<Rightarrow> string \<Rightarrow> 'k \<Rightarrow> unit res \<Rightarrow> 'k \<Rightarrow> bool" where
  "layer_outcome com act n k r k' \<longleftrightarrow>
     (let a = n @ ''-active'' in
      (case r of
         Inr _ \<Rightarrow> a \<notin> com k \<union> act k \<and> com k' = insert n (com k) \<and> act k' = act k
       | Inl _ \<Rightarrow> com k' = com k \<and> (act k' = act k \<or> a \<notin> com k \<union> act k \<and> act k' = insert a (act k))))"

lemma prepared_outcome:
  assumes laws: "snap_laws ops com act" and run: "prepared ops n p par d k = (r, k')"
  shows "layer_outcome com act n k r k'"
proof -
  let ?a = "n @ ''-active''"
  obtain r1 k1 where p1: "sn_Prepare ops ?a par k = (r1, k1)" by (cases "sn_Prepare ops ?a par k")
  note o1 = Prepare_cases [OF laws p1]
  show ?thesis
  proof (cases r1)
    case (Inl e)
    with run p1 o1 show ?thesis by (auto simp: prepared_def bindS_def layer_outcome_def)
  next
    case (Inr ms)
    with o1 have k1: "?a \<notin> com k \<union> act k" "com k1 = com k" "act k1 = insert ?a (act k)" by auto
    obtain r2 k2 where p2: "wrapS ''all mount error'' (sn_mount_All ops ms d) k1 = (r2, k2)"
      by (cases "wrapS ''all mount error'' (sn_mount_All ops ms d) k1")
    note k2 = keeps_pair [OF keeps_wrapS [OF snap_keeps(2) [OF laws]] p2]
    show ?thesis
    proof (cases r2)
      case (Inl e)
      with run p1 Inr p2 k1 k2 show ?thesis by (auto simp: prepared_def bindS_def layer_outcome_def)
    next
      case r2: (Inr u)
      obtain q k3 where u: "unpack ops n p d k2 = (q, k3)" by (cases "unpack ops n p d k2")
      from run p1 p2 Inr r2 have f: "finallyS (unpack ops n p d) (sn_UnmountAll ops d) k2 = (r, k')"
        by (simp add: prepared_def bindS_def)
      note k3 = keeps_finallyS [OF snap_keeps(3,11) [OF laws] f u]
      from unpack_commits [OF laws] u have
        o3: "case q of Inr _ \<Rightarrow> com k3 = insert n (com k2) \<and> act k3 = act k2 - {?a} | Inl _ \<Rightarrow> com k3 = com k2 \<and> act k3 = act k2"
        unfolding commits_def by blast
      show ?thesis using o3 k1 k2 k3 by (cases q) (auto simp: layer_outcome_def)
    qed
  qed
qed

lemma createLayer_outcome:
  assumes laws: "snap_laws ops com act" and run: "createLayer ops n p par k = (r, k')"
  shows "if n \<in> com k \<union> act k then r = Inr () \<and> com k' = com k \<and> act k' = act k else layer_outcome com act n k r k'"
proof (rule Stat_cases [OF laws, of n k])
  fix k1
  assume "n \<in> com k \<union> act k" "tryS (sn_Stat ops n) k = (Inr (Inr ()), k1)" "com k1 = com k" "act k1 = act k"
  with run show ?thesis by (auto simp: createLayer_alt bindS_def)
next
  fix e k1
  assume st: "n \<notin> com k \<union> act k" "tryS (sn_Stat ops n) k = (Inr (Inl e), k1)" "com k1 = com k" "act k1 = act k"
  obtain r2 k2 where t: "sn_TempDir ops k1 = (r2, k2)" by (cases "sn_TempDir ops k1")
  note k2 = keeps_pair [OF snap_keeps(4) [OF laws] t]
  show ?thesis
  proof (cases r2)
    case (Inl e')
    with run st t k2 show ?thesis by (auto simp: createLayer_alt bindS_def layer_outcome_def)
  next
    case (Inr d)
    obtain q k3 where u: "prepared ops n p par d k2 = (q, k3)" by (cases "prepared ops n p par d k2")
    from run st(2) t Inr have f: "finallyS (prepared ops n p par d) (sn_RemoveAll ops d) k2 = (r, k')"
      by (simp add: createLayer_alt bindS_def)
    from keeps_finallyS [OF snap_keeps(5,12) [OF laws] f u] prepared_outcome [OF laws u] st k2 show ?thesis
      by (cases q) (simp_all add: layer_outcome_def Let_def)
  qed
qed

text \<open>
  \<open>createLayer\<close> with success leaves a committed snapshot of the layer's name and no temporary active one:
  if the name was free, exactly that name has been added to the committed snapshots; if it was in use,
  nothing has changed.
\<close>

theorem createLayer_commits:
  assumes "snap_laws ops com act" and "createLayer ops n layerPath parent k = (Inr (), k')"
  shows "act k' = act k \<and> com k' = (if n \<in> com k \<union> act k then com k else insert n (com k))"
  using createLayer_outcome [OF assms] by (auto simp: layer_outcome_def Let_def split: if_splits)


text \<open>The names, paths and parents of the layers of a runtime.\<close>

definition layer_plan :: "string \<Rightarrow> string \<Rightarrow> string list \<Rightarrow> (string \<times> string \<times> string) list" where
  "layer_plan workDir rt layers =
     zip (butlast layers @ [rt])
       (zip (map (\<lambda>l. workDir @ ''/runtimes/'' @ rt @ ''/'' @ l) layers) ([] # butlast layers))"

definition create_planned :: "'k snap_ops \<Rightarrow> string \<times> string \<times> string \<Rightarrow> ('k, unit) io" where
  "create_planned ops = (\<lambda>(n, p, par). wrapS ''could not create runtime layer'' (createLayer ops n p par))"

lemma layers_loop_plan:
  "layers \<noteq> [] \<Longrightarrow> layers_loop ops w rt prev layers =
     eachS (create_planned ops) (zip (butlast layers @ [rt])
       (zip (map (\<lambda>l. w @ ''/runtimes/'' @ rt @ ''/'' @ l) layers) (prev # butlast layers)))"
proof (induction layers arbitrary: prev)
  case Nil
  then show ?case by simp
next
  case (Cons l ls)
  show ?case
  proof (cases "ls = []")
    case True
    then show ?thesis by (simp add: create_planned_def)
  next
    case False
    with Cons.IH [OF False, of l] show ?thesis by (simp add: create_planned_def)
  qed
qed

text \<open>
  C20: The loop over the manifest builds one chain of layers: each layer of the list on the one before it, the
  first on nothing, each under its own name except the last one, which gets the name of the runtime.
\<close>

theorem layers_form_a_chain:
  assumes "layers \<noteq> []"
  shows "layers_loop ops workDir rt [] layers = eachS (create_planned ops) (layer_plan workDir rt layers)"
  unfolding layer_plan_def by (rule layers_loop_plan [OF assms])

lemma planned_layers:
  assumes laws: "snap_laws ops com act" and "eachS (create_planned ops) plan k = (Inr (), k')"
  shows "com k \<subseteq> com k' \<and> act k' = act k \<and> fst ` set plan \<subseteq> com k' \<union> act k'"
  using assms(2)
proof (induction plan arbitrary: k)
  case Nil
  then show ?case by simp
next
  case (Cons x plan)
  obtain n p par where x: "x = (n, p, par)" by (cases x)
  from Cons.prems obtain k1 where c: "createLayer ops n p par k = (Inr (), k1)"
    and rest: "eachS (create_planned ops) plan k1 = (Inr (), k')"
    by (auto simp: x create_planned_def bindS_Inr_iff wrapS_Inr_iff)
  from createLayer_outcome [OF laws c] have "com k \<subseteq> com k1 \<and> act k1 = act k \<and> n \<in> com k1 \<union> act k1"
    by (auto simp: layer_outcome_def Let_def split: if_splits)
  with Cons.IH [OF rest] show ?case by (auto simp: x)
qed

lemma layer_plan_names: "layers \<noteq> [] \<Longrightarrow> fst ` set (layer_plan w rt layers) = insert rt (set (butlast layers))"
  by (simp add: layer_plan_def flip: set_map)

text \<open>
  A manager is only made when its runtime can be used: if \<open>NewSnapshotManager\<close> succeeds, then the
  manifest that was read names some layers and a snapshot exists for each of them, the last under the name of the
  runtime, and no active snapshot has been added.
\<close>

theorem NewSnapshotManager_has_base:
  assumes laws: "snap_laws ops com act" and "NewSnapshotManager ops rt k = (Inr m, k')"
  shows "\<exists>dir k1 k2 bytes layers rest.
     sn_ReadFile ops (dir @ ''/runtimes/'' @ rt @ ''/manifest.json'') k1 = (Inr bytes, k2) \<and>
     sn_manifest ops bytes = Inr (layers # rest) \<and> layers \<noteq> [] \<and>
     insert rt (set (butlast layers)) \<subseteq> com k' \<union> act k' \<and> act k' = act k \<and> sm_runtime m = rt"
proof -
  from assms(2) obtain wd k1 c where wd: "sn_Getwd ops k = (Inr wd, k1)"
    and base: "ensureRuntimeBase ops m c k1 = (Inr (), k')" and rt: "sm_runtime m = rt"
    by (auto simp: NewSnapshotManager_def Let_def bindS_Inr_iff wrapS_Inr_iff)
  from base obtain bytes k2 runmen where
    rd: "sn_ReadFile ops (c @ ''/runtimes/'' @ rt @ ''/manifest.json'') k1 = (Inr bytes, k2)"
    and mf0: "sn_manifest ops bytes = Inr runmen"
    and cont: "(case runmen of [] \<Rightarrow> errS ''no images in runtime manifest''
        | layers # _ \<Rightarrow> if layers = [] then errS ''no layers in runtime manifest'' else layers_loop ops c rt [] layers) k2 = (Inr (), k')"
    unfolding ensureRuntimeBase_def rt by (auto simp: bindS_Inr_iff wrapS_Inr_iff)
  from cont obtain layers rest where "runmen = layers # rest" and ne: "layers \<noteq> []"
    and loop: "layers_loop ops c rt [] layers k2 = (Inr (), k')"
    by (cases runmen) (simp_all split: if_splits)
  with mf0 have mf: "sn_manifest ops bytes = Inr (layers # rest)" "layers \<noteq> []" by simp_all
  have "eachS (create_planned ops) (layer_plan c rt layers) k2 = (Inr (), k')"
    using loop unfolding layer_plan_def layers_loop_plan [OF mf(2)] .
  from planned_layers [OF laws this] layer_plan_names [OF mf(2), of c rt]
    keeps_pair [OF snap_keeps(10) [OF laws] wd] keeps_pair [OF snap_keeps(9) [OF laws] rd] rt
  have "insert rt (set (butlast layers)) \<subseteq> com k' \<union> act k'" "act k' = act k" by auto
  with mf rt rd show ?thesis by blast
qed

section \<open>A snapshotter\<close>

text \<open>The names of the committed and of the active snapshots, and whether archives can be unpacked.\<close>

type_synonym snaps = "string list \<times> string list \<times> bool"

definition ex_snap :: "snaps snap_ops" where
  "ex_snap =
     \<lparr>sn_Stat = (\<lambda>n (c, a, ok). (if n \<in> set (c @ a) then Inr () else Inl (Returned (Ext ''not found'')), (c, a, ok))),
      sn_Prepare = (\<lambda>n p (c, a, ok). if n \<in> set (c @ a) then (Inl (Returned (Ext ''already exists'')), (c, a, ok)) else (Inr [], (c, n # a, ok))),
      sn_View = (\<lambda>n p (c, a, ok). if n \<in> set (c @ a) then (Inl (Returned (Ext ''already exists'')), (c, a, ok)) else (Inr [], (c, n # a, ok))),
      sn_Commit = (\<lambda>n act (c, a, ok). if act \<in> set a then (Inr (), (n # c, removeAll act a, ok)) else (Inl (Returned (Ext ''not found'')), (c, a, ok))),
      sn_mount_All = (\<lambda>_ _. retS ()), sn_UnmountAll = (\<lambda>_. retS ()), sn_TempDir = retS ''/tmp/s'', sn_RemoveAll = (\<lambda>_. retS ()),
      sn_Open = (\<lambda>_. retS 3), sn_Apply = (\<lambda>_ _ (c, a, ok). (if ok then Inr () else Inl (Returned (Ext ''unexpected EOF'')), (c, a, ok))),
      sn_drain = (\<lambda>_. retS ()), sn_ReadFile = (\<lambda>_. retS []), sn_Getwd = retS ''/'', sn_manifest = (\<lambda>_. Inr [[''l1'', ''l2'']])\<rparr>"

definition ex_com :: "snaps \<Rightarrow> string set" where "ex_com = (\<lambda>(c, a, ok). set c)"
definition ex_act :: "snaps \<Rightarrow> string set" where "ex_act = (\<lambda>(c, a, ok). set a)"

lemma ex_snap_laws: "snap_laws ex_snap ex_com ex_act"
  unfolding snap_laws_def
  by (intro conjI allI; clarsimp simp: ex_snap_def ex_com_def ex_act_def keeps_def returns_def returns_error_def split: if_splits)

lemma ex_createLayer:
  "createLayer ex_snap ''f.py'' p ''python'' ([''python''], [], True) = (Inr (), ([''f.py'', ''python''], [], True))"
  "createLayer ex_snap ''f.py'' p ''python'' ([''python''], [], False) =
     (Inl (Returned (Wrapf ''could not apply error'' (Ext ''unexpected EOF''))), ([''python''], [''f.py-active''], False))"
  by (simp_all add: createLayer_def ex_snap_def bindS_def tryS_def wrapS_def finallyS_def)

theorem createLayer_commits_witness:
  "ex_com ([''f.py'', ''python''], [], True) = insert ''f.py'' (ex_com ([''python''], [], True))"
  using createLayer_commits [OF ex_snap_laws ex_createLayer(1) [of "''f.tar''"]] by (simp add: ex_com_def ex_act_def)


theorem layers_form_a_chain_witness:
  "layers_loop ex_snap ''/c'' ''python'' [] [''l1'', ''l2''] =
     eachS (create_planned ex_snap)
       [(''l1'', ''/c/runtimes/python/l1'', []), (''python'', ''/c/runtimes/python/l2'', ''l1'')]"
  using layers_form_a_chain [of "[''l1'', ''l2'']" ex_snap "''/c''" "''python''"] by (simp add: layer_plan_def)

lemma ex_NewSnapshotManager:
  "NewSnapshotManager ex_snap ''python'' ([], [], True) =
     (Inr \<lparr>sm_runtime = ''python'', sm_layersPath = ''/var/cache/refunction/activelayers''\<rparr>, ([''python'', ''l1''], [], True))"
  by (simp add: NewSnapshotManager_def ensureRuntimeBase_def createLayer_def ex_snap_def Let_def bindS_def tryS_def wrapS_def finallyS_def)

theorem NewSnapshotManager_has_base_witness:
  "\<exists>bytes layers rest. sn_manifest ex_snap bytes = Inr (layers # rest) \<and> layers \<noteq> [] \<and>
     insert ''python'' (set (butlast layers)) \<subseteq> ex_com ([''python'', ''l1''], [], True) \<union> ex_act ([''python'', ''l1''], [], True)"
  using NewSnapshotManager_has_base [OF ex_snap_laws ex_NewSnapshotManager] by blast

end
