(* ===== verification/Worker_Core.thy ===== *)
theory Worker_Core
  imports Controller_Core Snapshots
begin

text \<open>
  \<open>worker/worker.go\<close> and \<open>worker/localworker.go\<close>: a worker is a container with one process and the
  controller of that process. containerd's client, the OCI options of its library and the temporary files
  are the parameter \<open>'k worker_env\<close>; handles stand for containers, tasks and exit channels.
\<close>

section \<open>The container specification\<close>

text \<open>The parts of an OCI specification that the options of this package touch; a nil pointer is \<open>None\<close>.\<close>

record hook =
  hook_path :: string
  hook_args :: "string list"

record memory_resources =
  mem_limit :: "int option"

record linux_resources =
  res_memory :: "memory_resources option"

record oci_linux =
  lin_resources :: "linux_resources option"

record oci_spec =
  spec_args :: "string list"
  spec_env :: "string list"
  spec_prestart :: "hook list option"
  spec_linux :: "oci_linux option"

definition WithNetNsHook :: "string \<Rightarrow> oci_spec \<Rightarrow> oci_spec" where
  "WithNetNsHook ipFile s =
     s\<lparr>spec_prestart := Some [\<lparr>hook_path = ''/usr/local/bin/netns'', hook_args = [''netns'', ''--ipfile'', ipFile]\<rparr>]\<rparr>"

definition defaultMemoryLimit :: int where "defaultMemoryLimit = 256 * 1024 * 1024"

definition or_new :: "'a option \<Rightarrow> 'a \<Rightarrow> 'a" where
  "or_new p x = (case p of None \<Rightarrow> x | Some y \<Rightarrow> y)"

definition WithDefaultMemoryLimit :: "oci_spec \<Rightarrow> oci_spec" where
  "WithDefaultMemoryLimit s =
     (let linux = or_new (spec_linux s) \<lparr>lin_resources = None\<rparr>;
          resources = or_new (lin_resources linux) \<lparr>res_memory = None\<rparr>;
          mem = or_new (res_memory resources) \<lparr>mem_limit = None\<rparr>
      in s\<lparr>spec_linux := Some (linux\<lparr>lin_resources := Some (resources\<lparr>res_memory :=
           Some (mem\<lparr>mem_limit := Some defaultMemoryLimit\<rparr>)\<rparr>)\<rparr>)\<rparr>)"

section \<open>Workers\<close>

text \<open>The task of a worker: one of containerd, or the stand-in of \<open>localworker.go\<close>.\<close>

datatype task_ref = Container_task nat | Local_task string int

datatype sink = Writer string | Pipe

record 'w worker =
  wk_id :: string
  wk_container_id :: string
  wk_target :: string
  wk_runtime :: string
  wk_controller :: "'w controller option"
  wk_stderr :: "string list"
  wk_stdout :: "string list"
  wk_creator :: "(sink list \<times> sink list) option"
  wk_container :: "nat option"
  wk_task :: "task_ref option"
  wk_exit :: "nat option"
  wk_ip :: "string option"
  wk_client :: bool

record 'k worker_env =
  we_snap :: "'k snap_ops"
  we_rand :: "nat \<Rightarrow> ('k, nat) io"
  we_TempFile :: "('k, string) io"
  we_CloseFile :: "string \<Rightarrow> ('k, unit) io"
  we_ReadFile :: "string \<Rightarrow> ('k, string) io"
  we_ParseIP :: "string \<Rightarrow> string option"
  we_NewContainer :: "string \<Rightarrow> string \<Rightarrow> (oci_spec \<Rightarrow> oci_spec) list \<Rightarrow> ('k, nat) io"
  we_WithProcessArgs :: "string list \<Rightarrow> oci_spec \<Rightarrow> oci_spec"
  we_WithDefaultPathEnv :: "oci_spec \<Rightarrow> oci_spec"
  we_NewTask :: "nat \<Rightarrow> sink list \<times> sink list \<Rightarrow> ('k, nat) io"
  we_Wait :: "nat \<Rightarrow> ('k, nat) io"
  we_StartTask :: "nat \<Rightarrow> ('k, unit) io"
  we_Pid :: "nat \<Rightarrow> int"
  we_Kill :: "nat \<Rightarrow> int \<Rightarrow> ('k, unit) io"
  we_gone :: "error \<Rightarrow> bool"
  we_exited :: "nat \<Rightarrow> ('k, unit) io"
  we_DeleteTask :: "nat \<Rightarrow> ('k, unit) io"
  we_DeleteContainer :: "nat \<Rightarrow> ('k, unit) io"
  we_GetImage :: "string \<Rightarrow> ('k, nat) io"
  we_ListImages :: "('k, nat list) io"
  we_RemoveSnapshot :: "string \<Rightarrow> ('k, unit) io"

type_synonym ('w, 'k) worker_sys = "'w worker \<times> 'k"

definition NewWorkerWithSnapManager :: "string \<Rightarrow> string \<Rightarrow> string \<Rightarrow> 'w \<Rightarrow> 'w worker" where
  "NewWorkerWithSnapManager ident rt targetSnapshot w =
     \<lparr>wk_id = ident, wk_container_id = [], wk_target = targetSnapshot, wk_runtime = rt,
      wk_controller = Some (NewController w), wk_stderr = [], wk_stdout = [], wk_creator = None, wk_container = None,
      wk_task = None, wk_exit = None, wk_ip = None, wk_client = True\<rparr>"

definition NewWorker :: "'k worker_env \<Rightarrow> string \<Rightarrow> string \<Rightarrow> string \<Rightarrow> 'w \<Rightarrow> ('k, 'w worker) io" where
  "NewWorker we ident rt targetSnapshot w =
     bindS (NewSnapshotManager (we_snap we) rt) (\<lambda>snapManager.
     bindS (CreateLayerFromBase (we_snap we) snapManager targetSnapshot) (\<lambda>_.
     retS (NewWorkerWithSnapManager ident rt targetSnapshot w)))"

text \<open>
  The controller of a local worker is never set, and it has neither a client of containerd nor a snapshot
  manager: \<open>wk_client\<close> says whether a worker has these two.
\<close>

definition NewLocalWorker :: "string \<Rightarrow> int \<Rightarrow> 'w worker" where
  "NewLocalWorker ident pid =
     \<lparr>wk_id = ident, wk_container_id = [], wk_target = [], wk_runtime = [], wk_controller = None,
      wk_stderr = [], wk_stdout = [], wk_creator = None, wk_container = None, wk_task = Some (Local_task ident pid),
      wk_exit = None, wk_ip = None, wk_client = False\<rparr>"

text \<open>The methods of a task. Those of the local task do nothing.\<close>

definition local_ID :: "string \<Rightarrow> string" where "local_ID ident = ident"
definition local_Start :: "('k, unit) io" where "local_Start = retS ()"
definition local_Kill :: "int \<Rightarrow> ('k, unit) io" where "local_Kill sig = retS ()"
definition local_Delete :: "('k, unit) io" where "local_Delete = retS ()"
definition local_Pid :: "int \<Rightarrow> int" where "local_Pid pid = pid"
definition local_CloseIO :: "('k, unit) io" where "local_CloseIO = retS ()"
definition local_Resize :: "int \<Rightarrow> int \<Rightarrow> ('k, unit) io" where "local_Resize width height = retS ()"
definition local_Status :: "('k, string) io" where "local_Status = retS ''running''"
definition local_Pause :: "('k, unit) io" where "local_Pause = retS ()"
definition local_Resume :: "('k, unit) io" where "local_Resume = retS ()"
definition local_Exec :: "task_ref \<Rightarrow> ('k, task_ref) io" where "local_Exec t = retS t"
definition local_Pids :: "('k, int list) io" where "local_Pids = retS []"
definition local_Update :: "('k, unit) io" where "local_Update = retS ()"
definition local_LoadProcess :: "task_ref \<Rightarrow> ('k, task_ref) io" where "local_LoadProcess t = retS t"

definition local_IO :: "nat option" where "local_IO = None"
definition local_Checkpoint :: "('k, nat option) io" where "local_Checkpoint = retS None"
definition local_Metrics :: "('k, nat option) io" where "local_Metrics = retS None"

text \<open>\<open>Wait\<close> of a local task returns a channel on which nobody ever sends.\<close>

definition local_Wait :: "('k, ('k, unit) io) io" where "local_Wait = retS (faultS Blocked)"

definition task_Pid :: "'k worker_env \<Rightarrow> task_ref \<Rightarrow> int" where
  "task_Pid we t = (case t of Container_task h \<Rightarrow> we_Pid we h | Local_task ident pid \<Rightarrow> local_Pid pid)"

definition task_Kill :: "'k worker_env \<Rightarrow> task_ref \<Rightarrow> int \<Rightarrow> ('k, unit) io" where
  "task_Kill we t sig = (case t of Container_task h \<Rightarrow> we_Kill we h sig | Local_task ident pid \<Rightarrow> local_Kill sig)"

definition task_Delete :: "'k worker_env \<Rightarrow> task_ref \<Rightarrow> ('k, unit) io" where
  "task_Delete we t = (case t of Container_task h \<Rightarrow> we_DeleteTask we h | Local_task ident pid \<Rightarrow> local_Delete)"

text \<open>\<open>m.client.F()\<close> and \<open>m.snapManager.F()\<close>: a panic when the pointer is nil.\<close>

definition with_client :: "(('w, 'k) worker_sys, 'a) io \<Rightarrow> (('w, 'k) worker_sys, 'a) io" where
  "with_client f = (\<lambda>(m, k). if wk_client m then f (m, k) else (Inl nil_pointer, (m, k)))"

text \<open>\<open>m.controller.F()\<close>: a panic when there is no controller.\<close>

definition on_controller :: "('w controller, 'a) io \<Rightarrow> (('w, 'k) worker_sys, 'a) io" where
  "on_controller f = (\<lambda>(m, k).
     case wk_controller m of
       None \<Rightarrow> (Inl nil_pointer, (m, k))
     | Some c \<Rightarrow> (case f c of (r, c') \<Rightarrow> (r, (m\<lparr>wk_controller := Some c'\<rparr>, k))))"

definition WithStdPipes :: "string \<Rightarrow> string list \<Rightarrow> 'w worker \<Rightarrow> 'w worker" where
  "WithStdPipes stderrWriter stdoutWriters m = m\<lparr>wk_stderr := [stderrWriter], wk_stdout := stdoutWriters\<rparr>"

text \<open>Everything the process prints goes to the writers of the worker and into the pipe of the controller.\<close>

definition connectStdPipes :: "(('w, 'k) worker_sys, unit) io" where
  "connectStdPipes = (\<lambda>(m, k).
     let collectedStdErr = (if wk_stderr m \<noteq> [] then map Writer (wk_stderr m) @ [Pipe] else [Pipe]);
         collectedStdOut = (if wk_stdout m \<noteq> [] then map Writer (wk_stdout m) @ [Pipe] else [Pipe])
     in on_controller (\<lambda>c. (Inr (), SetStreams c)) (m\<lparr>wk_creator := Some (collectedStdOut, collectedStdErr)\<rparr>, k))"

definition processArgs :: "'w worker \<Rightarrow> string list" where
  "processArgs m =
     (if wk_runtime m = ''alpine'' \<or> wk_runtime m = ''alpinepython'' then [wk_target m]
      else if wk_runtime m = ''java'' then [''/opt/openjdk-13/bin/java'', ''-cp'', ''.:gson.jar'', ''ServerlessFunction'']
      else [wk_runtime m, wk_target m])"

text \<open>
  \<open>ipFile.Name()\<close> is called before the error of \<open>TempFile\<close> is looked at, on a nil file when there is one.
\<close>

definition tmp_ip_file :: "'k worker_env \<Rightarrow> ('k, string) io" where
  "tmp_ip_file we =
     bindS (tryS (we_TempFile we)) (\<lambda>r.
     case r of Inl err \<Rightarrow> faultS nil_pointer | Inr ipFileName \<Rightarrow> retS ipFileName)"

definition worker_opts :: "'k worker_env \<Rightarrow> string \<Rightarrow> string list \<Rightarrow> (oci_spec \<Rightarrow> oci_spec) list" where
  "worker_opts we ipFileName args =
     [WithNetNsHook ipFileName, we_WithProcessArgs we args, WithDefaultMemoryLimit, we_WithDefaultPathEnv we]"

definition start_task :: "'k worker_env \<Rightarrow> string \<Rightarrow> nat \<Rightarrow> (('w, 'k) worker_sys, unit) io" where
  "start_task we ipFileName container =
     bindS connectStdPipes (\<lambda>_ (m, k).
     bindS (wrapS ''could not create worker task''
       (env (we_NewTask we container (or_new (wk_creator m) ([], []))))) (\<lambda>task.
     bindS (modS (\<lambda>m. m\<lparr>wk_task := Some (Container_task task)\<rparr>)) (\<lambda>_.
     bindS (wrapS ''could not create worker task channel'' (env (we_Wait we task))) (\<lambda>taskExitChan.
     bindS (modS (\<lambda>m. m\<lparr>wk_exit := Some taskExitChan\<rparr>)) (\<lambda>_.
     bindS (wrapS ''could not start worker task'' (env (we_StartTask we task))) (\<lambda>_.
     bindS (wrapS ''could not read container ip file'' (env (we_ReadFile we ipFileName))) (\<lambda>ipBytes.
     bindS (modS (\<lambda>m. m\<lparr>wk_ip := we_ParseIP we ipBytes\<rparr>)) (\<lambda>_.
     on_controller (\<lambda>c. (Inr (), SetPid (we_Pid we task) c))))))))) (m, k))"

definition Worker_Start :: "'k worker_env \<Rightarrow> (('w, 'k) worker_sys, unit) io" where
  "Worker_Start we =
     bindS (env (we_rand we 100)) (\<lambda>n.
     bindS (modS (\<lambda>m. m\<lparr>wk_container_id := wk_target m @ ''-'' @ wk_id m @ ''-'' @ Itoa (int n)\<rparr>)) (\<lambda>_ (m, k).
     bindS (with_client (env (GetRwMounts (we_snap we) (wk_target m) (wk_container_id m)))) (\<lambda>_.
     bindS (env (tmp_ip_file we)) (\<lambda>ipFileName.
     bindS (wrapS ''could not close container ip file'' (env (we_CloseFile we ipFileName))) (\<lambda>_.
     bindS (wrapS ''could not create worker container''
       (env (we_NewContainer we (wk_container_id m) (wk_container_id m) (worker_opts we ipFileName (processArgs m))))) (\<lambda>container.
     bindS (modS (\<lambda>m. m\<lparr>wk_container := Some container\<rparr>)) (\<lambda>_.
     start_task we ipFileName container))))) (m, k)))"

text \<open>The methods that pass on to the controller.\<close>

definition Worker_WithSyscallTrace :: "(('w, 'k) worker_sys, unit) io" where
  "Worker_WithSyscallTrace = on_controller (\<lambda>c. (Inr (), WithSyscallTrace c))"

definition Worker_Streams :: "(('w, 'k) worker_sys, pipe_end \<times> pipe_end \<times> pipe_end) io" where
  "Worker_Streams = on_controller (\<lambda>c. (Streams c, c))"

definition Worker_Activate :: "('w, 'z) ctrl_ops_scheme \<Rightarrow> (('w, 'k) worker_sys, unit) io" where
  "Worker_Activate ops = on_controller (Activate ops)"

definition Worker_Attach :: "('w, 'z) ctrl_ops_scheme \<Rightarrow> (('w, 'k) worker_sys, unit) io" where
  "Worker_Attach ops = on_controller (Attach ops)"

definition Worker_TakeCheckpoint :: "('w, 'z) ctrl_ops_scheme \<Rightarrow> (('w, 'k) worker_sys, unit) io" where
  "Worker_TakeCheckpoint ops = on_controller (TakeCheckpoint ops)"

definition Worker_SendFunction :: "('w, 'z) ctrl_ops_scheme \<Rightarrow> string \<Rightarrow> (('w, 'k) worker_sys, unit) io" where
  "Worker_SendFunction ops code = on_controller (SendFunction ops code)"

definition Worker_SendRequest :: "('w, 'z) ctrl_ops_scheme \<Rightarrow> json \<Rightarrow> (('w, 'k) worker_sys, json) io" where
  "Worker_SendRequest ops request = on_controller (SendRequest ops request)"

definition Worker_AwaitMessage :: "('w, 'z) ctrl_ops_scheme \<Rightarrow> string \<Rightarrow> (('w, 'k) worker_sys, message) io" where
  "Worker_AwaitMessage ops messageType = on_controller (AwaitMessage ops messageType)"

definition Worker_SendMessage :: "('w, 'z) ctrl_ops_scheme \<Rightarrow> string \<Rightarrow> json \<Rightarrow> (('w, 'k) worker_sys, unit) io" where
  "Worker_SendMessage ops messageType d = on_controller (SendMessage ops messageType d)"

definition Worker_AwaitSignal :: "('w, 'z) ctrl_ops_scheme \<Rightarrow> int \<Rightarrow> (('w, 'k) worker_sys, unit) io" where
  "Worker_AwaitSignal ops sig = on_controller (AwaitSignal ops sig)"

definition Worker_PauseAtSignal :: "('w, 'z) ctrl_ops_scheme \<Rightarrow> int \<Rightarrow> (('w, 'k) worker_sys, unit) io" where
  "Worker_PauseAtSignal ops sig = on_controller (PauseAtSignal ops sig)"

definition Worker_Restore :: "('w, 'z) ctrl_ops_scheme \<Rightarrow> (('w, 'k) worker_sys, unit) io" where
  "Worker_Restore ops = on_controller (Restore ops)"

definition Worker_Detach :: "('w, 'z) ctrl_ops_scheme \<Rightarrow> (('w, 'k) worker_sys, unit) io" where
  "Worker_Detach ops = on_controller (Detach_all ops)"

definition Worker_Checkpoints :: "(('w, 'k) worker_sys, state list) io" where
  "Worker_Checkpoints = on_controller (askS Checkpoints)"

definition Worker_Stop :: "('w, 'z) ctrl_ops_scheme \<Rightarrow> (('w, 'k) worker_sys, unit) io" where
  "Worker_Stop ops = on_controller (Stop ops)"

definition Worker_ContinueWith :: "('w, 'z) ctrl_ops_scheme \<Rightarrow> int \<Rightarrow> (('w, 'k) worker_sys, unit) io" where
  "Worker_ContinueWith ops sig = on_controller (ContinueWith ops sig)"

definition Worker_Continue :: "('w, 'z) ctrl_ops_scheme \<Rightarrow> (('w, 'k) worker_sys, unit) io" where
  "Worker_Continue ops = on_controller (ContinueWith ops 0)"

definition Worker_ContinueTid :: "('w, 'z) ctrl_ops_scheme \<Rightarrow> int \<Rightarrow> int \<Rightarrow> (('w, 'k) worker_sys, unit) io" where
  "Worker_ContinueTid ops tid sig = on_controller (ContinueTid ops tid sig)"

definition Worker_SendSignalCont :: "('w, 'z) ctrl_ops_scheme \<Rightarrow> int \<Rightarrow> (('w, 'k) worker_sys, unit) io" where
  "Worker_SendSignalCont ops sig = on_controller (SendSignalCont ops sig)"

definition Worker_SendSignal :: "('w, 'z) ctrl_ops_scheme \<Rightarrow> int \<Rightarrow> (('w, 'k) worker_sys, unit) io" where
  "Worker_SendSignal ops sig = on_controller (SendSignal ops sig)"

definition Worker_State :: "('w, 'z) ctrl_ops_scheme \<Rightarrow> (('w, 'k) worker_sys, state) io" where
  "Worker_State ops = on_controller (State ops)"

definition Worker_InitialCheckpoint :: "(('w, 'k) worker_sys, state) io" where
  "Worker_InitialCheckpoint = on_controller (\<lambda>c. (InitialCheckpoint c, c))"

definition Worker_SetRegs :: "('w, 'z) ctrl_ops_scheme \<Rightarrow> state \<Rightarrow> (('w, 'k) worker_sys, unit) io" where
  "Worker_SetRegs ops s = on_controller (SetRegs ops s)"

definition Worker_ClearMemRefs :: "('w, 'z) ctrl_ops_scheme \<Rightarrow> (('w, 'k) worker_sys, unit) io" where
  "Worker_ClearMemRefs ops = on_controller (ClearMemRefs ops)"

definition Worker_GetImage :: "'k worker_env \<Rightarrow> string \<Rightarrow> (('w, 'k) worker_sys, nat) io" where
  "Worker_GetImage we name = with_client (env (we_GetImage we name))"

definition Worker_ListImages :: "'k worker_env \<Rightarrow> (('w, 'k) worker_sys, nat list) io" where
  "Worker_ListImages we = with_client (env (we_ListImages we))"

definition Worker_CleanSnapshot :: "'k worker_env \<Rightarrow> string \<Rightarrow> (('w, 'k) worker_sys, unit) io" where
  "Worker_CleanSnapshot we name = with_client (env (we_RemoveSnapshot we name))"

definition Worker_Pid :: "'k worker_env \<Rightarrow> 'w worker \<Rightarrow> int res" where
  "Worker_Pid we m = (case wk_task m of None \<Rightarrow> Inl nil_pointer | Some t \<Rightarrow> Inr (task_Pid we t))"

text \<open>
  \<open>End\<close>: the error of the controller is formatted and dropped, as is that of the container's deletion; a
  task that is gone already ends the method early. Receiving from the nil channel of a worker whose
  \<open>Wait\<close> failed blocks for ever.
\<close>

definition delete_container :: "'k worker_env \<Rightarrow> (('w, 'k) worker_sys, unit) io" where
  "delete_container we = (\<lambda>(m, k).
     case wk_container m of
       None \<Rightarrow> (Inr (), (m, k))
     | Some c \<Rightarrow> loggedS (env (we_DeleteContainer we c)) (m, k))"

definition SIGKILL :: int where "SIGKILL = 9"

definition finish_task :: "'k worker_env \<Rightarrow> task_ref \<Rightarrow> (('w, 'k) worker_sys, unit) io" where
  "finish_task we t =
     bindS (tryS (env (task_Kill we t SIGKILL))) (\<lambda>r.
     case r of
       Inl err \<Rightarrow> if we_gone we err then retS () else faultS (Returned (Wrapf ''failed to kill in manager end'' err))
     | Inr _ \<Rightarrow>
         (\<lambda>(m, k). case wk_exit m of
            None \<Rightarrow> (Inl Blocked, (m, k))
          | Some ch \<Rightarrow>
              bindS (env (we_exited we ch)) (\<lambda>_.
              bindS (env (task_Delete we t)) (\<lambda>_.
              delete_container we)) (m, k)))"

definition Worker_End :: "('w, 'z) ctrl_ops_scheme \<Rightarrow> 'k worker_env \<Rightarrow> (('w, 'k) worker_sys, unit) io" where
  "Worker_End ops we = (\<lambda>(m, k).
     case wk_task m of
       None \<Rightarrow> delete_container we (m, k)
     | Some t \<Rightarrow> bindS (tryS (on_controller (End ops))) (\<lambda>controllerErr. finish_task we t) (m, k))"

section \<open>Starting\<close>

lemma on_controller_Inr:
  "on_controller f (m, k) = (Inr x, (m', k')) \<longleftrightarrow>
     (\<exists>c c'. wk_controller m = Some c \<and> f c = (Inr x, c') \<and> m' = m\<lparr>wk_controller := Some c'\<rparr> \<and> k' = k)"
  by (auto simp: on_controller_def split: option.splits prod.splits)

lemma on_controller_None [simp]: "wk_controller m = None \<Longrightarrow> on_controller f (m, k) = (Inl nil_pointer, (m, k))"
  by (simp add: on_controller_def)

lemma env_Inr: "env f (m, k) = (Inr x, (m', k')) \<longleftrightarrow> f k = (Inr x, k') \<and> m' = m"
  by (cases "f k") auto

lemma wrap_env_Inr: "wrapS msg (env f) (m, k) = (Inr x, (m', k')) \<longleftrightarrow> f k = (Inr x, k') \<and> m' = m"
  by (simp add: wrapS_Inr_iff env_Inr del: env_eval)

lemma modS_Inr: "modS f (m, k) = (Inr x, (m', k')) \<longleftrightarrow> m' = f m \<and> k' = k"
  by auto

lemma with_client_Inr: "with_client f (m, k) = (Inr x, s) \<longleftrightarrow> wk_client m \<and> f (m, k) = (Inr x, s)"
  by (auto simp: with_client_def)

lemmas worker_Inr = bindS_Inr_iff with_client_Inr wrap_env_Inr env_Inr modS_Inr on_controller_Inr

lemma connectStdPipes_Inr:
  "connectStdPipes (m, k) = (Inr x, (m', k')) \<longleftrightarrow>
     (\<exists>c. wk_controller m = Some c \<and> k' = k \<and>
        m' = m\<lparr>wk_creator := Some (map Writer (wk_stdout m) @ [Pipe], map Writer (wk_stderr m) @ [Pipe]),
               wk_controller := Some (SetStreams c)\<rparr>)"
  by (auto simp: connectStdPipes_def on_controller_Inr)

lemma start_task_Inr:
  assumes "start_task we f container (m, k) = (Inr (), (m', k'))"
  shows "\<exists>task ch c. wk_task m' = Some (Container_task task) \<and> wk_exit m' = Some ch \<and> wk_controller m' = Some c \<and>
     c_pid c = we_Pid we task \<and> has_streams c \<and> wk_container m' = wk_container m \<and>
     wk_container_id m' = wk_container_id m \<and>
     wk_creator m' = Some (map Writer (wk_stdout m) @ [Pipe], map Writer (wk_stderr m) @ [Pipe])"
  using assms
  by (auto simp: start_task_def worker_Inr connectStdPipes_Inr SetPid_def SetStreams_def simp del: env_eval)

text \<open>
  A worker that starts is complete: its container was made from the specification for its runtime and
  its function, under an identifier of the worker's own; it has a task and the channel of the task's exit;
  and its controller has the pid of the task and the pipes that everything the process prints goes into.
\<close>

theorem Start_prepares_worker:
  assumes "Worker_Start we (m, k) = (Inr (), (m', k'))"
  shows "\<exists>n ipFile container k1 k2 task ch c.
     wk_container_id m' = wk_target m @ ''-'' @ wk_id m @ ''-'' @ Itoa (int n) \<and>
     we_NewContainer we (wk_container_id m') (wk_container_id m') (worker_opts we ipFile (processArgs m)) k1 = (Inr container, k2) \<and>
     wk_container m' = Some container \<and> wk_task m' = Some (Container_task task) \<and> wk_exit m' = Some ch \<and>
     wk_controller m' = Some c \<and> c_pid c = we_Pid we task \<and> has_streams c \<and>
     wk_creator m' = Some (map Writer (wk_stdout m) @ [Pipe], map Writer (wk_stderr m) @ [Pipe])"
proof -
  let ?m = "\<lambda>n. m\<lparr>wk_container_id := wk_target m @ ''-'' @ wk_id m @ ''-'' @ Itoa (int n)\<rparr>"
  from assms obtain n f container k1 k2 where
    c: "we_NewContainer we (wk_container_id (?m n)) (wk_container_id (?m n)) (worker_opts we f (processArgs (?m n))) k1 = (Inr container, k2)"
    and s: "start_task we f container ((?m n)\<lparr>wk_container := Some container\<rparr>, k2) = (Inr (), (m', k'))"
    unfolding Worker_Start_def by (auto simp: worker_Inr simp del: env_eval)
  have "processArgs (?m n) = processArgs m" by (simp add: processArgs_def)
  with c start_task_Inr [OF s] show ?thesis by fastforce
qed

text \<open>
  When no temporary file can be made for the address of the container, \<open>Start\<close> does not return the
  error: it panics on the nil file whose name it asks for.
\<close>

theorem Start_panics_without_temp_file:
  assumes "wk_client m" and "we_rand we 100 k = (Inr n, k1)"
    and "GetRwMounts (we_snap we) (wk_target m) (wk_target m @ ''-'' @ wk_id m @ ''-'' @ Itoa (int n)) k1 = (Inr mounts, k2)"
    and "we_TempFile we k2 = (Inl (Returned e), k3)"
  shows "fst (Worker_Start we (m, k)) = Inl nil_pointer"
  using assms by (simp add: Worker_Start_def bindS_def with_client_def tmp_ip_file_def tryS_def)

section \<open>Ending\<close>

text \<open>
  \<open>End\<close> reports success although the controller could not be ended: once the task has been killed, has
  exited and has been deleted, the result does not depend on what the controller returned.
\<close>

theorem End_hides_controller_error:
  assumes "wk_task m = Some t" and "wk_controller m = Some c" and "End ops c = (Inl (Returned e), c')"
    and "task_Kill we t SIGKILL k = (Inr (), k1)" and "wk_exit m = Some ch" and "we_exited we ch k1 = (Inr (), k2)"
    and "task_Delete we t k2 = (Inr (), k3)" and "wk_container m = Some h" and "we_DeleteContainer we h k3 = (Inr (), k4)"
  shows "Worker_End ops we (m, k) = (Inr (), (m\<lparr>wk_controller := Some c'\<rparr>, k4))"
  using assms by (simp add: Worker_End_def finish_task_def delete_container_def bindS_def tryS_def on_controller_def loggedS_def)

text \<open>
  \<open>End\<close> of a worker whose task is gone already leaves the container and its snapshot behind: it returns
  success right after the failed kill.
\<close>

theorem End_of_gone_task_keeps_container:
  assumes "wk_task m = Some t" and "wk_controller m = Some c" and "End ops c = (Inr (), c')"
    and "task_Kill we t SIGKILL k = (Inl (Returned e), k1)" and "we_gone we e"
  shows "Worker_End ops we (m, k) = (Inr (), (m\<lparr>wk_controller := Some c'\<rparr>, k1))"
  using assms by (simp add: Worker_End_def finish_task_def bindS_def tryS_def on_controller_def)

text \<open>
  A worker whose \<open>Start\<close> failed when it asked for the exit channel of the new task cannot be ended: the
  task is killed, and then \<open>End\<close> waits for ever on the nil channel.
\<close>

theorem End_blocks_without_exit_channel:
  assumes "wk_controller m = Some c" and "wk_exit m = None"
    and "we_NewTask we container (map Writer (wk_stdout m) @ [Pipe], map Writer (wk_stderr m) @ [Pipe]) k = (Inr task, k1)"
    and "we_Wait we task k1 = (Inl (Returned e), k2)"
    and "End ops (SetStreams c) = (Inr (), c')" and "we_Kill we task SIGKILL k2 = (Inr (), k3)"
  shows "\<exists>m1. start_task we ipFile container (m, k) =
       (Inl (Returned (Wrapf ''could not create worker task channel'' e)), (m1, k2)) \<and>
     fst (Worker_End ops we (m1, k2)) = Inl Blocked"
proof -
  let ?m1 = "m\<lparr>wk_creator := Some (map Writer (wk_stdout m) @ [Pipe], map Writer (wk_stderr m) @ [Pipe]),
       wk_controller := Some (SetStreams c), wk_task := Some (Container_task task)\<rparr>"
  have "connectStdPipes (m, k) = (Inr (), (m\<lparr>wk_creator := Some (map Writer (wk_stdout m) @ [Pipe], map Writer (wk_stderr m) @ [Pipe]),
       wk_controller := Some (SetStreams c)\<rparr>, k))"
    using assms(1) by (simp add: connectStdPipes_Inr)
  then have "start_task we ipFile container (m, k) =
      (Inl (Returned (Wrapf ''could not create worker task channel'' e)), (?m1, k2))"
    using assms by (simp add: start_task_def bindS_def wrapS_def or_new_def)
  moreover have "fst (Worker_End ops we (?m1, k2)) = Inl Blocked"
    using assms by (simp add: Worker_End_def finish_task_def bindS_def tryS_def on_controller_def task_Kill_def)
  ultimately show ?thesis by blast
qed

section \<open>Local workers\<close>

text \<open>
  \<open>worker/images/go-test-helper/main.go\<close> up to its end: the program that controls a process which is not in a
  container, with the pauses for input left out.
\<close>

definition SIGUSR1 :: int where "SIGUSR1 = 10"

text \<open>\<open>if err != nil { panic(err) }\<close>\<close>

fun must :: "'a res \<Rightarrow> 'a res" where
  "must (Inl (Returned e)) = Inl (Panicked ''panic(err)'')"
| "must r = r"

definition mustS :: "('s, 'a) io \<Rightarrow> ('s, 'a) io" where
  "mustS f s = (case f s of (r, s') \<Rightarrow> (must r, s'))"

definition helper_main :: "('w, 'z) ctrl_ops_scheme \<Rightarrow> 'k worker_env \<Rightarrow> string list \<Rightarrow> 'k \<Rightarrow> unit res" where
  "helper_main ops we args k =
     (case args of
        _ # pidString # _ \<Rightarrow>
          (case Atoi pidString of
             Inl err \<Rightarrow> Inl (Panicked ''panic(err)'')
           | Inr pid \<Rightarrow>
               fst (bindS Worker_WithSyscallTrace (\<lambda>_.
                    bindS (mustS (Worker_Attach ops)) (\<lambda>_.
                    finallyS
                      (bindS (mustS (Worker_SendSignal ops SIGUSR1)) (\<lambda>_. mustS (Worker_Restore ops)))
                      (Worker_Detach ops)))
                    (NewLocalWorker ''local-serverless-function'' (pid mod 2 ^ 32), k)))
      | _ \<Rightarrow> Inl (Panicked ''provide pid please''))"

text \<open>
  The test helper panics whatever its arguments are: \<open>NewLocalWorker\<close> leaves the controller, the client and the
  snapshot manager of the worker nil, and every method of such a worker that uses one of them panics.
\<close>

theorem local_worker_has_no_controller:
  "on_controller f (NewLocalWorker ident pid, k) = (Inl nil_pointer, (NewLocalWorker ident pid, k)) \<and>
   with_client g (NewLocalWorker ident pid, k) = (Inl nil_pointer, (NewLocalWorker ident pid, k)) \<and>
   (\<exists>p. helper_main ops we args k = Inl (Panicked p))"
proof (intro conjI)
  show "with_client g (NewLocalWorker ident pid, k) = (Inl nil_pointer, (NewLocalWorker ident pid, k))"
    by (simp add: with_client_def NewLocalWorker_def)
  show "on_controller f (NewLocalWorker ident pid, k) = (Inl nil_pointer, (NewLocalWorker ident pid, k))"
    by (simp add: NewLocalWorker_def)
  have none: "on_controller g (NewLocalWorker i q, k) = (Inl nil_pointer, (NewLocalWorker i q, k))"
    for g :: "('w controller, unit) io" and i q by (simp add: NewLocalWorker_def)
  show "\<exists>p. helper_main ops we args k = Inl (Panicked p)"
    by (simp add: helper_main_def bindS_def Worker_WithSyscallTrace_def none nil_pointer_def split: list.splits sum.splits)
qed

section \<open>A container runtime\<close>

text \<open>A runtime that notes the calls; \<open>bad\<close> are the calls that fail.\<close>

definition noted :: "string list \<Rightarrow> string \<Rightarrow> 'a \<Rightarrow> (string list, 'a) io" where
  "noted bad call x k = (if call \<in> set bad then Inl (Returned (Ext call)) else Inr x, k @ [call])"

definition quiet_snap :: "'k snap_ops" where
  "quiet_snap =
     \<lparr>sn_Stat = (\<lambda>_. retS ()), sn_Prepare = (\<lambda>_ _. retS []), sn_View = (\<lambda>_ _. retS []), sn_Commit = (\<lambda>_ _. retS ()),
      sn_mount_All = (\<lambda>_ _. retS ()), sn_UnmountAll = (\<lambda>_. retS ()), sn_TempDir = retS ''/tmp/s'',
      sn_RemoveAll = (\<lambda>_. retS ()), sn_Open = (\<lambda>_. retS 3), sn_Apply = (\<lambda>_ _. retS ()), sn_drain = (\<lambda>_. retS ()),
      sn_ReadFile = (\<lambda>_. retS []), sn_Getwd = retS ''/'', sn_manifest = (\<lambda>_. Inr [[''l'']])\<rparr>"

definition noting :: "string list \<Rightarrow> string list worker_env" where
  "noting bad =
     \<lparr>we_snap = quiet_snap, we_rand = (\<lambda>_. retS 7), we_TempFile = noted bad ''temp'' ''/tmp/ip'',
      we_CloseFile = (\<lambda>_. retS ()), we_ReadFile = (\<lambda>_. retS ''10.0.0.2''), we_ParseIP = Some,
      we_NewContainer = (\<lambda>_ _ _. noted bad ''container'' 1), we_WithProcessArgs = (\<lambda>args s. s\<lparr>spec_args := args\<rparr>),
      we_WithDefaultPathEnv = (\<lambda>s. s\<lparr>spec_env := [''PATH=/bin'']\<rparr>), we_NewTask = (\<lambda>_ _. noted bad ''task'' 2),
      we_Wait = (\<lambda>_. noted bad ''wait'' 3), we_StartTask = (\<lambda>_. noted bad ''start'' ()), we_Pid = (\<lambda>_. 42),
      we_Kill = (\<lambda>_ _. noted bad ''kill'' ()), we_gone = (\<lambda>_. True), we_exited = (\<lambda>_. noted bad ''exited'' ()),
      we_DeleteTask = (\<lambda>_. noted bad ''delete task'' ()), we_DeleteContainer = (\<lambda>_. noted bad ''delete container'' ()),
      we_GetImage = (\<lambda>_. retS 1), we_ListImages = retS [], we_RemoveSnapshot = (\<lambda>_. retS ())\<rparr>"

definition ex_worker :: "string list worker" where
  "ex_worker = NewWorkerWithSnapManager ''0'' ''python'' ''f.py'' []"

definition ex_started :: "string list worker" where
  "ex_started = ex_worker\<lparr>wk_container_id := ''f.py-0-7'', wk_controller := Some (SetPid 42 (line_controller [])),
     wk_creator := Some ([Pipe], [Pipe]), wk_container := Some 1, wk_task := Some (Container_task 2), wk_exit := Some 3,
     wk_ip := Some ''10.0.0.2''\<rparr>"

lemma ex_Start:
  "Worker_Start (noting []) (ex_worker, []) = (Inr (), (ex_started, [''temp'', ''container'', ''task'', ''wait'', ''start'']))"
  by (simp add: Worker_Start_def with_client_def start_task_def connectStdPipes_def on_controller_def tmp_ip_file_def bindS_def wrapS_def
      tryS_def GetRwMounts_def noting_def quiet_snap_def noted_def ex_worker_def ex_started_def NewWorkerWithSnapManager_def
      line_controller_def Itoa_def digits_of.simps)

theorem Start_prepares_worker_witness:
  "\<exists>n container k1 k2. wk_container_id ex_started = ''f.py-0-'' @ Itoa (int n) \<and>
     (\<exists>ipFile. we_NewContainer (noting []) ''f.py-0-7'' ''f.py-0-7'' (worker_opts (noting []) ipFile [''python'', ''f.py'']) k1 = (Inr container, k2)) \<and>
     wk_container ex_started = Some container"
  using Start_prepares_worker [OF ex_Start]
  by (simp add: ex_started_def ex_worker_def NewWorkerWithSnapManager_def processArgs_def) blast

theorem Start_panics_without_temp_file_witness: "fst (Worker_Start (noting [''temp'']) (ex_worker, [])) = Inl nil_pointer"
  by (rule Start_panics_without_temp_file [where n = 7 and ?k1.0 = "[]" and mounts = "[]" and ?k2.0 = "[]" and e = "Ext ''temp''" and ?k3.0 = "[''temp'']"])
    (simp_all add: noting_def noted_def GetRwMounts_def quiet_snap_def ex_worker_def NewWorkerWithSnapManager_def)

definition failing_kill :: "string list ctrl_ops" where
  "failing_kill = line_ops\<lparr>k_tgkill := (\<lambda>_ _ _ w. (Inl (Returned (Ext ''no such process'')), w))\<rparr>"

definition attached_controller :: "string list controller" where
  "attached_controller = (line_controller [])\<lparr>attached := True, traceTasks := [1], sys := \<lparr>task_of = [1 \<mapsto> ex_task], world = []\<rparr>\<rparr>"

lemma ex_failed_End:
  "\<exists>e. End failing_kill attached_controller = (Inl (Returned e), attached_controller)"
proof -
  have "Detach_all failing_kill attached_controller =
      (Inl (Returned (Wrapf ''could not stop child for detach'' (Ext ''no such process''))), attached_controller)"
    by (simp add: Detach_all_def attached_controller_def on_sys_def detach_task_def task_stop_def on_task_def Stop_task_def
        ex_task_def failing_kill_def line_ops_def ptrace_ops.defs bindS_def wrapS_def)
  moreover have "attached attached_controller" "has_streams attached_controller" "attached_controller\<lparr>sys := (sys attached_controller)\<lparr>world := []\<rparr>\<rparr> = attached_controller"
    by (simp_all add: attached_controller_def)
  moreover have "c_close_streams failing_kill = (\<lambda>w. w)" "world (sys attached_controller) = []"
    by (simp_all add: failing_kill_def line_ops_def attached_controller_def)
  ultimately show ?thesis by (simp add: End_def)
qed

theorem End_hides_controller_error_witness:
  "Worker_End failing_kill (noting []) (ex_started\<lparr>wk_controller := Some attached_controller\<rparr>, []) =
     (Inr (), (ex_started\<lparr>wk_controller := Some attached_controller\<rparr>, [''kill'', ''exited'', ''delete task'', ''delete container'']))"
proof -
  obtain e where e: "End failing_kill attached_controller = (Inl (Returned e), attached_controller)"
    using ex_failed_End by blast
  have "Worker_End failing_kill (noting []) (ex_started\<lparr>wk_controller := Some attached_controller\<rparr>, []) =
     (Inr (), ((ex_started\<lparr>wk_controller := Some attached_controller\<rparr>)\<lparr>wk_controller := Some attached_controller\<rparr>,
       [''kill'', ''exited'', ''delete task'', ''delete container'']))"
    by (rule End_hides_controller_error [OF _ _ e, where t = "Container_task 2" and ch = 3 and h = 1
        and ?k1.0 = "[''kill'']" and ?k2.0 = "[''kill'', ''exited'']" and ?k3.0 = "[''kill'', ''exited'', ''delete task'']"])
      (simp_all add: ex_started_def noting_def noted_def task_Kill_def task_Delete_def)
  then show ?thesis by simp
qed

lemma line_End: "End line_ops (SetStreams c) = (Inr (), SetStreams c)" if "\<not> attached c"
  using that by (simp add: End_def SetStreams_def line_ops_def)

theorem End_of_gone_task_keeps_container_witness:
  "Worker_End line_ops (noting [''kill'']) (ex_started\<lparr>wk_controller := Some (line_controller [])\<rparr>, []) =
     (Inr (), (ex_started\<lparr>wk_controller := Some (line_controller [])\<rparr>, [''kill'']))"
proof -
  have "\<not> attached (NewController [])" by (simp add: NewController_def)
  from line_End [OF this] have c: "End line_ops (line_controller []) = (Inr (), line_controller [])" by (simp add: line_controller_def)
  have "Worker_End line_ops (noting [''kill'']) (ex_started\<lparr>wk_controller := Some (line_controller [])\<rparr>, []) =
     (Inr (), ((ex_started\<lparr>wk_controller := Some (line_controller [])\<rparr>)\<lparr>wk_controller := Some (line_controller [])\<rparr>, [''kill'']))"
    by (rule End_of_gone_task_keeps_container [OF _ _ c, where t = "Container_task 2" and e = "Ext ''kill''"])
      (simp_all add: ex_started_def noting_def noted_def task_Kill_def)
  then show ?thesis by simp
qed

theorem End_blocks_without_exit_channel_witness:
  "\<exists>m1. start_task (noting [''wait'']) ''/tmp/ip'' 1 (ex_worker, []) =
       (Inl (Returned (Wrapf ''could not create worker task channel'' (Ext ''wait''))), (m1, [''task'', ''wait''])) \<and>
     fst (Worker_End line_ops (noting [''wait'']) (m1, [''task'', ''wait''])) = Inl Blocked"
  by (rule End_blocks_without_exit_channel [where c = "NewController []" and task = 2 and ?k1.0 = "[''task'']"
        and c' = "SetStreams (NewController [])" and ?k3.0 = "[''task'', ''wait'', ''kill'']"])
    (simp_all add: ex_worker_def NewWorkerWithSnapManager_def noting_def noted_def line_End NewController_def)

end
