(* ===== verification/Go_Files.thy ===== *)
theory Go_Files
  imports Go_Text Go_Env "HOL-Library.Sublist"
begin

text \<open>
  The part of Go's standard library that the worker pool uses on files: paths (\<open>path/filepath\<close>), the
  operations of \<open>os\<close> on a tree of files, and \<open>untar\<close> of \<open>invoker/workerpool/workerpool.go\<close> over them.
  Permissions, links and concurrent changes of the tree are left out.
\<close>

section \<open>Paths\<close>

text \<open>An absolute, cleaned path is the list of its components.\<close>

type_synonym path = "string list"

fun resolve :: "path \<Rightarrow> string list \<Rightarrow> path" where
  "resolve p [] = p"
| "resolve p (c # cs) =
     resolve (if c = [] \<or> c = ''.'' then p else if c = ''..'' then butlast p else p @ [c]) cs"

text \<open>\<open>filepath.Join(p, name)\<close> for an absolute \<open>p\<close>: the two are joined and then cleaned.\<close>

definition Join :: "path \<Rightarrow> string \<Rightarrow> path" where
  "Join p name = resolve p (split_on CHR ''/'' name)"

definition plain :: "string \<Rightarrow> bool" where
  "plain c \<longleftrightarrow> c \<noteq> [] \<and> c \<noteq> ''.'' \<and> c \<noteq> ''..'' \<and> CHR ''/'' \<notin> set c"

lemma resolve_append: "resolve p (cs @ ds) = resolve (resolve p cs) ds"
  by (induction p cs rule: resolve.induct) simp_all

lemma resolve_plain: "list_all plain cs \<Longrightarrow> resolve p cs = p @ cs"
  by (induction cs arbitrary: p) (auto simp: plain_def)

lemma resolve_up: "resolve p (replicate n ''..'') = take (length p - n) p"
  by (induction n arbitrary: p) (auto simp: butlast_conv_take min_def)

lemma resolve_inside: "''..'' \<notin> set cs \<Longrightarrow> prefix p (resolve p cs)"
proof (induction cs arbitrary: p)
  case Nil
  then show ?case by simp
next
  case (Cons c cs)
  then have "prefix q (resolve q cs)" for q by simp
  with Cons.prems show ?case by (auto intro: append_prefixD)
qed

lemma Join_plain: "plain c \<Longrightarrow> Join p c = p @ [c]"
  by (simp add: Join_def plain_def split_on_no_sep)

fun slashed :: "string list \<Rightarrow> string" where
  "slashed [] = []"
| "slashed [c] = c"
| "slashed (c # cs) = c @ ''/'' @ slashed cs"

lemma split_on_slashed: "cs \<noteq> [] \<Longrightarrow> list_all (\<lambda>c. CHR ''/'' \<notin> set c) cs \<Longrightarrow> split_on CHR ''/'' (slashed cs) = cs"
  by (induction cs rule: slashed.induct) (auto simp: split_on_no_sep split_on_append)

text \<open>
  \<open>path.Clean\<close> on strings: empty and \<open>.\<close> components go, \<open>..\<close> takes the component before it with it unless
  there is none, and stays at the start of a relative path only.
\<close>

fun clean_elems :: "bool \<Rightarrow> string list \<Rightarrow> string list \<Rightarrow> string list" where
  "clean_elems rooted out [] = out"
| "clean_elems rooted out (c # cs) =
     (if c = [] \<or> c = ''.'' then clean_elems rooted out cs
      else if c \<noteq> ''..'' then clean_elems rooted (out @ [c]) cs
      else if out \<noteq> [] \<and> last out \<noteq> ''..'' then clean_elems rooted (butlast out) cs
      else if rooted then clean_elems rooted out cs
      else clean_elems rooted (out @ [''..'']) cs)"

definition path_Clean :: "string \<Rightarrow> string" where
  "path_Clean p =
     (if has_prefix ''/'' p then ''/'' @ slashed (clean_elems True [] (split_on CHR ''/'' p))
      else let out = clean_elems False [] (split_on CHR ''/'' p) in if out = [] then ''.'' else slashed out)"

text \<open>\<open>path.Join(p, name)\<close> of two strings: empty ones are skipped.\<close>

definition path_Join :: "string \<Rightarrow> string \<Rightarrow> string" where
  "path_Join p name =
     (if p = [] \<and> name = [] then []
      else path_Clean (slashed (filter (\<lambda>s. s \<noteq> []) [p, name])))"

text \<open>For absolute paths the two views agree.\<close>

lemma clean_elems_rooted: "''..'' \<notin> set out \<Longrightarrow> clean_elems True out cs = resolve out cs"
proof (induction cs arbitrary: out)
  case (Cons c cs)
  show ?case
  proof (cases "out = []")
    case False
    with Cons.prems have "last out \<noteq> ''..''" by (metis last_in_set)
    with False Cons show ?thesis by (auto dest: in_set_butlastD)
  qed (use Cons in auto)
qed simp

lemma path_Clean_absolute: "path_Clean (CHR ''/'' # s) = CHR ''/'' # slashed (Join [] s)"
  by (simp add: path_Clean_def clean_elems_rooted Join_def)

section \<open>Files\<close>

datatype node = Dir | File string

type_synonym fs = "path \<Rightarrow> node option"

definition os_exists :: "path \<Rightarrow> fs \<Rightarrow> bool" where
  "os_exists p fs \<longleftrightarrow> fs p \<noteq> None"

fun make_dirs :: "path list \<Rightarrow> (fs, unit) io" where
  "make_dirs [] fs = (Inr (), fs)"
| "make_dirs (q # qs) fs =
     (case fs q of
        Some (File _) \<Rightarrow> (Inl (Returned (Ext ''not a directory'')), fs)
      | Some Dir \<Rightarrow> make_dirs qs fs
      | None \<Rightarrow> make_dirs qs (fs(q \<mapsto> Dir)))"

definition MkdirAll :: "path \<Rightarrow> (fs, unit) io" where
  "MkdirAll p = make_dirs (map (\<lambda>n. take n p) [1..<Suc (length p)])"

text \<open>\<open>os.OpenFile\<close> with \<open>O_CREATE\<close>, and with \<open>O_TRUNC\<close> if \<open>trunc\<close>; \<open>os.Create\<close> truncates.\<close>

definition open_create :: "bool \<Rightarrow> path \<Rightarrow> (fs, unit) io" where
  "open_create trunc p fs =
     (case fs p of
        Some Dir \<Rightarrow> (Inl (Returned (Ext ''is a directory'')), fs)
      | Some (File c) \<Rightarrow> (Inr (), fs(p \<mapsto> File (if trunc then [] else c)))
      | None \<Rightarrow>
          if p \<noteq> [] \<and> fs (butlast p) = Some Dir then (Inr (), fs(p \<mapsto> File []))
          else (Inl (Returned (Ext ''no such file or directory'')), fs))"

text \<open>Writing from the start of a file goes over what is there and leaves the rest.\<close>

definition write_over :: "string \<Rightarrow> string \<Rightarrow> string" where
  "write_over old new = new @ drop (length new) old"

definition content_of :: "node option \<Rightarrow> string" where
  "content_of n = (case n of Some (File c) \<Rightarrow> c | _ \<Rightarrow> [])"

text \<open>
  \<open>io.Copy(f, r)\<close> into a file that has just been opened: what the reader delivers is written, then the
  error of the reader is returned.
\<close>

definition copy_into :: "path \<Rightarrow> string \<Rightarrow> error option \<Rightarrow> (fs, unit) io" where
  "copy_into p new err fs =
     ((case err of None \<Rightarrow> Inr () | Some e \<Rightarrow> Inl (Returned e)), fs(p \<mapsto> File (write_over (content_of (fs p)) new)))"

lemma content_of_simps [simp]: "content_of None = []" "content_of (Some Dir) = []" "content_of (Some (File c)) = c"
  by (simp_all add: content_of_def)

lemma make_dirs_keeps: "make_dirs qs fs = (r, fs') \<Longrightarrow> fs p = Some n \<Longrightarrow> fs' p = Some n"
proof (induction qs arbitrary: fs)
  case Nil
  then show ?case by simp
next
  case (Cons q qs)
  then have "(fs(q \<mapsto> Dir)) p = Some n" if "fs q = None" using that by auto
  with Cons show ?case by (auto split: option.splits node.splits)
qed

lemma make_dirs_outside: "make_dirs qs fs = (r, fs') \<Longrightarrow> p \<notin> set qs \<Longrightarrow> fs' p = fs p"
  by (induction qs fs rule: make_dirs.induct) (auto split: option.splits node.splits)

lemma make_dirs_no_file: "make_dirs qs fs = (r, fs') \<Longrightarrow> fs' p = fs p \<or> fs' p = Some Dir"
  by (induction qs fs rule: make_dirs.induct) (auto split: option.splits node.splits if_splits)

lemma open_create_other: "open_create b p fs = (r, fs') \<Longrightarrow> q \<noteq> p \<Longrightarrow> fs' q = fs q"
  by (auto simp: open_create_def split: option.splits node.splits if_splits)

lemma open_create_keep:
  "open_create False p fs = (Inr (), fs') \<Longrightarrow> fs' = fs(p \<mapsto> File (content_of (fs p))) \<and> fs p \<noteq> Some Dir"
  by (auto simp: open_create_def split: option.splits node.splits if_splits)

section \<open>Unpacking an archive\<close>

text \<open>
  An entry of an archive as \<open>archive/tar\<close> delivers it: its data as far as it can be read and the error that
  reading it ends with. \<open>untar\<close> gets the entries and what \<open>Next\<close> returns after them, \<open>None\<close> for \<open>io.EOF\<close>.
\<close>

datatype tar_type = TypeDir | TypeReg | TypeOther

record tar_entry =
  te_name :: string
  te_type :: tar_type
  te_data :: string
  te_error :: "error option"

definition target_of :: "path \<Rightarrow> tar_entry \<Rightarrow> path" where
  "target_of p e = Join p (te_name e)"

definition untar_entry :: "path \<Rightarrow> tar_entry \<Rightarrow> (fs, unit) io" where
  "untar_entry p e fs =
     (let target = target_of p e in
      case te_type e of
        TypeDir \<Rightarrow> if os_exists target fs then (Inr (), fs) else MkdirAll target fs
      | TypeReg \<Rightarrow> bindS (open_create False target) (\<lambda>_. copy_into target (te_data e) (te_error e)) fs
      | TypeOther \<Rightarrow> (Inr (), fs))"

definition untar :: "path \<Rightarrow> tar_entry list \<Rightarrow> error option \<Rightarrow> (fs, unit) io" where
  "untar p es ending = bindS (eachS (untar_entry p) es) (\<lambda>_. fail_some ending)"

lemma untar_entry_reg:
  assumes "te_type e = TypeReg" and "untar_entry p e fs = (Inr (), fs')"
  shows "fs' = fs(target_of p e \<mapsto> File (write_over (content_of (fs (target_of p e))) (te_data e))) \<and>
     fs (target_of p e) \<noteq> Some Dir"
  using assms by (auto simp: untar_entry_def Let_def bindS_Inr_iff copy_into_def dest!: open_create_keep split: option.splits)

lemma untar_entry_file:
  assumes "untar_entry p e fs = (r, fs')" and "te_type e \<noteq> TypeDir" and "t \<noteq> target_of p e"
  shows "fs' t = fs t"
proof (cases "te_type e = TypeReg")
  case True
  obtain q fs1 where o: "open_create False (target_of p e) fs = (q, fs1)" by (cases "open_create False (target_of p e) fs")
  from open_create_other [OF o assms(3)] True assms(1,3) o show ?thesis
    by (cases q) (auto simp: untar_entry_def Let_def bindS_def copy_into_def)
next
  case False
  with assms(1,2) show ?thesis by (cases "te_type e") (simp_all add: untar_entry_def)
qed

lemma untar_entry_other:
  assumes "untar_entry p e fs = (r, fs')" and "\<not> (te_type e = TypeReg \<and> target_of p e = t)"
  shows "fs' t = fs t \<or> fs t = None \<and> fs' t = Some Dir"
proof (cases "te_type e")
  case TypeDir
  show ?thesis
  proof (cases "os_exists (target_of p e) fs")
    case True
    with TypeDir assms(1) show ?thesis by (simp add: untar_entry_def Let_def)
  next
    case False
    with TypeDir assms(1) have m: "make_dirs (map (\<lambda>n. take n (target_of p e)) [1..<Suc (length (target_of p e))]) fs = (r, fs')"
      by (simp add: untar_entry_def Let_def MkdirAll_def)
    show ?thesis
    proof (cases "fs t")
      case None
      with make_dirs_no_file [OF m, of t] show ?thesis by auto
    next
      case (Some n)
      with make_dirs_keeps [OF m Some] show ?thesis by simp
    qed
  qed
next
  case TypeReg
  with assms untar_entry_file [OF assms(1), of t] show ?thesis by auto
next
  case TypeOther
  with assms show ?thesis by (simp add: untar_entry_def)
qed

lemma untar_entries_other:
  "\<lbrakk> eachS (untar_entry p) es fs = (r, fs'); \<forall>e \<in> set es. \<not> (te_type e = TypeReg \<and> target_of p e = t) \<rbrakk> \<Longrightarrow>
     fs' t = fs t \<or> fs t = None \<and> fs' t = Some Dir"
proof (induction es arbitrary: fs)
  case Nil
  then show ?case by simp
next
  case (Cons e es)
  obtain q fs1 where s: "untar_entry p e fs = (q, fs1)" by (cases "untar_entry p e fs")
  from untar_entry_other [OF s, of t] Cons.prems(2) have fs1: "fs1 t = fs t \<or> fs t = None \<and> fs1 t = Some Dir" by simp
  show ?case
  proof (cases q)
    case (Inl f)
    with Cons.prems(1) s fs1 show ?thesis by (simp add: bindS_def)
  next
    case (Inr u)
    with Cons.prems(1) s have "eachS (untar_entry p) es fs1 = (r, fs')" by (simp add: bindS_def)
    from Cons.IH [OF this] Cons.prems(2) fs1 show ?thesis by auto
  qed
qed

text \<open>
  C33: Unpacking writes what the archive holds: if \<open>untar\<close> succeeds and \<open>e\<close> is the only entry for a regular
  file with its target, then the target is a file that holds the data of \<open>e\<close>, followed by whatever an older
  and longer file at that place held beyond it.
\<close>

theorem untar_writes_data:
  assumes "untar p (es @ e # es') None fs = (Inr (), fs')" and "te_type e = TypeReg"
    and "list_all (\<lambda>d. \<not> (te_type d = TypeReg \<and> target_of p d = target_of p e)) (es @ es')"
  shows "fs' (target_of p e) = Some (File (te_data e @ drop (length (te_data e)) (content_of (fs (target_of p e)))))"
proof -
  let ?t = "target_of p e"
  from assms(1) obtain fs1 fs2 where s1: "eachS (untar_entry p) es fs = (Inr (), fs1)"
    and s2: "untar_entry p e fs1 = (Inr (), fs2)" and s3: "eachS (untar_entry p) es' fs2 = (Inr (), fs')"
    by (auto simp: untar_def eachS_append bindS_Inr_iff)
  from untar_entries_other [OF s1, of ?t] assms(3) have f1: "fs1 ?t = fs ?t \<or> fs ?t = None \<and> fs1 ?t = Some Dir"
    by (simp add: list_all_iff)
  from untar_entry_reg [OF assms(2) s2] have f2: "fs2 ?t = Some (File (write_over (content_of (fs1 ?t)) (te_data e)))"
    "fs1 ?t \<noteq> Some Dir" by auto
  from untar_entries_other [OF s3, of ?t] assms(3) have "fs' ?t = fs2 ?t" using f2 by (auto simp: list_all_iff)
  with f1 f2 show ?thesis by (auto simp: write_over_def)
qed

text \<open>
  C34: An archive whose names have no \<open>..\<close> component is unpacked inside its directory: no other path changes,
  whether \<open>untar\<close> succeeds or not, except that the directories leading to it may be made.
\<close>

theorem untar_stays_inside:
  assumes "untar p es ending fs = (r, fs')" and "list_all (\<lambda>e. ''..'' \<notin> set (split_on CHR ''/'' (te_name e))) es"
    and "\<not> prefix p t" and "\<not> prefix t p"
  shows "fs' t = fs t"
proof -
  have step: "fs2 t = fs1 t" if "untar_entry p e fs1 = (q, fs2)" "e \<in> set es" for e fs1 fs2 q
  proof -
    from assms(2) that(2) have pre: "prefix p (target_of p e)"
      by (auto simp: target_of_def Join_def list_all_iff intro: resolve_inside)
    then have ne: "t \<noteq> target_of p e" using assms(3) by auto
    have "t \<notin> set (map (\<lambda>n. take n (target_of p e)) [1..<Suc (length (target_of p e))])"
    proof
      assume "t \<in> set (map (\<lambda>n. take n (target_of p e)) [1..<Suc (length (target_of p e))])"
      then obtain n where "t = take n (target_of p e)" by auto
      then have "prefix t (target_of p e)" by (simp add: take_is_prefix)
      with pre have "prefix p t \<or> prefix t p" using prefix_same_cases by blast
      with assms(3,4) show False by simp
    qed
    note outside = make_dirs_outside [OF _ this]
    show ?thesis
    proof (cases "te_type e = TypeDir")
      case True
      with that(1) outside show ?thesis by (auto simp: untar_entry_def Let_def MkdirAll_def split: if_splits)
    next
      case False
      with that(1) ne show ?thesis using untar_entry_file [OF that(1)] by blast
    qed
  qed
  have loop: "fs2 t = fs1 t" if "eachS (untar_entry p) ds fs1 = (q, fs2)" "set ds \<subseteq> set es" for ds fs1 fs2 q
    using that
  proof (induction ds arbitrary: fs1)
    case Nil
    then show ?case by simp
  next
    case (Cons d ds)
    obtain q1 f1 where s: "untar_entry p d fs1 = (q1, f1)" by (cases "untar_entry p d fs1")
    with Cons step [OF s] show ?case by (cases q1) (auto simp: bindS_def)
  qed
  obtain q f1 where s: "eachS (untar_entry p) es fs = (q, f1)" by (cases "eachS (untar_entry p) es fs")
  have "fs' = f1" using assms(1) s by (cases q; cases ending) (auto simp: untar_def bindS_def)
  with loop [OF s] show ?thesis by simp
qed

text \<open>A name that leads from \<open>p\<close> to \<open>t\<close>.\<close>

definition escape :: "path \<Rightarrow> path \<Rightarrow> string" where
  "escape p t = slashed (replicate (length p) ''..'' @ t)"

lemma Join_escape:
  assumes "t \<noteq> []" and "list_all plain t"
  shows "Join p (escape p t) = t"
proof -
  have "list_all (\<lambda>c. CHR ''/'' \<notin> set c) t"
    by (rule list.pred_mono_strong [OF assms(2)]) (simp add: plain_def)
  moreover have "list_all (\<lambda>c. CHR ''/'' \<notin> set c) (replicate n ''..'')" for n by (induction n) simp_all
  ultimately have "list_all (\<lambda>c. CHR ''/'' \<notin> set c) (replicate (length p) ''..'' @ t)" by simp
  then have "split_on CHR ''/'' (escape p t) = replicate (length p) ''..'' @ t"
    unfolding escape_def by (rule split_on_slashed [rotated]) (simp add: assms(1))
  then show ?thesis
    unfolding Join_def by (simp only: resolve_append resolve_up resolve_plain [OF assms(2)]) simp
qed

text \<open>
  An archive can write any file of the system, whatever directory it is unpacked in: for every absolute
  path whose directory exists and where there is no directory there is an archive of one entry that puts its
  data there, and \<open>untar\<close> reports success.
\<close>

theorem untar_writes_anywhere:
  assumes "t \<noteq> []" and "list_all plain t" and "fs (butlast t) = Some Dir" and "fs t = None"
  shows "\<exists>name. untar p [\<lparr>te_name = name, te_type = TypeReg, te_data = data, te_error = None\<rparr>] None fs =
     (Inr (), fs(t \<mapsto> File data))"
proof
  show "untar p [\<lparr>te_name = escape p t, te_type = TypeReg, te_data = data, te_error = None\<rparr>] None fs =
     (Inr (), fs(t \<mapsto> File data))"
  proof -
    let ?e = "\<lparr>te_name = escape p t, te_type = TypeReg, te_data = data, te_error = None\<rparr>"
    have t: "target_of p ?e = t" using Join_escape [OF assms(1,2)] by (simp add: target_of_def)
    have "open_create False t fs = (Inr (), fs(t \<mapsto> File []))" using assms by (simp add: open_create_def)
    then have "untar_entry p ?e fs = (Inr (), fs(t \<mapsto> File data))"
      unfolding untar_entry_def t by (simp add: bindS_def copy_into_def write_over_def)
    then show ?thesis by (simp add: untar_def bindS_def)
  qed
qed

section \<open>Examples\<close>

definition ex_fs :: fs where
  "ex_fs = [[] \<mapsto> Dir, [''d''] \<mapsto> Dir, [''d'', ''f''] \<mapsto> File ''longer'', [''etc''] \<mapsto> Dir]"

definition reg :: "string \<Rightarrow> string \<Rightarrow> tar_entry" where
  "reg name d = \<lparr>te_name = name, te_type = TypeReg, te_data = d, te_error = None\<rparr>"

lemma ex_join: "Join [''d''] ''f'' = [''d'', ''f'']" "Join [''d''] ''../etc/passwd'' = [''etc'', ''passwd'']"
  by (simp_all add: Join_def)

lemma ex_untar: "untar [''d''] [reg ''f'' ''new''] None ex_fs = (Inr (), ex_fs([''d'', ''f''] \<mapsto> File ''newger''))"
  by (simp add: untar_def untar_entry_def target_of_def reg_def ex_join bindS_def open_create_def copy_into_def
      write_over_def ex_fs_def)

theorem untar_writes_data_witness: "(ex_fs([''d'', ''f''] \<mapsto> File ''newger'')) [''d'', ''f''] = Some (File (''new'' @ drop 3 ''longer''))"
  using untar_writes_data [of "[''d'']" "[]" "reg ''f'' ''new''" "[]" ex_fs] ex_untar
  by (simp add: target_of_def reg_def ex_join ex_fs_def)

theorem untar_stays_inside_witness: "(ex_fs([''d'', ''f''] \<mapsto> File ''newger'')) [''etc''] = ex_fs [''etc'']"
  by (rule untar_stays_inside [OF ex_untar]) (simp_all add: reg_def)

theorem untar_writes_anywhere_witness:
  "\<exists>name. untar [''d''] [\<lparr>te_name = name, te_type = TypeReg, te_data = ''root'', te_error = None\<rparr>] None ex_fs =
     (Inr (), ex_fs([''etc'', ''passwd''] \<mapsto> File ''root''))"
  by (rule untar_writes_anywhere) (simp_all add: plain_def ex_fs_def)

end
