(* ===== verification/Worker_Pool.thy ===== *)
theory Worker_Pool
  imports Scheduler Worker_Core Go_Files
begin

text \<open>
  \<open>invoker/workerpool/workerpool.go\<close> and the configuration of \<open>worker/containerdrunner\<close>: the pool downloads
  the runtimes and layers, starts containerd and, for each group of its configuration, workers with a
  scheduler. The file tree is \<open>Go_Files\<close>; the network, the archive and TOML formats and the processes are
  the parameter \<open>pool_ops\<close>.
\<close>

section \<open>The world of a pool\<close>

text \<open>The files, the workers by the number of their group and their name, and everything else.\<close>

record ('w, 'k) pool_world =
  pw_fs :: fs
  pw_workers :: "nat \<Rightarrow> string \<Rightarrow> 'w worker option"
  pw_env :: 'k

text \<open>The body of a response: its bytes and the error that reading it ends with.\<close>

record http_body =
  hb_bytes :: string
  hb_error :: "error option"

record containerd_config =
  cc_root :: path
  cc_state :: path
  cc_subreaper :: bool
  cc_oom_score :: int
  cc_grpc_address :: path
  cc_debug_address :: path
  cc_debug_level :: string
  cc_disabled_plugins :: "string list"
  cc_shim_debug :: bool
  cc_run_dir :: string

definition ContainerdConfig :: "path \<Rightarrow> containerd_config" where
  "ContainerdConfig containerdDataDir =
     \<lparr>cc_root = Join containerdDataDir ''root'', cc_state = Join containerdDataDir ''state'', cc_subreaper = True,
      cc_oom_score = - 999, cc_grpc_address = Join containerdDataDir ''containerd.sock'',
      cc_debug_address = Join containerdDataDir ''debug.sock'', cc_debug_level = ''debug'',
      cc_disabled_plugins = [''cri''], cc_shim_debug = True, cc_run_dir = []\<rparr>"

text \<open>
  \<open>NewSession\<close> starts the same server for the tests of the repository. What it uses of the operating system and of
  Gomega's \<open>gexec\<close> is the parameter; \<open>Expect\<close> of Gomega panics in a failed test, as \<open>mustS\<close> does.
\<close>

record 'k session_ops =
  se_OpenFile :: "path \<Rightarrow> ('k, nat) io"
  se_Encode :: "nat \<Rightarrow> containerd_config \<Rightarrow> ('k, unit) io"
  se_Close :: "nat \<Rightarrow> ('k, unit) io"
  se_Environ :: "'k \<Rightarrow> string list"
  se_Path :: "'k \<Rightarrow> string"
  se_Start :: "string list \<Rightarrow> string list \<Rightarrow> ('k, nat) io"

definition NewSession :: "'k session_ops \<Rightarrow> path \<Rightarrow> containerd_config \<Rightarrow> ('k, nat) io" where
  "NewSession se runDir config =
     (let file = Join runDir ''containerd.toml'' in
      bindS (mustS (se_OpenFile se file)) (\<lambda>configFile.
      bindS (mustS (se_Encode se configFile config)) (\<lambda>_.
      bindS (mustS (se_Close se configFile)) (\<lambda>_.
      bindS (askS (\<lambda>k. se_Environ se k @ [''PATH='' @ se_Path se k @ '':'' @ ''/usr/local/bin''])) (\<lambda>cmdEnv.
      mustS (se_Start se [''containerd'', ''--config'', CHR ''/'' # slashed file] cmdEnv))))))"

text \<open>A test never goes on with a server that could not be configured or started.\<close>

lemma bindS_no_error:
  "\<lbrakk> \<And>s e. fst (m s) \<noteq> Inl (Returned e); \<And>x s e. fst (f x s) \<noteq> Inl (Returned e) \<rbrakk> \<Longrightarrow> fst (bindS m f s) \<noteq> Inl (Returned e)"
  by (cases "m s"; cases "fst (m s)") (auto simp: bindS_def, (metis fst_conv)+)

lemma must_no_error: "must r \<noteq> Inl (Returned e)"
  by (cases r rule: must.cases) simp_all

lemma mustS_no_error: "fst (mustS f s) \<noteq> Inl (Returned e)"
  by (cases "f s") (simp add: mustS_def must_no_error)

lemma NewSession_no_error: "fst (NewSession se runDir config k) \<noteq> Inl (Returned e)"
  unfolding NewSession_def Let_def by (intro bindS_no_error mustS_no_error) simp_all

record ('w, 'k) pool_ops =
  po_ctrl :: "'w ctrl_ops"
  po_worker :: "'k worker_env"
  po_http :: "string \<Rightarrow> ('k, http_body) io"
  po_tar :: "http_body \<Rightarrow> tar_entry list \<times> error option"
  po_TempDir :: "('k, path) io"
  po_toml :: "containerd_config \<Rightarrow> error + string"
  po_exec :: "path \<Rightarrow> ('k, nat) io"
  po_dial :: "path \<Rightarrow> ('k, nat) io"
  po_close_client :: "nat \<Rightarrow> ('k, unit) io"
  po_kill_server :: "nat \<Rightarrow> ('k, unit) io"
  po_wait_server :: "nat \<Rightarrow> ('k, unit) io"
  po_fresh :: "nat \<Rightarrow> string \<Rightarrow> 'w"
  po_now :: "'k \<Rightarrow> int"

definition on_fs :: "(fs, 'a) io \<Rightarrow> (('w, 'k) pool_world, 'a) io" where
  "on_fs f w = (case f (pw_fs w) of (r, x) \<Rightarrow> (r, w\<lparr>pw_fs := x\<rparr>))"

definition on_env :: "('k, 'a) io \<Rightarrow> (('w, 'k) pool_world, 'a) io" where
  "on_env f w = (case f (pw_env w) of (r, x) \<Rightarrow> (r, w\<lparr>pw_env := x\<rparr>))"

definition on_worker :: "nat \<Rightarrow> string \<Rightarrow> (('w, 'k) worker_sys, 'a) io \<Rightarrow> (('w, 'k) pool_world, 'a) io" where
  "on_worker gi d f w =
     (case pw_workers w gi d of
        None \<Rightarrow> (Inl nil_pointer, w)
      | Some m \<Rightarrow>
          (case f (m, pw_env w) of
             (r, (m', k)) \<Rightarrow>
               (r, w\<lparr>pw_workers := (pw_workers w)(gi := (pw_workers w gi)(d \<mapsto> m')), pw_env := k\<rparr>)))"

section \<open>Downloads\<close>

definition peek :: "nat \<Rightarrow> http_body \<Rightarrow> string res" where
  "peek n body =
     (if n \<le> length (hb_bytes body) then Inr (take n (hb_bytes body))
      else Inl (Returned (case hb_error body of None \<Rightarrow> Ext ''EOF'' | Some e \<Rightarrow> e)))"

definition bucket :: string where
  "bucket = ''https://s3.eu-west-2.amazonaws.com/refunction-runtimes/''"

definition downloadRuntime :: "('w, 'k) pool_ops \<Rightarrow> path \<Rightarrow> string \<Rightarrow> (('w, 'k) pool_world, unit) io" where
  "downloadRuntime ops workDir rt =
     (let runtimePath = Join workDir (''runtimes/'' @ rt) in
      bindS (wrapS (''could not make runtimePath '' @ rt) (on_fs (MkdirAll runtimePath))) (\<lambda>_.
      bindS (on_env (po_http ops (bucket @ rt @ ''.tar''))) (\<lambda>body.
      bindS (wrapS ''received runtime too small to peek'' (liftS (peek 150 body))) (\<lambda>firstSection.
      if contains firstSection ''AccessDenied''
      then errS (''runtime '' @ rt @ '' could not be donwnloaded/did not exist'')
      else wrapS (''could not untar runtime '' @ rt)
             (on_fs (untar runtimePath (fst (po_tar ops body)) (snd (po_tar ops body))))))))"

text \<open>The file of the layer is truncated before the first bytes of the response are looked at.\<close>

definition layer_file :: "path \<Rightarrow> string \<Rightarrow> path" where
  "layer_file workDir layerName = Join workDir (''activelayers/'' @ layerName) @ [''layer.tar'']"

definition downloadLayer :: "('w, 'k) pool_ops \<Rightarrow> path \<Rightarrow> string \<Rightarrow> (('w, 'k) pool_world, unit) io" where
  "downloadLayer ops workDir layerName =
     bindS (wrapS (''could not create layer '' @ layerName @ '' dir'')
       (on_fs (MkdirAll (Join workDir (''activelayers/'' @ layerName))))) (\<lambda>_.
     bindS (on_env (po_http ops (bucket @ ''layers/'' @ layerName @ ''/layer.tar''))) (\<lambda>body.
     bindS (on_fs (open_create True (layer_file workDir layerName))) (\<lambda>_.
     bindS (wrapS ''received layer too small to peek'' (liftS (peek 150 body))) (\<lambda>firstSection.
     if contains firstSection ''AccessDenied''
     then errS (''layer '' @ layerName @ '' could not be donwnloaded/did not exist'')
     else on_fs (copy_into (layer_file workDir layerName) (hb_bytes body) (hb_error body))))))"

definition ensureRuntimes :: "('w, 'k) pool_ops \<Rightarrow> string list \<Rightarrow> path \<Rightarrow> (('w, 'k) pool_world, unit) io" where
  "ensureRuntimes ops rts workDir =
     bindS (replaceS ''could not create runtime cache dir'' (on_fs (MkdirAll (Join workDir ''runtimes'')))) (\<lambda>_.
     eachS (\<lambda>rt. wrapS (''could not download '' @ rt) (downloadRuntime ops workDir rt)) rts)"

definition ensureLayers :: "('w, 'k) pool_ops \<Rightarrow> string list \<Rightarrow> path \<Rightarrow> (('w, 'k) pool_world, unit) io" where
  "ensureLayers ops ls workDir =
     bindS (replaceS ''could not create layers cache dir'' (on_fs (MkdirAll (Join workDir ''activelayers'')))) (\<lambda>_.
     eachS (\<lambda>l. wrapS (''could not download '' @ l) (downloadLayer ops workDir l)) ls)"

section \<open>Making a pool\<close>

record group_config =
  g_size :: int
  g_runtime :: string
  g_layer :: string

record pool_handle =
  wp_server :: nat
  wp_client :: nat
  wp_config :: containerd_config
  wp_runDir :: path
  wp_schedulers :: "string \<Rightarrow> (nat \<times> scheduler) option"

definition NewContainerdServer :: "('w, 'k) pool_ops \<Rightarrow> path \<Rightarrow> containerd_config \<Rightarrow> (('w, 'k) pool_world, nat) io" where
  "NewContainerdServer ops runDir config =
     (let file = Join runDir ''containerd.toml'' in
      bindS (wrapS ''could not open config file'' (on_fs (open_create True file))) (\<lambda>_.
      bindS (wrapS ''could not encode config'' (liftS (of_sum (po_toml ops config)))) (\<lambda>toml.
      bindS (wrapS ''could not encode config'' (on_fs (copy_into file toml None))) (\<lambda>_.
      wrapS ''could exec containerd'' (on_env (po_exec ops file))))))"

text \<open>\<open>make([]*worker.Worker, size)\<close> panics for a negative size.\<close>

definition worker_ids :: "int \<Rightarrow> string list res" where
  "worker_ids n =
     (if n < 0 then Inl (Panicked ''makeslice: len out of range'')
      else Inr (map (\<lambda>i. Itoa (int i)) [0..<nat n]))"

definition add_worker :: "('w, 'k) pool_ops \<Rightarrow> nat \<Rightarrow> group_config \<Rightarrow> string \<Rightarrow> (('w, 'k) pool_world, unit) io" where
  "add_worker ops gi g d w =
     (Inr (), w\<lparr>pw_workers := (pw_workers w)(gi := (pw_workers w gi)(d \<mapsto>
        NewWorkerWithSnapManager d (g_runtime g) (g_layer g) (po_fresh ops gi d)))\<rparr>)"

definition start_worker :: "('w, 'k) pool_ops \<Rightarrow> nat \<Rightarrow> string \<Rightarrow> (('w, 'k) pool_world, unit) io" where
  "start_worker ops gi d =
     bindS (wrapS ''could not start worker'' (on_worker gi d (Worker_Start (po_worker ops)))) (\<lambda>_.
     wrapS ''could not activate worker'' (on_worker gi d (Worker_Activate (po_ctrl ops))))"

definition new_group :: "('w, 'k) pool_ops \<Rightarrow> nat \<Rightarrow> group_config \<Rightarrow> (('w, 'k) pool_world, scheduler) io" where
  "new_group ops gi g =
     bindS (on_env (NewSnapshotManager (we_snap (po_worker ops)) (g_runtime g))) (\<lambda>snapManager.
     bindS (on_env (CreateLayerFromBase (we_snap (po_worker ops)) snapManager (g_layer g))) (\<lambda>_.
     bindS (liftS (worker_ids (g_size g))) (\<lambda>ids.
     bindS (eachS (add_worker ops gi g) ids) (\<lambda>_.
     bindS (eachS (start_worker ops gi) ids) (\<lambda>_.
     retS (NewScheduler ids (g_runtime g)))))))"

fun new_groups :: "('w, 'k) pool_ops \<Rightarrow> nat \<Rightarrow> group_config list \<Rightarrow> (string \<Rightarrow> (nat \<times> scheduler) option) \<Rightarrow>
    (('w, 'k) pool_world, string \<Rightarrow> (nat \<times> scheduler) option) io" where
  "new_groups ops gi [] ss = retS ss"
| "new_groups ops gi (g # gs) ss =
     bindS (new_group ops gi g) (\<lambda>s. new_groups ops (Suc gi) gs (ss(g_runtime g \<mapsto> (gi, s))))"

definition cacheDir :: path where "cacheDir = [''var'', ''cache'', ''refunction'']"

definition NewWorkerPool :: "('w, 'k) pool_ops \<Rightarrow> group_config list \<Rightarrow> (('w, 'k) pool_world, pool_handle) io" where
  "NewWorkerPool ops groups =
     bindS (wrapS ''could not create temp dir for worker pool'' (on_env (po_TempDir ops))) (\<lambda>runDir.
     bindS (on_fs (\<lambda>fs. (Inr (), fs(runDir \<mapsto> Dir)))) (\<lambda>_.
     bindS (ensureRuntimes ops (map g_runtime groups) cacheDir) (\<lambda>_.
     bindS (ensureLayers ops (map g_layer groups) cacheDir) (\<lambda>_.
     bindS (wrapS ''could not start contianerd server''
       (NewContainerdServer ops runDir (ContainerdConfig runDir))) (\<lambda>server.
     bindS (wrapS ''could not connect to containerd client''
       (on_env (po_dial ops (cc_grpc_address (ContainerdConfig runDir))))) (\<lambda>client.
     bindS (new_groups ops 0 groups (\<lambda>_. None)) (\<lambda>schedulers.
     retS \<lparr>wp_server = server, wp_client = client, wp_config = ContainerdConfig runDir, wp_runDir = runDir,
           wp_schedulers = schedulers\<rparr>)))))))"

section \<open>Using a pool\<close>

text \<open>The methods that the scheduler of group \<open>gi\<close> calls on its workers.\<close>

definition real_ops :: "('w, 'k) pool_ops \<Rightarrow> nat \<Rightarrow> ('w, 'k) pool_world worker_ops" where
  "real_ops ops gi =
     \<lparr>w_send_function = (\<lambda>d code. on_worker gi d (Worker_SendFunction (po_ctrl ops) code)),
      w_send_request = (\<lambda>d request. on_worker gi d (Worker_SendRequest (po_ctrl ops) request)),
      w_restore = (\<lambda>d. on_worker gi d (Worker_Restore (po_ctrl ops))),
      w_end = (\<lambda>d. on_worker gi d (Worker_End (po_ctrl ops) (po_worker ops))),
      w_now = (\<lambda>w. po_now ops (pw_env w))\<rparr>"

type_synonym ('w, 'k) pool_sys = "pool_handle \<times> ('w, 'k) pool_world"

definition with_scheduler :: "string \<Rightarrow> (nat \<Rightarrow> (('w, 'k) pool_world sched_sys, 'a) io) \<Rightarrow> (('w, 'k) pool_sys, 'a) io" where
  "with_scheduler rt f = (\<lambda>(p, w).
     case wp_schedulers p rt of
       None \<Rightarrow> (Inl nil_pointer, (p, w))
     | Some (gi, s) \<Rightarrow>
         (case f gi (s, w) of
            (r, (s', w')) \<Rightarrow> (r, (p\<lparr>wp_schedulers := (wp_schedulers p)(rt \<mapsto> (gi, s'))\<rparr>, w'))))"

text \<open>The first runtime, in the order in which the map is visited, whose name occurs in the kind.\<close>

definition pick_runtime :: "string list \<Rightarrow> string \<Rightarrow> string option" where
  "pick_runtime order kind = find (\<lambda>rt. contains kind rt) order"

definition Pool_Run :: "('w, 'k) pool_ops \<Rightarrow> nat \<Rightarrow> string list \<Rightarrow> function_doc \<Rightarrow> json \<Rightarrow> (('w, 'k) pool_sys, json) io" where
  "Pool_Run ops n order function request =
     (case pick_runtime order (e_kind (f_exec function)) of
        None \<Rightarrow> errS (''no such kind of runtime: '' @ e_kind (f_exec function))
      | Some rt \<Rightarrow> with_scheduler rt (\<lambda>gi. Run (real_ops ops gi) n function request))"

definition remove_all :: "path \<Rightarrow> fs \<Rightarrow> fs" where
  "remove_all p fs = (\<lambda>q. if prefix p q then None else fs q)"

definition Pool_Close :: "('w, 'k) pool_ops \<Rightarrow> string list \<Rightarrow> (('w, 'k) pool_sys, unit) io" where
  "Pool_Close ops order =
     bindS (last_errS (\<lambda>rt. with_scheduler rt (\<lambda>gi. Scheduler_End (real_ops ops gi))) order None) (\<lambda>workerErr.
     bindS (fail_some workerErr) (\<lambda>_ (p, w).
     env (bindS (on_env (po_close_client ops (wp_client p))) (\<lambda>_.
          bindS (on_env (po_kill_server ops (wp_server p))) (\<lambda>_.
          bindS (loggedS (on_env (po_wait_server ops (wp_server p)))) (\<lambda>_.
          on_fs (\<lambda>fs. (Inr (), remove_all (wp_runDir p) fs)))))) (p, w)))"

section \<open>Dispatch\<close>

text \<open>
  C35: Which scheduler runs a function does not depend on the order in which Go visits the map exactly if at
  most one runtime of the pool has a name that occurs in the kind of the function. With the runtimes
  \<open>python\<close> and \<open>alpinepython\<close>, for instance, it does depend on it.
\<close>

theorem pick_runtime_unique:
  "(\<forall>o1 o2. mset o1 = mset rts \<longrightarrow> mset o2 = mset rts \<longrightarrow> pick_runtime o1 kind = pick_runtime o2 kind) \<longleftrightarrow>
   (\<forall>r1 \<in> set rts. \<forall>r2 \<in> set rts. contains kind r1 \<longrightarrow> contains kind r2 \<longrightarrow> r1 = r2)"
proof
  assume same: "\<forall>o1 o2. mset o1 = mset rts \<longrightarrow> mset o2 = mset rts \<longrightarrow> pick_runtime o1 kind = pick_runtime o2 kind"
  show "\<forall>r1 \<in> set rts. \<forall>r2 \<in> set rts. contains kind r1 \<longrightarrow> contains kind r2 \<longrightarrow> r1 = r2"
  proof (intro ballI impI)
    fix r1 r2
    assume r: "r1 \<in> set rts" "r2 \<in> set rts" "contains kind r1" "contains kind r2"
    have "mset (r1 # remove1 r1 rts) = mset rts" "mset (r2 # remove1 r2 rts) = mset rts" using r by simp_all
    with same have "pick_runtime (r1 # remove1 r1 rts) kind = pick_runtime (r2 # remove1 r2 rts) kind" by blast
    with r show "r1 = r2" by (simp add: pick_runtime_def)
  qed
next
  assume unique: "\<forall>r1 \<in> set rts. \<forall>r2 \<in> set rts. contains kind r1 \<longrightarrow> contains kind r2 \<longrightarrow> r1 = r2"
  show "\<forall>o1 o2. mset o1 = mset rts \<longrightarrow> mset o2 = mset rts \<longrightarrow> pick_runtime o1 kind = pick_runtime o2 kind"
  proof (intro allI impI)
    fix o1 o2
    assume o: "mset o1 = mset rts" "mset o2 = mset rts"
    then have s: "set o1 = set rts" "set o2 = set rts" by (metis set_mset_mset)+
    show "pick_runtime o1 kind = pick_runtime o2 kind"
    proof (cases "pick_runtime o1 kind")
      case None
      then have "pick_runtime o2 kind = None" using s by (auto simp: pick_runtime_def find_None_iff)
      with None show ?thesis by simp
    next
      case (Some r1)
      then have r1: "r1 \<in> set rts" "contains kind r1" using s by (auto simp: pick_runtime_def find_Some_iff)
      then obtain r2 where r2: "pick_runtime o2 kind = Some r2"
        using s by (cases "pick_runtime o2 kind") (auto simp: pick_runtime_def find_None_iff)
      then have "r2 \<in> set rts" "contains kind r2" using s by (auto simp: pick_runtime_def find_Some_iff)
      with unique r1 Some r2 show ?thesis by auto
    qed
  qed
qed

section \<open>The schedulers of a new pool\<close>

text \<open>The schedulers that the loop over the groups leaves in the map.\<close>

fun group_schedulers :: "nat \<Rightarrow> group_config list \<Rightarrow> (string \<Rightarrow> (nat \<times> scheduler) option) \<Rightarrow> string \<Rightarrow> (nat \<times> scheduler) option" where
  "group_schedulers gi [] ss = ss"
| "group_schedulers gi (g # gs) ss = group_schedulers (Suc gi) gs
     (ss(g_runtime g \<mapsto> (gi, NewScheduler (map (\<lambda>i. Itoa (int i)) [0..<nat (g_size g)]) (g_runtime g))))"

lemma new_group_Inr:
  "new_group ops gi g w = (Inr s, w') \<Longrightarrow>
     0 \<le> g_size g \<and> s = NewScheduler (map (\<lambda>i. Itoa (int i)) [0..<nat (g_size g)]) (g_runtime g)"
  by (auto simp: new_group_def bindS_Inr_iff worker_ids_def split: if_splits)

lemma new_groups_Inr:
  "new_groups ops gi gs ss w = (Inr ss', w') \<Longrightarrow> ss' = group_schedulers gi gs ss \<and> list_all (\<lambda>g. 0 \<le> g_size g) gs"
proof (induction gs arbitrary: gi ss w)
  case Nil
  then show ?case by simp
next
  case (Cons g gs)
  then obtain s w1 where s: "new_group ops gi g w = (Inr s, w1)"
    and rest: "new_groups ops (Suc gi) gs (ss(g_runtime g \<mapsto> (gi, s))) w1 = (Inr ss', w')"
    by (auto simp: bindS_Inr_iff)
  from Cons.IH [OF rest] new_group_Inr [OF s] show ?case by (simp add: fun_upd_def)
qed

lemma group_schedulers_at:
  "group_schedulers gi gs ss rt = Some (k, s) \<Longrightarrow>
     ss rt = Some (k, s) \<and> rt \<notin> g_runtime ` set gs \<or>
     (\<exists>i < length gs. k = gi + i \<and> g_runtime (gs ! i) = rt \<and> rt \<notin> g_runtime ` set (drop (Suc i) gs) \<and>
        s = NewScheduler (map (\<lambda>i. Itoa (int i)) [0..<nat (g_size (gs ! i))]) rt)"
proof (induction gs arbitrary: gi ss)
  case Nil
  then show ?case by simp
next
  case (Cons g gs)
  let ?s = "NewScheduler (map (\<lambda>i. Itoa (int i)) [0..<nat (g_size g)]) (g_runtime g)"
  from Cons.prems have "group_schedulers (Suc gi) gs (ss(g_runtime g \<mapsto> (gi, ?s))) rt = Some (k, s)" by simp
  from Cons.IH [OF this] consider
      "(ss(g_runtime g \<mapsto> (gi, ?s))) rt = Some (k, s)" "rt \<notin> g_runtime ` set gs"
    | i where "i < length gs" "k = Suc gi + i" "g_runtime (gs ! i) = rt" "rt \<notin> g_runtime ` set (drop (Suc i) gs)"
        "s = NewScheduler (map (\<lambda>i. Itoa (int i)) [0..<nat (g_size (gs ! i))]) rt" by blast
  then show ?case
  proof cases
    case 1
    show ?thesis
    proof (cases "rt = g_runtime g")
      case True
      with 1 show ?thesis by (intro disjI2 exI [of _ 0]) auto
    next
      case False
      with 1 show ?thesis by auto
    qed
  next
    case (2 i)
    then show ?thesis by (intro disjI2 exI [of _ "Suc i"]) auto
  qed
qed

lemma NewWorkerPool_Inr:
  assumes "NewWorkerPool ops groups w = (Inr p, w')"
  shows "wp_schedulers p = group_schedulers 0 groups (\<lambda>_. None) \<and> list_all (\<lambda>g. 0 \<le> g_size g) groups"
  using assms by (auto simp: NewWorkerPool_def bindS_Inr_iff dest!: new_groups_Inr)


section \<open>Downloading again\<close>

text \<open>
  A failed download destroys the cached layer: when the response is too short or denies access,
  \<open>downloadLayer\<close> returns an error, but the layer that was cached is an empty file.
\<close>

theorem failed_download_empties_layer:
  assumes "MkdirAll (Join workDir (''activelayers/'' @ l)) (pw_fs w) = (Inr (), pw_fs w)"
    and "po_http ops (bucket @ ''layers/'' @ l @ ''/layer.tar'') (pw_env w) = (Inr body, k)"
    and "length (hb_bytes body) < 150 \<or> contains (take 150 (hb_bytes body)) ''AccessDenied''"
    and "pw_fs w (layer_file workDir l) = Some (File cached)"
  shows "\<exists>e w'. downloadLayer ops workDir l w = (Inl (Returned e), w') \<and>
     pw_fs w' (layer_file workDir l) = Some (File [])"
proof -
  let ?w1 = "w\<lparr>pw_env := k\<rparr>"
  let ?w2 = "?w1\<lparr>pw_fs := (pw_fs w)(layer_file workDir l \<mapsto> File [])\<rparr>"
  have m: "on_fs (MkdirAll (Join workDir (''activelayers/'' @ l))) w = (Inr (), w)"
    unfolding on_fs_def assms(1) prod.case by simp
  have h: "on_env (po_http ops (bucket @ ''layers/'' @ l @ ''/layer.tar'')) w = (Inr body, ?w1)" by (simp only: on_env_def assms(2) prod.case)
  have o: "on_fs (open_create True (layer_file workDir l)) ?w1 = (Inr (), ?w2)"
    by (simp add: on_fs_def open_create_def assms(4))
  have run: "downloadLayer ops workDir l w =
      bindS (wrapS ''received layer too small to peek'' (liftS (peek 150 body))) (\<lambda>firstSection.
        if contains firstSection ''AccessDenied'' then errS (''layer '' @ l @ '' could not be donwnloaded/did not exist'')
        else on_fs (copy_into (layer_file workDir l) (hb_bytes body) (hb_error body))) ?w2"
    unfolding downloadLayer_def bindS_def wrapS_def m h o prod.case wrap_res.simps sum.case by simp
  have "\<exists>e. downloadLayer ops workDir l w = (Inl (Returned e), ?w2)"
  proof (cases "150 \<le> length (hb_bytes body)")
    case True
    with assms(3) show ?thesis unfolding run by (simp add: bindS_def wrapS_def peek_def)
  next
    case False
    then show ?thesis unfolding run by (simp add: bindS_def wrapS_def peek_def)
  qed
  then show ?thesis by auto
qed

section \<open>From the pool to the process\<close>

lemma run_deployed_Inr:
  assumes "running s = rs @ [d]" and "d \<notin> set rs" and "w_send_request ops d request w = (Inr v, w')"
  shows "run_deployed ops d request (s, w) =
     (Inr v, ((MarkRunTime d (w_now ops w) s)\<lparr>running := rs, deployed := deployed s @ [d]\<rparr>, w'))"
proof -
  let ?s = "MarkRunTime d (w_now ops w) s"
  have "running ?s = rs @ [d]" "deployed ?s = deployed s" using assms(1) by (simp_all add: MarkRunTime_def)
  from RunComplete_added [OF this(1) assms(2)] this(2) assms(3) show ?thesis
    by (simp add: run_deployed_def bindS_def modify_def tryS_def in_pool_def complete_def reply_of_def)
qed

lemma RunDeployedFunction_shape:
  assumes "RunDeployedFunction f s = (Some d, s1)"
  shows "GetFunction s d = Some f" and "\<exists>ds. s1 = s\<lparr>deployed := ds, running := running s @ [d]\<rparr>"
  using RunDeployedFunction_Some(1) [OF assms] assms by (auto simp: RunDeployedFunction_def split: option.splits)

lemma Pool_Run_deployed:
  assumes "pick_runtime order (e_kind (f_exec function)) = Some rt" and "wp_schedulers p rt = Some (gi, s)"
    and "RunDeployedFunction (f_id function) s = (Some d, s1)" and "d \<notin> set (running s)"
    and "pw_workers w gi d = Some m" and "wk_controller m = Some c" and "has_streams c"
    and "output_is (po_ctrl ops) out"
    and "c_marshal (po_ctrl ops) \<lparr>msg_type = ''request'', msg_data = request\<rparr> = Inr line"
    and "c_write (po_ctrl ops) (line @ [CHR 0x0A]) (world (sys c)) = (Inr (), w1)"
    and "wanted (c_unmarshal (po_ctrl ops)) (out w1) = pre @ msg # post"
    and "\<forall>x \<in> set pre. msg_type x \<noteq> ''response''" and "msg_type msg = ''response''"
    and "length (out w1) \<le> p_fuel (po_ctrl ops)" and "length pre < p_fuel (po_ctrl ops)"
  shows "\<exists>s' c'. Pool_Run ops (Suc n) order function request (p, w) =
      (Inr (msg_data msg), (p\<lparr>wp_schedulers := (wp_schedulers p)(rt \<mapsto> (gi, s'))\<rparr>,
         w\<lparr>pw_workers := (pw_workers w)(gi := (pw_workers w gi)(d \<mapsto> m\<lparr>wk_controller := Some c'\<rparr>))\<rparr>)) \<and>
     running s' = running s \<and> d \<in> set (deployed s') \<and> GetFunction s' d = Some (f_id function) \<and>
     wanted (c_unmarshal (po_ctrl ops)) (out (world (sys c'))) = post"
proof -
  from write_then_await [OF assms(8,7,10-15)] obtain w2 where
    "bindS (write_stdin (po_ctrl ops) (line @ [CHR 0x0A])) (\<lambda>_. AwaitMessage (po_ctrl ops) ''response'') c =
       (Inr msg, c\<lparr>sys := (sys c)\<lparr>world := w2\<rparr>\<rparr>)" and post: "wanted (c_unmarshal (po_ctrl ops)) (out w2) = post" by blast
  then have "SendRequest (po_ctrl ops) request c = (Inr (msg_data msg), c\<lparr>sys := (sys c)\<lparr>world := w2\<rparr>\<rparr>)"
    by (auto simp: SendRequest_def marshal_def assms(9) bindS_Inr_iff)
  moreover let ?m' = "m\<lparr>wk_controller := Some (c\<lparr>sys := (sys c)\<lparr>world := w2\<rparr>\<rparr>)\<rparr>"
  let ?w' = "w\<lparr>pw_workers := (pw_workers w)(gi := (pw_workers w gi)(d \<mapsto> ?m'))\<rparr>"
  have "?w'\<lparr>pw_env := pw_env w\<rparr> = ?w'" by (cases w) simp
  ultimately have w': "w_send_request (real_ops ops gi) d request w = (Inr (msg_data msg), ?w')"
    using assms(5,6) by (simp add: real_ops_def on_worker_def Worker_SendRequest_def on_controller_def)
  obtain ds where s1: "s1 = s\<lparr>deployed := ds, running := running s @ [d]\<rparr>"
    using RunDeployedFunction_shape(2) [OF assms(3)] by blast
  let ?s' = "(MarkRunTime d (w_now (real_ops ops gi) w) s1)\<lparr>running := running s, deployed := deployed s1 @ [d]\<rparr>"
  have "running s1 = running s @ [d]" by (simp add: s1)
  from run_deployed_Inr [OF this assms(4) w'] assms(3)
  have run: "Run (real_ops ops gi) (Suc n) function request (s, w) = (Inr (msg_data msg), (?s', ?w'))"
    by (simp add: bindS_def atomic_def)
  have "Pool_Run ops (Suc n) order function request (p, w) =
      (Inr (msg_data msg), (p\<lparr>wp_schedulers := (wp_schedulers p)(rt \<mapsto> (gi, ?s'))\<rparr>, ?w'))"
    unfolding Pool_Run_def assms(1) option.case with_scheduler_def prod.case assms(2) run by simp
  moreover have "GetFunction ?s' d = Some (f_id function)"
    using RunDeployedFunction_shape(1) [OF assms(3)] by (simp add: s1)
  ultimately show ?thesis using post by fastforce
qed

text \<open>
  C10: A request for a function that is deployed goes through the pool to the process and back: \<open>Run\<close> of the
  pool finds the scheduler of the runtime and the worker that has the function, writes the encoded request
  to the process of that worker, and returns the data of the first response the process then sends; the
  worker is deployed again with the same function, no worker is left running, and the messages after the
  response are still to be read.
\<close>

theorem request_reaches_the_process:
  assumes "pick_runtime order (e_kind (f_exec function)) = Some rt" and "wp_schedulers p rt = Some (gi, s)"
    and "RunDeployedFunction (f_id function) s = (Some d, s1)" and "d \<notin> set (running s)"
    and "pw_workers w gi d = Some m" and "wk_controller m = Some c" and "has_streams c"
    and "output_is (po_ctrl ops) out"
    and "c_marshal (po_ctrl ops) \<lparr>msg_type = ''request'', msg_data = request\<rparr> = Inr line"
    and "c_write (po_ctrl ops) (line @ [CHR 0x0A]) (world (sys c)) = (Inr (), w1)"
    and "wanted (c_unmarshal (po_ctrl ops)) (out w1) = pre @ msg # post"
    and "\<forall>x \<in> set pre. msg_type x \<noteq> ''response''" and "msg_type msg = ''response''"
    and "length (out w1) \<le> p_fuel (po_ctrl ops)" and "length pre < p_fuel (po_ctrl ops)"
  shows "\<exists>p' w' s' m' c'.
     Pool_Run ops (Suc n) order function request (p, w) = (Inr (msg_data msg), (p', w')) \<and>
     wp_schedulers p' rt = Some (gi, s') \<and> running s' = running s \<and> d \<in> set (deployed s') \<and>
     GetFunction s' d = Some (f_id function) \<and>
     pw_workers w' gi d = Some m' \<and> wk_controller m' = Some c' \<and>
     wanted (c_unmarshal (po_ctrl ops)) (out (world (sys c'))) = post"
  using Pool_Run_deployed [OF assms, of n] by fastforce

section \<open>Groups are isolated from each other\<close>

text \<open>The files and the workers of the other groups stay as they are, and no worker appears or vanishes.\<close>

definition in_group :: "nat \<Rightarrow> ('w, 'k) pool_world \<Rightarrow> ('w, 'k) pool_world \<Rightarrow> bool" where
  "in_group gi w w' \<longleftrightarrow> pw_fs w' = pw_fs w \<and> (\<forall>gj. gj \<noteq> gi \<longrightarrow> pw_workers w' gj = pw_workers w gj) \<and>
     dom (pw_workers w' gi) = dom (pw_workers w gi)"

lemma on_worker_in_group: "in_group gi w (snd (on_worker gi d f w))"
proof (cases "pw_workers w gi d")
  case None
  then show ?thesis by (simp add: on_worker_def in_group_def)
next
  case (Some m)
  obtain r m' k where "f (m, pw_env w) = (r, (m', k))" by (cases "f (m, pw_env w)") auto
  with Some show ?thesis by (auto simp: on_worker_def in_group_def)
qed

interpretation group_workers: worker_methods "real_ops ops gi" "in_group gi" for ops gi
  by unfold_locales (simp_all add: real_ops_def on_worker_in_group, auto simp: in_group_def)


section \<open>A pool\<close>

definition ex_pool_ops :: "(string list, string list) pool_ops" where
  "ex_pool_ops =
     \<lparr>po_ctrl = line_ops, po_worker = noting [],
      po_http = (\<lambda>url k. (Inr \<lparr>hb_bytes = replicate 150 CHR ''x'', hb_error = None\<rparr>, k)), po_tar = (\<lambda>_. ([], None)),
      po_TempDir = retS [''tmp''], po_toml = (\<lambda>_. Inr []), po_exec = (\<lambda>_. retS 5), po_dial = (\<lambda>_. retS 6),
      po_close_client = (\<lambda>_. retS ()), po_kill_server = (\<lambda>_. retS ()), po_wait_server = (\<lambda>_. retS ()),
      po_fresh = (\<lambda>_ _. [''started'']), po_now = (\<lambda>k. int (length k))\<rparr>"

text \<open>A tree in which every directory is there and the files the pool writes are empty.\<close>

definition ex_tree :: fs where
  "ex_tree p = Some (if p \<noteq> [] \<and> last p \<in> {''layer.tar'', ''containerd.toml''} then File [] else Dir)"

definition ex_world :: "(string list, string list) pool_world" where
  "ex_world = \<lparr>pw_fs = ex_tree, pw_workers = (\<lambda>_ _. None), pw_env = []\<rparr>"

definition ex_group :: group_config where
  "ex_group = \<lparr>g_size = 1, g_runtime = ''python'', g_layer = ''f.py''\<rparr>"

lemma make_dirs_there: "list_all (\<lambda>q. fs q = Some Dir) qs \<Longrightarrow> make_dirs qs fs = (Inr (), fs)"
  by (induction qs) simp_all

lemma ex_MkdirAll:
  "MkdirAll [''var'', ''cache'', ''refunction'', d] ex_tree = (Inr (), ex_tree)"
  "MkdirAll [''var'', ''cache'', ''refunction'', d, e] ex_tree = (Inr (), ex_tree)"
  if "d \<notin> {''layer.tar'', ''containerd.toml''}" "e \<notin> {''layer.tar'', ''containerd.toml''}"
  using that by (simp_all add: MkdirAll_def make_dirs_there ex_tree_def upt_rec)

lemma ex_Join:
  "Join cacheDir ''runtimes'' = [''var'', ''cache'', ''refunction'', ''runtimes'']"
  "Join cacheDir ''activelayers'' = [''var'', ''cache'', ''refunction'', ''activelayers'']"
  "Join cacheDir (''runtimes/'' @ ''python'') = [''var'', ''cache'', ''refunction'', ''runtimes'', ''python'']"
  "Join cacheDir (''activelayers/'' @ ''f.py'') = [''var'', ''cache'', ''refunction'', ''activelayers'', ''f.py'']"
  "Join [''tmp''] ''containerd.toml'' = [''tmp'', ''containerd.toml'']"
  by (simp_all add: Join_def cacheDir_def)

lemma ex_peek: "peek 150 \<lparr>hb_bytes = replicate 150 CHR ''x'', hb_error = None\<rparr> = Inr (replicate 150 CHR ''x'')"
  by (simp add: peek_def)

lemma contains_x: "contains (replicate n CHR ''x'') ''AccessDenied'' = False"
  by (induction n) simp_all

lemma ex_on_fs:
  assumes "pw_fs w = ex_tree" and "f ex_tree = (Inr x, ex_tree)"
  shows "on_fs f w = (Inr x, w)"
proof -
  have "w\<lparr>pw_fs := ex_tree\<rparr> = w" using assms(1) by (cases w) simp
  then show ?thesis by (simp add: on_fs_def assms)
qed

lemma ex_downloadRuntime: "downloadRuntime ex_pool_ops cacheDir ''python'' w = (Inr (), w)" if "pw_fs w = ex_tree"
proof -
  have m: "on_fs (MkdirAll [''var'', ''cache'', ''refunction'', ''runtimes'', ''python'']) w = (Inr (), w)"
    by (rule ex_on_fs [OF that]) (rule ex_MkdirAll; simp)
  have h: "on_env (po_http ex_pool_ops u) w = (Inr \<lparr>hb_bytes = replicate 150 CHR ''x'', hb_error = None\<rparr>, w)" for u
    by (simp add: on_env_def ex_pool_ops_def)
  have u: "on_fs (untar p (fst (po_tar ex_pool_ops b)) (snd (po_tar ex_pool_ops b))) w = (Inr (), w)" for p b
    by (simp add: on_fs_def ex_pool_ops_def untar_def bindS_def)
  show ?thesis
    unfolding downloadRuntime_def Let_def ex_Join bindS_def wrapS_def liftS_def m h prod.case sum.case wrap_res.simps ex_peek
      contains_x if_False u by simp
qed

lemma layer_file_f: "layer_file cacheDir ''f.py'' = [''var'', ''cache'', ''refunction'', ''activelayers'', ''f.py'', ''layer.tar'']"
  unfolding layer_file_def ex_Join by simp

lemma ex_open: "open_create True p ex_tree = (Inr (), ex_tree)" if "p \<noteq> []" "last p \<in> {''layer.tar'', ''containerd.toml''}"
  using that by (auto simp: open_create_def ex_tree_def fun_eq_iff)

lemma ex_downloadLayer:
  assumes "pw_fs w = ex_tree"
  shows "\<exists>w'. downloadLayer ex_pool_ops cacheDir ''f.py'' w = (Inr (), w') \<and> pw_workers w' = pw_workers w \<and> pw_env w' = pw_env w \<and>
     open_create True [''tmp'', ''containerd.toml''] (pw_fs w') = (Inr (), pw_fs w')"
proof -
  let ?x = "replicate 150 CHR ''x''"
  let ?w' = "w\<lparr>pw_fs := ex_tree(layer_file cacheDir ''f.py'' \<mapsto> File ?x)\<rparr>"
  have m: "on_fs (MkdirAll [''var'', ''cache'', ''refunction'', ''activelayers'', ''f.py'']) w = (Inr (), w)"
    by (rule ex_on_fs [OF assms]) (rule ex_MkdirAll; simp)
  have h: "on_env (po_http ex_pool_ops u) w = (Inr \<lparr>hb_bytes = ?x, hb_error = None\<rparr>, w)" for u
    by (simp add: on_env_def ex_pool_ops_def)
  have o: "on_fs (open_create True (layer_file cacheDir ''f.py'')) w = (Inr (), w)"
    by (rule ex_on_fs [OF assms], rule ex_open) (simp_all add: layer_file_f)
  have "content_of (ex_tree (layer_file cacheDir ''f.py'')) = []" by (simp add: ex_tree_def layer_file_f)
  then have c: "on_fs (copy_into (layer_file cacheDir ''f.py'') ?x None) w = (Inr (), ?w')"
    by (simp add: on_fs_def copy_into_def assms write_over_def)
  have "downloadLayer ex_pool_ops cacheDir ''f.py'' w = (Inr (), ?w')"
    unfolding downloadLayer_def ex_Join bindS_def wrapS_def liftS_def m h o prod.case sum.case wrap_res.simps ex_peek
      contains_x if_False by (simp add: c)
  moreover have "open_create True [''tmp'', ''containerd.toml''] (pw_fs ?w') = (Inr (), pw_fs ?w')"
    by (auto simp: open_create_def ex_tree_def fun_eq_iff layer_file_f)
  ultimately show ?thesis by (intro exI [of _ ?w']) simp
qed
lemma ex_start_worker:
  assumes "pw_workers w 0 ''0'' = Some (NewWorkerWithSnapManager ''0'' ''python'' ''f.py'' [''started''])"
  shows "\<exists>w'. start_worker ex_pool_ops 0 ''0'' w = (Inr (), w')"
proof -
  let ?m = "ex_worker\<lparr>wk_controller := Some (NewController [''started''])\<rparr>"
  have m: "NewWorkerWithSnapManager ''0'' ''python'' ''f.py'' [''started''] = ?m"
    by (simp add: ex_worker_def NewWorkerWithSnapManager_def)
  let ?c = "(line_controller [''started''])\<lparr>c_pid := 42\<rparr>"
  have "\<exists>k. Worker_Start (noting []) (?m, pw_env w) = (Inr (), (ex_started\<lparr>wk_controller := Some ?c\<rparr>, k))"
    by (simp add: Worker_Start_def with_client_def start_task_def connectStdPipes_def on_controller_def tmp_ip_file_def bindS_def wrapS_def
      tryS_def GetRwMounts_def noting_def quiet_snap_def noted_def ex_worker_def ex_started_def NewWorkerWithSnapManager_def
      line_controller_def SetPid_def Itoa_def digits_of.simps)
  then obtain k where s: "Worker_Start (noting []) (?m, pw_env w) = (Inr (), (ex_started\<lparr>wk_controller := Some ?c\<rparr>, k))" by blast
  let ?w1 = "w\<lparr>pw_workers := (pw_workers w)(0 := (pw_workers w 0)(''0'' \<mapsto> ex_started\<lparr>wk_controller := Some ?c\<rparr>)), pw_env := k\<rparr>"
  have start: "on_worker 0 ''0'' (Worker_Start (po_worker ex_pool_ops)) w = (Inr (), ?w1)"
    unfolding on_worker_def assms option.case m by (simp add: ex_pool_ops_def s)
  obtain c' where c': "Activate line_ops ?c = (Inr (), c')" using ex_Activate by blast
  have "\<exists>w2. on_worker 0 ''0'' (Worker_Activate (po_ctrl ex_pool_ops)) ?w1 = (Inr (), w2)"
    by (simp add: on_worker_def Worker_Activate_def on_controller_def ex_pool_ops_def c')
  then show ?thesis unfolding start_worker_def bindS_def wrapS_def start by auto
qed

lemma ex_NewWorkerPool: "\<exists>p w'. NewWorkerPool ex_pool_ops [ex_group] ex_world = (Inr p, w')"
proof -
  have fs: "pw_fs ex_world = ex_tree" by (simp add: ex_world_def)
  have tmp: "on_env (po_TempDir ex_pool_ops) ex_world = (Inr [''tmp''], ex_world)"
    by (simp add: on_env_def ex_pool_ops_def)
  have dir: "on_fs (\<lambda>fs. (Inr (), fs([''tmp''] \<mapsto> Dir))) ex_world = (Inr (), ex_world)"
    by (rule ex_on_fs [OF fs]) (auto simp: ex_tree_def fun_eq_iff)
  have mk: "on_fs (MkdirAll [''var'', ''cache'', ''refunction'', d]) ex_world = (Inr (), ex_world)"
    if "d \<in> {''runtimes'', ''activelayers''}" for d
    by (rule ex_on_fs [OF fs], rule ex_MkdirAll(1) [where e = d]) (use that in auto)
  have rts: "ensureRuntimes ex_pool_ops (map g_runtime [ex_group]) cacheDir ex_world = (Inr (), ex_world)"
    by (simp add: ensureRuntimes_def ex_Join bindS_def replaceS_def wrapS_def mk ex_group_def ex_downloadRuntime [OF fs])
  obtain w1 where l: "downloadLayer ex_pool_ops cacheDir ''f.py'' ex_world = (Inr (), w1)" "pw_workers w1 = pw_workers ex_world"
    "open_create True [''tmp'', ''containerd.toml''] (pw_fs w1) = (Inr (), pw_fs w1)"
    using ex_downloadLayer [OF fs] by blast
  have ls: "ensureLayers ex_pool_ops (map g_layer [ex_group]) cacheDir ex_world = (Inr (), w1)"
    by (simp add: ensureLayers_def ex_Join bindS_def replaceS_def wrapS_def mk ex_group_def l(1))
  have "\<exists>w2. NewContainerdServer ex_pool_ops [''tmp''] cfg w1 = (Inr 5, w2) \<and> pw_workers w2 = pw_workers w1" for cfg
    by (simp add: NewContainerdServer_def Let_def ex_Join bindS_def wrapS_def on_fs_def l(3) ex_pool_ops_def copy_into_def on_env_def)
  then obtain w2 where srv: "NewContainerdServer ex_pool_ops [''tmp''] (ContainerdConfig [''tmp'']) w1 = (Inr 5, w2)" by blast
  have dial: "on_env (po_dial ex_pool_ops a) w2 = (Inr 6, w2)" for a by (simp add: on_env_def ex_pool_ops_def)
  have snap: "\<exists>m. on_env (NewSnapshotManager (we_snap (po_worker ex_pool_ops)) ''python'') w2 = (Inr m, w2)"
    by (simp add: on_env_def ex_pool_ops_def noting_def quiet_snap_def NewSnapshotManager_def ensureRuntimeBase_def Let_def
        createLayer_def bindS_def wrapS_def tryS_def)
  then obtain m where snap: "on_env (NewSnapshotManager (we_snap (po_worker ex_pool_ops)) ''python'') w2 = (Inr m, w2)" by blast
  have layer: "on_env (CreateLayerFromBase (we_snap (po_worker ex_pool_ops)) m ''f.py'') w2 = (Inr (), w2)"
    by (simp add: on_env_def ex_pool_ops_def noting_def quiet_snap_def CreateLayerFromBase_def createLayer_def bindS_def tryS_def)
  have ids: "worker_ids 1 = Inr [''0'']" by (simp add: worker_ids_def Itoa_def digits_of.simps)
  let ?w3 = "w2\<lparr>pw_workers := (pw_workers w2)(0 := (pw_workers w2 0)(''0'' \<mapsto> NewWorkerWithSnapManager ''0'' ''python'' ''f.py'' [''started'']))\<rparr>"
  have add: "add_worker ex_pool_ops 0 ex_group ''0'' w2 = (Inr (), ?w3)"
    by (simp add: add_worker_def ex_group_def ex_pool_ops_def)
  obtain w4 where start: "start_worker ex_pool_ops 0 ''0'' ?w3 = (Inr (), w4)" using ex_start_worker [of ?w3] by auto
  have "\<exists>s. new_group ex_pool_ops 0 ex_group w2 = (Inr s, w4)"
    using snap layer ids add start by (simp add: new_group_def bindS_def ex_group_def)
  then obtain s where "new_group ex_pool_ops 0 ex_group w2 = (Inr s, w4)" by blast
  then show ?thesis
    by (simp add: NewWorkerPool_def bindS_def wrapS_def tmp dir rts [unfolded list.map] ls [unfolded list.map] srv dial)
qed


theorem pick_runtime_unique_witness:
  "pick_runtime [''python'', ''node''] ''python:3'' = pick_runtime [''node'', ''python''] ''python:3''"
proof -
  have "\<forall>r1 \<in> set [''python'', ''node'']. \<forall>r2 \<in> set [''python'', ''node'']. contains ''python:3'' r1 \<longrightarrow> contains ''python:3'' r2 \<longrightarrow> r1 = r2"
    by simp
  from pick_runtime_unique [THEN iffD2, OF this] show ?thesis by simp
qed

theorem failed_download_empties_layer_witness:
  "\<exists>e w'. downloadLayer (ex_pool_ops\<lparr>po_http := \<lambda>_ k. (Inr \<lparr>hb_bytes = ''AccessDenied'', hb_error = None\<rparr>, k)\<rparr>) cacheDir ''f.py''
       (ex_world\<lparr>pw_fs := ex_tree(layer_file cacheDir ''f.py'' \<mapsto> File ''code'')\<rparr>) = (Inl (Returned e), w') \<and>
     pw_fs w' (layer_file cacheDir ''f.py'') = Some (File [])"
proof (rule failed_download_empties_layer [where cached = "''code''" and k = "[]" and body = "\<lparr>hb_bytes = ''AccessDenied'', hb_error = None\<rparr>"])
  have "MkdirAll [''var'', ''cache'', ''refunction'', ''activelayers'', ''f.py''] (ex_tree(layer_file cacheDir ''f.py'' \<mapsto> File ''code'')) =
      (Inr (), ex_tree(layer_file cacheDir ''f.py'' \<mapsto> File ''code''))"
    by (simp add: MkdirAll_def make_dirs_there layer_file_f ex_tree_def upt_rec)
  then show "MkdirAll (Join cacheDir (''activelayers/'' @ ''f.py''))
      (pw_fs (ex_world\<lparr>pw_fs := ex_tree(layer_file cacheDir ''f.py'' \<mapsto> File ''code'')\<rparr>)) =
      (Inr (), pw_fs (ex_world\<lparr>pw_fs := ex_tree(layer_file cacheDir ''f.py'' \<mapsto> File ''code'')\<rparr>))"
    unfolding ex_Join by simp
qed (simp_all add: ex_world_def)

definition ex_busy_pool :: pool_handle where
  "ex_busy_pool = \<lparr>wp_server = 5, wp_client = 6, wp_config = ContainerdConfig [''tmp''], wp_runDir = [''tmp''],
     wp_schedulers = [''python'' \<mapsto> (0, SetFunction ''0'' (f_id ex_doc) ((NewScheduler [''0''] ''python'')\<lparr>undeployed := [], deployed := [''0'']\<rparr>))]\<rparr>"

lemma ex_kind: "e_kind (f_exec ex_doc) = ''python:3''"
  by (simp add: ex_doc_def)


theorem request_reaches_the_process_witness:
  "\<exists>p' w'. Pool_Run ex_pool_ops 1 [''python''] ex_doc JNull (ex_busy_pool,
       ex_world\<lparr>pw_workers := (\<lambda>_ _. Some (ex_started\<lparr>wk_controller := Some (line_controller [''log'', ''true'', ''response'', ''true''])\<rparr>))\<rparr>) =
     (Inr (JString ''response''), (p', w'))"
proof -
  let ?ls = "[''log'', ''true'', ''response'', ''true'']"
  let ?f = ex_doc
  let ?s0 = "(NewScheduler [''0''] ''python'')\<lparr>undeployed := [], deployed := [''0'']\<rparr>"
  let ?s = "SetFunction ''0'' (f_id ex_doc) ?s0"
  let ?m = "ex_started\<lparr>wk_controller := Some (line_controller ?ls)\<rparr>"
  let ?w = "ex_world\<lparr>pw_workers := (\<lambda>_ _. Some ?m)\<rparr>"
  have lists: "deployed ?s = [''0'']" "running ?s = []" by (simp_all add: SetFunction_def NewScheduler_def)
  have "GetFunction ?s ''0'' = Some (f_id ex_doc)" by (simp add: NewScheduler_def new_workers_def)
  then have r: "RunDeployedFunction (f_id ?f) ?s = (Some ''0'', ?s\<lparr>deployed := [], running := [''0'']\<rparr>)"
    by (simp add: RunDeployedFunction_def lists)
  have "\<exists>p' w' s' m' c'. Pool_Run ex_pool_ops (Suc 0) [''python''] ?f JNull (ex_busy_pool, ?w) =
      (Inr (msg_data \<lparr>msg_type = ''response'', msg_data = JString ''response''\<rparr>), (p', w')) \<and>
     wp_schedulers p' ''python'' = Some (0, s') \<and> running s' = running ?s \<and> ''0'' \<in> set (deployed s') \<and>
     GetFunction s' ''0'' = Some (f_id ?f) \<and> pw_workers w' 0 ''0'' = Some m' \<and> wk_controller m' = Some c' \<and>
     wanted (c_unmarshal (po_ctrl ex_pool_ops)) ((\<lambda>w. w) (world (sys c'))) = [\<lparr>msg_type = ''function_loaded'', msg_data = JBool True\<rparr>]"
  proof (rule request_reaches_the_process [where d = "''0''" and m = ?m and c = "line_controller ?ls" and line = "''request''" and ?w1.0 = ?ls
        and pre = "[\<lparr>msg_type = ''function_loaded'', msg_data = JBool True\<rparr>]", OF _ _ r])
    show "output_is (po_ctrl ex_pool_ops) (\<lambda>w. w)" using line_output by (simp add: ex_pool_ops_def)
    show "wanted (c_unmarshal (po_ctrl ex_pool_ops)) ?ls = [\<lparr>msg_type = ''function_loaded'', msg_data = JBool True\<rparr>] @
        \<lparr>msg_type = ''response'', msg_data = JString ''response''\<rparr> # [\<lparr>msg_type = ''function_loaded'', msg_data = JBool True\<rparr>]"
      using line_wanted by (simp add: ex_pool_ops_def)
  qed (simp_all add: pick_runtime_def ex_kind ex_busy_pool_def lists ex_pool_ops_def line_ops_def)
  then show ?thesis by auto
qed

end
