(* ===== verification/Activations.thy ===== *)
theory Activations
  imports Invoker Worker_Life
begin

text \<open>
  The goroutines of \<open>invoker/main.go\<close> side by side: any number of activations are fetched, scheduled and
  answered at the same time. Their calls interleave inside the storage (\<open>lookup_step\<close>), inside the scheduler
  of each runtime (\<open>sched_step\<close>) and inside the provider (\<open>write_step\<close>), down to the single critical section
  or map access. The parts are subsystems, so that what is proved of each of them holds here.
\<close>

section \<open>The goroutines of the invoker\<close>

text \<open>
  Where the goroutine of an activation is: its call of \<open>GetFunction\<close>, by its number in the storage; its call
  of \<open>Run\<close>, by the function, the runtime and its number in the scheduler of that; past the answer \<open>r\<close> of the
  function, with the clock that its result will be made with; or returned with an error.
\<close>

datatype stage =
    Fetching nat
  | Running function_doc string nat
  | Replied function_doc json int int
  | Dropped

type_synonym activity = "activation_message \<times> stage"

record 'c flow =
  fl_lookups :: "'c lookups"
  fl_pools :: "string \<Rightarrow> pool"
  fl_writes :: race
  fl_todo :: "(follow_up \<times> int \<times> int) list"
  fl_stored :: "(activation_message \<times> function_doc \<times> json) list"
  fl_acts :: "activity list"
  fl_ended :: "ending option"

definition docID_of :: "activation_message \<Rightarrow> string" where
  "docID_of a = fullDocID (a_path (am_action a)) (a_name (am_action a))"

definition flow_start :: "'c lru \<Rightarrow> (string \<Rightarrow> string list) \<Rightarrow> handle \<Rightarrow> 'c flow \<Rightarrow> bool" where
  "flow_start L names conn w \<longleftrightarrow>
     lookup_start L (fl_lookups w) \<and> (\<forall>rt. pool_start (names rt) rt (fl_pools w rt)) \<and>
     race_start conn (fl_writes w) \<and> fl_todo w = [] \<and> fl_stored w = [] \<and> fl_acts w = [] \<and> fl_ended w = None"

text \<open>The steps of the parts that begin no new call; calls begin with the steps of an activation.\<close>

definition old_lookup :: "'c lru \<Rightarrow> (string \<Rightarrow> function_doc option) \<Rightarrow> 'c lookups \<Rightarrow> 'c lookups \<Rightarrow> bool" where
  "old_lookup L docs l l' \<longleftrightarrow> lookup_step L docs l l' \<and> length (lk_jobs l') = length (lk_jobs l)"

definition old_sched :: "pool \<Rightarrow> pool \<Rightarrow> bool" where
  "old_sched p p' \<longleftrightarrow> sched_step p p' \<and> (\<forall>f code. p' \<noteq> p\<lparr>jobs := jobs p @ [Wants f code]\<rparr>)"

definition old_write :: "(nat \<Rightarrow> error option) \<Rightarrow> race \<Rightarrow> race \<Rightarrow> bool" where
  "old_write fails r r' \<longleftrightarrow> write_step fails r r' \<and> length (race_jobs r') = length (race_jobs r)"

definition set_act :: "nat \<Rightarrow> activity \<Rightarrow> 'c flow \<Rightarrow> 'c flow" where
  "set_act k x w = w\<lparr>fl_acts := (fl_acts w)[k := x]\<rparr>"

text \<open>
  \<open>docs\<close> is the function database, \<open>rts\<close> the runtimes of the pool, of which any that matches can be the first
  that \<open>Run\<close> of the pool visits. A panic of a goroutine ends the process, and so do an interrupt and a failed
  poll, whose steps stand for the end of the deferred calls that \<open>startInvoker\<close> makes before it exits.
\<close>

inductive flow_step ::
  "'c lru \<Rightarrow> (string \<Rightarrow> function_doc option) \<Rightarrow> message_codec \<Rightarrow> messenger \<Rightarrow> string list \<Rightarrow> (nat \<Rightarrow> error option) \<Rightarrow>
    'c flow \<Rightarrow> 'c flow \<Rightarrow> bool"
  for L docs js m rts fails where
  arrives: "\<lbrakk> fl_ended w = None; l = fl_lookups w \<rbrakk> \<Longrightarrow>
     flow_step L docs js m rts fails w
       (w\<lparr>fl_lookups := l\<lparr>lk_jobs := lk_jobs l @ [Looking (docID_of a)]\<rparr>,
          fl_acts := fl_acts w @ [(a, Fetching (length (lk_jobs l)))]\<rparr>)"
| looks_up: "\<lbrakk> fl_ended w = None; old_lookup L docs (fl_lookups w) l \<rbrakk> \<Longrightarrow>
     flow_step L docs js m rts fails w (w\<lparr>fl_lookups := l\<rparr>)"
| fetched: "\<lbrakk> fl_ended w = None; k < length (fl_acts w); fl_acts w ! k = (a, Fetching i);
     lk_jobs (fl_lookups w) ! i = Got d (Inr f); rt \<in> set rts; contains (e_kind (f_exec f)) rt; p = fl_pools w rt \<rbrakk> \<Longrightarrow>
     flow_step L docs js m rts fails w
       (set_act k (a, Running f rt (length (jobs p)))
         (w\<lparr>fl_pools := (fl_pools w)(rt := p\<lparr>jobs := jobs p @ [Wants (f_id f) (CodeString f)]\<rparr>)\<rparr>))"
| not_fetched: "\<lbrakk> fl_ended w = None; k < length (fl_acts w); fl_acts w ! k = (a, Fetching i);
     lk_jobs (fl_lookups w) ! i = Got d (Inl (Returned e)) \<rbrakk> \<Longrightarrow>
     flow_step L docs js m rts fails w (set_act k (a, Dropped) w)"
| lookup_panics: "\<lbrakk> fl_ended w = None; k < length (fl_acts w); fl_acts w ! k = (a, Fetching i);
     lk_jobs (fl_lookups w) ! i = Got d (Inl (Panicked e)) \<rbrakk> \<Longrightarrow>
     flow_step L docs js m rts fails w (w\<lparr>fl_ended := Some (Crash e)\<rparr>)"
| no_runtime: "\<lbrakk> fl_ended w = None; k < length (fl_acts w); fl_acts w ! k = (a, Fetching i);
     lk_jobs (fl_lookups w) ! i = Got d (Inr f); \<not> list_ex (contains (e_kind (f_exec f))) rts \<rbrakk> \<Longrightarrow>
     flow_step L docs js m rts fails w (set_act k (a, Dropped) w)"
| schedules: "\<lbrakk> fl_ended w = None; old_sched (fl_pools w rt) p \<rbrakk> \<Longrightarrow>
     flow_step L docs js m rts fails w (w\<lparr>fl_pools := (fl_pools w)(rt := p)\<rparr>)"
| replies: "\<lbrakk> fl_ended w = None; k < length (fl_acts w); fl_acts w ! k = (a, Running f rt i);
     jobs (fl_pools w rt) ! i = Answered \<rbrakk> \<Longrightarrow>
     flow_step L docs js m rts fails w
       (set_act k (a, Replied f r now1 now2)
         (w\<lparr>fl_todo := fl_todo w @ map (\<lambda>job. (job, now1, now2)) (follow_ups a f r)\<rparr>))"
| run_fails: "\<lbrakk> fl_ended w = None; k < length (fl_acts w); fl_acts w ! k = (a, Running f rt i);
     jobs (fl_pools w rt) ! i = Answered \<or> jobs (fl_pools w rt) ! i = Leaked d \<rbrakk> \<Longrightarrow>
     flow_step L docs js m rts fails w (set_act k (a, Dropped) w)"
| code_panics: "\<lbrakk> fl_ended w = None; k < length (fl_acts w); fl_acts w ! k = (a, Running f rt i);
     jobs (fl_pools w rt) ! i = Loading d g (Inl (Panicked e)) \<rbrakk> \<Longrightarrow>
     flow_step L docs js m rts fails w (w\<lparr>fl_ended := Some (Crash e)\<rparr>)"
| answers_it: "\<lbrakk> fl_ended w = None; j < length (fl_todo w); fl_todo w ! j = (job, now1, now2);
     answers js now1 now2 m job = [(t, [v])]; r = fl_writes w \<rbrakk> \<Longrightarrow>
     flow_step L docs js m rts fails w
       (w\<lparr>fl_todo := drop_index j (fl_todo w), fl_writes := r\<lparr>race_jobs := race_jobs r @ [Asks t v]\<rparr>\<rparr>)"
| answers_nothing: "\<lbrakk> fl_ended w = None; j < length (fl_todo w); fl_todo w ! j = (job, now1, now2);
     answers js now1 now2 m job = [] \<rbrakk> \<Longrightarrow>
     flow_step L docs js m rts fails w (w\<lparr>fl_todo := drop_index j (fl_todo w)\<rparr>)"
| stores_it: "\<lbrakk> fl_ended w = None; j < length (fl_todo w); fl_todo w ! j = (Store_activation a f r, now1, now2) \<rbrakk> \<Longrightarrow>
     flow_step L docs js m rts fails w
       (w\<lparr>fl_todo := drop_index j (fl_todo w), fl_stored := fl_stored w @ [(a, f, r)]\<rparr>)"
| writes: "\<lbrakk> fl_ended w = None; old_write fails (fl_writes w) r \<rbrakk> \<Longrightarrow>
     flow_step L docs js m rts fails w (w\<lparr>fl_writes := r\<rparr>)"
| interrupted: "fl_ended w = None \<Longrightarrow> flow_step L docs js m rts fails w (w\<lparr>fl_ended := Some (Exit 0)\<rparr>)"
| poll_fails: "fl_ended w = None \<Longrightarrow> flow_step L docs js m rts fails w (w\<lparr>fl_ended := Some (Exit 1)\<rparr>)"

lemma set_act_simps [simp]:
  "fl_acts (set_act k x w) = (fl_acts w)[k := x]" "fl_lookups (set_act k x w) = fl_lookups w"
  "fl_pools (set_act k x w) = fl_pools w" "fl_writes (set_act k x w) = fl_writes w"
  "fl_todo (set_act k x w) = fl_todo w" "fl_ended (set_act k x w) = fl_ended w"
  by (simp_all add: set_act_def)

section \<open>The storage, the schedulers and the provider inside the invoker\<close>

interpretation in_lookups: subsystem "flow_start L names conn" "flow_step L docs js m rts fails"
  "lookup_start L" "lookup_step L docs" fl_lookups for L docs js m rts fails names conn
proof unfold_locales
  show "lookup_start L (fl_lookups w)" if "flow_start L names conn w" for w
    using that by (simp add: flow_start_def)
  show "fl_lookups w' = fl_lookups w \<or> lookup_step L docs (fl_lookups w) (fl_lookups w')"
    if "flow_step L docs js m rts fails w w'" for w w'
    using that
  proof cases
    case (arrives l a)
    then show ?thesis using look [of L docs "fl_lookups w" "docID_of a"] by simp
  qed (auto simp: old_lookup_def)
qed

interpretation in_pool_of: subsystem "flow_start L names conn" "flow_step L docs js m rts fails"
  "pool_start (names rt) rt" sched_step "\<lambda>w. fl_pools w rt" for L docs js m rts fails names conn rt
proof unfold_locales
  show "pool_start (names rt) rt (fl_pools w rt)" if "flow_start L names conn w" for w
    using that by (simp add: flow_start_def)
  show "fl_pools w' rt = fl_pools w rt \<or> sched_step (fl_pools w rt) (fl_pools w' rt)"
    if "flow_step L docs js m rts fails w w'" for w w'
    using that
  proof cases
    case (fetched k a i d f rt' p)
    then show ?thesis using new_call [of "fl_pools w rt" "f_id f" "CodeString f"] by auto
  qed (auto simp: old_sched_def)
qed

interpretation in_writes: subsystem "flow_start L names conn" "flow_step L docs js m rts fails"
  "race_start conn" "write_step fails" fl_writes for L docs js m rts fails names conn
proof unfold_locales
  show "race_start conn (fl_writes w)" if "flow_start L names conn w" for w
    using that by (simp add: flow_start_def)
  show "fl_writes w' = fl_writes w \<or> write_step fails (fl_writes w) (fl_writes w')"
    if "flow_step L docs js m rts fails w w'" for w w'
    using that
  proof cases
    case (answers_it j job now1 now2 t v r)
    then show ?thesis using write_call [of fails "fl_writes w" t v] by simp
  qed (auto simp: old_write_def)
qed


section \<open>What each goroutine works for\<close>

text \<open>The id that a call of \<open>GetFunction\<close> looks up, and the calls of \<open>Run\<close> that serve a function.\<close>

fun lookup_id :: "lookup \<Rightarrow> string" where
  "lookup_id (Looking i) = i"
| "lookup_id (Hitting i) = i"
| "lookup_id (Missing i) = i"
| "lookup_id (Adding i f) = i"
| "lookup_id (Got i r) = i"

fun works_for :: "function_doc \<Rightarrow> job \<Rightarrow> bool" where
  "works_for f (Wants g code) \<longleftrightarrow> g = f_id f \<and> code = CodeString f"
| "works_for f (Missed g code) \<longleftrightarrow> g = f_id f \<and> code = CodeString f"
| "works_for f (Forcing g code) \<longleftrightarrow> g = f_id f \<and> code = CodeString f"
| "works_for f (Evicting d g code) \<longleftrightarrow> g = f_id f \<and> code = CodeString f"
| "works_for f (Loading d g code) \<longleftrightarrow> g = f_id f \<and> code = CodeString f"
| "works_for f (Serving d g) \<longleftrightarrow> g = f_id f"
| "works_for f (Sent d g) \<longleftrightarrow> g = f_id f"
| "works_for f (Loaded d g) \<longleftrightarrow> g = f_id f"
| "works_for f Answered \<longleftrightarrow> True"
| "works_for f (Leaked d) \<longleftrightarrow> (case CodeString f of Inl (Returned e) \<Rightarrow> True | _ \<Rightarrow> False)"
| "works_for f (Watching d) \<longleftrightarrow> False"
| "works_for f (Restoring d) \<longleftrightarrow> False"

text \<open>The ids of the calls so far never change, and a call keeps working for its function.\<close>

definition same_ids :: "'c lookups \<Rightarrow> 'c lookups \<Rightarrow> bool" where
  "same_ids l l' \<longleftrightarrow> (\<exists>more. map lookup_id (lk_jobs l') = map lookup_id (lk_jobs l) @ more)"

lemma lookup_step_ids: "lookup_step L docs l l' \<Longrightarrow> same_ids l l'"
  unfolding same_ids_def
proof (induction rule: lookup_step.induct)
  case (look w i)
  then show ?case by simp
qed (rule exI [of _ "[]"], simp add: set_lookup_def map_update list_update_same_conv)+

lemma same_idsD:
  assumes "same_ids l l'" and "i < length (lk_jobs l)"
  shows "i < length (lk_jobs l') \<and> lookup_id (lk_jobs l' ! i) = lookup_id (lk_jobs l ! i)"
proof -
  from assms(1) obtain more where m: "map lookup_id (lk_jobs l') = map lookup_id (lk_jobs l) @ more"
    by (auto simp: same_ids_def)
  from arg_cong [OF m, of length] assms(2) have "i < length (lk_jobs l')" by simp
  with arg_cong [OF m, of "\<lambda>xs. xs ! i"] assms(2) show ?thesis by (simp add: nth_append)
qed

lemma works_for_update:
  "\<lbrakk> i < length js; works_for f (js ! i); k < length js; works_for f (js ! k) \<Longrightarrow> works_for f j \<rbrakk> \<Longrightarrow>
     works_for f (js[k := j] ! i)"
  by (cases "i = k") auto

lemma works_for_step:
  assumes "sched_step p p'" and "i < length (jobs p)" and "works_for f (jobs p ! i)"
  shows "i < length (jobs p') \<and> works_for f (jobs p' ! i)"
  using assms
proof cases
  case (load_done k d g s')
  with assms(2,3) show ?thesis by (simp add: nth_append works_for_update)
next
  case (code_error k d g e)
  have "works_for f (Leaked d)" if "works_for f (jobs p ! k)"
  proof -
    from that have "CodeString f = Inl (Returned e)" by (simp add: code_error(3))
    then show ?thesis by simp
  qed
  with code_error(1,2) assms(2,3) show ?thesis by (simp add: set_job_def works_for_update)
qed (auto simp: nth_append set_job_def intro!: works_for_update)


section \<open>Every activation runs its own function\<close>

fun stage_ok :: "(string \<Rightarrow> function_doc option) \<Rightarrow> string list \<Rightarrow> 'c flow \<Rightarrow> activity \<Rightarrow> bool" where
  "stage_ok docs rts w (a, Fetching i) \<longleftrightarrow>
     i < length (lk_jobs (fl_lookups w)) \<and> lookup_id (lk_jobs (fl_lookups w) ! i) = docID_of a"
| "stage_ok docs rts w (a, Running f rt i) \<longleftrightarrow>
     docs (docID_of a) = Some f \<and> rt \<in> set rts \<and> contains (e_kind (f_exec f)) rt \<and>
     i < length (jobs (fl_pools w rt)) \<and> works_for f (jobs (fl_pools w rt) ! i)"
| "stage_ok docs rts w (a, Replied f r now1 now2) \<longleftrightarrow> docs (docID_of a) = Some f"
| "stage_ok docs rts w (a, Dropped) \<longleftrightarrow> True"

definition acts_inv :: "'c lru \<Rightarrow> (string \<Rightarrow> function_doc option) \<Rightarrow> string list \<Rightarrow> 'c flow \<Rightarrow> bool" where
  "acts_inv L docs rts w \<longleftrightarrow>
     lookup_inv L docs (fl_lookups w) \<and> (lru_laws L \<longrightarrow> (\<forall>x \<in> set (fl_acts w). stage_ok docs rts w x))"

lemma flow_step_ids: "flow_step L docs js m rts fails w w' \<Longrightarrow> same_ids (fl_lookups w) (fl_lookups w')"
  by (drule in_lookups.part_step) (auto simp: same_ids_def dest: lookup_step_ids [unfolded same_ids_def])

lemma stage_ok_step:
  assumes step: "flow_step L docs js m rts fails w w'" and "stage_ok docs rts w x"
  shows "stage_ok docs rts w' x"
proof (cases "(docs, rts, w', x)" rule: stage_ok.cases)
  case (1 docs' rts' w'' a i)
  with assms(2) same_idsD [OF flow_step_ids [OF step], of i] show ?thesis by auto
next
  case (2 docs' rts' w'' a f rt i)
  then have "i < length (jobs (fl_pools w rt))" "works_for f (jobs (fl_pools w rt) ! i)" using assms(2) by auto
  with in_pool_of.part_step [OF step, of rt]
  have "i < length (jobs (fl_pools w' rt)) \<and> works_for f (jobs (fl_pools w' rt) ! i)"
    using works_for_step by (elim disjE) auto
  with 2 assms(2) show ?thesis by simp
qed (use assms(2) in auto)

lemma acts_ok_update:
  "\<lbrakk> \<forall>x \<in> set acts. P x; P y \<rbrakk> \<Longrightarrow> \<forall>x \<in> set (acts[k := y]). P x"
  by (auto dest!: set_update_subset_insert [THEN subsetD])

lemma acts_inv_step:
  assumes step: "flow_step L docs js m rts fails w w'" and inv: "acts_inv L docs rts w"
  shows "acts_inv L docs rts w'"
proof -
  have "lookup_inv L docs (fl_lookups w')"
    using in_lookups.part_step [OF step] lookup_inv_step inv by (auto simp: acts_inv_def)
  moreover have "\<forall>x \<in> set (fl_acts w'). stage_ok docs rts w' x" if laws: "lru_laws L"
  proof -
    from inv laws have now: "\<forall>x \<in> set (fl_acts w). stage_ok docs rts w x" by (simp add: acts_inv_def)
    then have old: "\<forall>x \<in> set (fl_acts w). stage_ok docs rts w' x" using stage_ok_step [OF step] by blast
    note upd = acts_ok_update [OF old]
    show ?thesis
      using step
    proof cases
      case (arrives l a)
      with old show ?thesis by auto
    next
      case (fetched k a i d f rt p)
      with now have i: "i < length (lk_jobs (fl_lookups w))" "lookup_id (Got d (Inr f)) = docID_of a"
        by (metis nth_mem stage_ok.simps(1))+
      with inv laws fetched have "docs (docID_of a) = Some f"
        by (metis (no_types, lifting) acts_inv_def lookup_id.simps(5) lookup_inv_def lookup_ok.simps(2) nth_mem)
      then have "stage_ok docs rts w' (a, Running f rt (length (jobs p)))" using fetched by simp
      from upd [OF this, of k] fetched show ?thesis by simp
    next
      case (replies k a f rt i r now1 now2)
      with now have "docs (docID_of a) = Some f" by (metis nth_mem stage_ok.simps(2))
      then have "stage_ok docs rts w' (a, Replied f r now1 now2)" by simp
      from upd [OF this, of k] replies show ?thesis by simp
    qed (use old in \<open>auto dest!: set_update_subset_insert [THEN subsetD]\<close>)
  qed
  ultimately show ?thesis by (simp add: acts_inv_def)
qed

interpretation activations: guarded_system "flow_start L names conn" "flow_step L docs js m rts fails"
  "acts_inv L docs rts" for L names conn docs js m rts fails
proof unfold_locales
  show "acts_inv L docs rts w" if "flow_start L names conn w" for w
    using that lookups.inv_init by (auto simp: flow_start_def acts_inv_def)
  show "acts_inv L docs rts w'" if "acts_inv L docs rts w" "flow_step L docs js m rts fails w w'" for w w'
    using acts_inv_step that by blast
qed



section \<open>Every answer is delivered once\<close>

text \<open>
  The message that a goroutine writes, what an activation owes to its controller once its function has
  answered, and where that is: still to be made, being written, or delivered.
\<close>

fun asks :: "write_job \<Rightarrow> string \<times> string list" where
  "asks (Asks t v) = (t, [v])"
| "asks (Opening t v) = (t, [v])"
| "asks (Storing t v h) = (t, [v])"
| "asks (Writing t v h) = (t, [v])"
| "asks (Written t v) = (t, [v])"

fun owed :: "message_codec \<Rightarrow> messenger \<Rightarrow> activity \<Rightarrow> (string \<times> string list) multiset" where
  "owed js m (a, Replied f r now1 now2) = mset (concat (map (answers js now1 now2 m) (follow_ups a f r)))"
| "owed js m (a, s) = {#}"

definition all_owed :: "message_codec \<Rightarrow> messenger \<Rightarrow> activity list \<Rightarrow> (string \<times> string list) multiset" where
  "all_owed js m acts = (\<Sum>x\<leftarrow>acts. owed js m x)"

definition to_answer ::
  "message_codec \<Rightarrow> messenger \<Rightarrow> (follow_up \<times> int \<times> int) list \<Rightarrow> (string \<times> string list) multiset" where
  "to_answer js m todo = (\<Sum>(job, now1, now2)\<leftarrow>todo. mset (answers js now1 now2 m job))"

definition in_writing :: "write_job list \<Rightarrow> (string \<times> string list) multiset" where
  "in_writing js = mset (map asks (filter (\<lambda>j. job_written j = {#}) js))"

definition answers_inv :: "message_codec \<Rightarrow> messenger \<Rightarrow> 'c flow \<Rightarrow> bool" where
  "answers_inv js m w \<longleftrightarrow>
     all_owed js m (fl_acts w) = to_answer js m (fl_todo w) + mset (map asks (race_jobs (fl_writes w)))"

lemma all_owed_simps [simp]:
  "all_owed js m [] = {#}" "all_owed js m (x # xs) = owed js m x + all_owed js m xs"
  "all_owed js m (xs @ ys) = all_owed js m xs + all_owed js m ys"
  by (simp_all add: all_owed_def)

lemma to_answer_simps [simp]:
  "to_answer js m [] = {#}" "to_answer js m ((job, now1, now2) # xs) = mset (answers js now1 now2 m job) + to_answer js m xs"
  "to_answer js m (xs @ ys) = to_answer js m xs + to_answer js m ys"
  by (simp_all add: to_answer_def)

lemma all_owed_update:
  "k < length acts \<Longrightarrow> all_owed js m (acts[k := x]) + owed js m (acts ! k) = all_owed js m acts + owed js m x"
  by (induction acts arbitrary: k) (auto split: nat.splits)

lemma to_answer_drop:
  "\<lbrakk> j < length todo; todo ! j = (job, now1, now2) \<rbrakk> \<Longrightarrow>
     to_answer js m (drop_index j todo) + mset (answers js now1 now2 m job) = to_answer js m todo"
proof (induction todo arbitrary: j)
  case (Cons x xs)
  then show ?case by (cases j; cases x) auto
qed simp

lemma to_answer_follow_ups:
  "to_answer js m (map (\<lambda>job. (job, now1, now2)) todo) = mset (concat (map (answers js now1 now2 m) todo))"
  by (induction todo) auto

lemma asks_split: "mset (map asks js) = in_writing js + all_written js"
proof (induction js)
  case (Cons j js)
  then show ?case by (cases j) (auto simp: in_writing_def)
qed (simp add: in_writing_def)

lemma old_write_asks: "old_write fails r r' \<Longrightarrow> map asks (race_jobs r') = map asks (race_jobs r)"
  unfolding old_write_def
proof (elim conjE)
  assume "write_step fails r r'" and "length (race_jobs r') = length (race_jobs r)"
  then show ?thesis by cases (simp_all add: set_write_def map_update list_update_same_conv)
qed

lemma answers_inv_step:
  assumes "flow_step L docs js m rts fails w w'" and inv: "answers_inv js m w"
  shows "answers_inv js m w'"
  using assms(1)
proof cases
  case (replies k a f rt i r now1 now2)
  with inv all_owed_update [of k "fl_acts w" js m "(a, Replied f r now1 now2)"] show ?thesis
    by (simp add: answers_inv_def to_answer_follow_ups)
next
  case (answers_it j job now1 now2 t v r)
  with inv to_answer_drop [of j "fl_todo w" job now1 now2 js m] show ?thesis by (simp add: answers_inv_def)
next
  case (answers_nothing j job now1 now2)
  with inv to_answer_drop [of j "fl_todo w" job now1 now2 js m] show ?thesis by (simp add: answers_inv_def)
next
  case (stores_it j a f r now1 now2)
  with inv to_answer_drop [of j "fl_todo w" _ now1 now2 js m] show ?thesis by (simp add: answers_inv_def answers_def)
next
  case (writes r)
  with inv old_write_asks show ?thesis by (simp add: answers_inv_def flip: mset_map)
next
  case (fetched k a i d f rt p)
  with inv all_owed_update [of k "fl_acts w" js m "(a, Running f rt (length (jobs p)))"] show ?thesis
    by (simp add: answers_inv_def)
next
  case (not_fetched k a i d e)
  with inv all_owed_update [of k "fl_acts w" js m "(a, Dropped)"] show ?thesis by (simp add: answers_inv_def)
next
  case (no_runtime k a i d f)
  with inv all_owed_update [of k "fl_acts w" js m "(a, Dropped)"] show ?thesis by (simp add: answers_inv_def)
next
  case (run_fails k a f rt i d)
  with inv all_owed_update [of k "fl_acts w" js m "(a, Dropped)"] show ?thesis by (simp add: answers_inv_def)
qed (use inv in \<open>simp_all add: answers_inv_def\<close>)

interpretation answering: guarded_system "flow_start L names conn" "flow_step L docs js m rts fails"
  "answers_inv js m" for L names conn docs js m rts fails
proof unfold_locales
  show "answers_inv js m w" if "flow_start L names conn w" for w
    using that by (simp add: flow_start_def answers_inv_def race_start_def)
  show "answers_inv js m w'" if "answers_inv js m w" "flow_step L docs js m rts fails w w'" for w w'
    using answers_inv_step that by blast
qed



section \<open>Running one part of the invoker\<close>

text \<open>
  A system that lets a part of it run alone: \<open>get\<close> reads the part, \<open>put\<close> replaces it, and every step of the
  part is a step of the system as long as this is \<open>live\<close>.
\<close>

locale driven_part =
  fixes step :: "'s \<Rightarrow> 's \<Rightarrow> bool" and live :: "'s \<Rightarrow> bool"
    and part_step :: "'p \<Rightarrow> 'p \<Rightarrow> bool" and get :: "'s \<Rightarrow> 'p" and put :: "'p \<Rightarrow> 's \<Rightarrow> 's"
  assumes drive: "live s \<Longrightarrow> part_step (get s) p \<Longrightarrow> step s (put p s)"
    and get_put: "get (put p s) = p" and put_put: "put p (put q s) = put p s"
    and put_get: "put (get s) s = s" and live_put: "live (put p s) = live s"
begin

lemma run_part:
  assumes "part_step\<^sup>*\<^sup>* (get s) p" and "live s"
  shows "step\<^sup>*\<^sup>* s (put p s)"
  using assms(1)
proof (induction rule: rtranclp_induct)
  case base
  then show ?case by (simp add: put_get)
next
  case (step p q)
  have "step (put p s) (put q (put p s))" by (rule drive) (simp_all add: live_put get_put assms(2) step.hyps)
  with step.IH show ?case by (simp add: put_put)
qed

end

definition put_lookups :: "'c lookups \<Rightarrow> 'c flow \<Rightarrow> 'c flow" where
  "put_lookups l w = w\<lparr>fl_lookups := l\<rparr>"

definition put_pool :: "string \<Rightarrow> pool \<Rightarrow> 'c flow \<Rightarrow> 'c flow" where
  "put_pool rt p w = w\<lparr>fl_pools := (fl_pools w)(rt := p)\<rparr>"

definition put_writes :: "race \<Rightarrow> 'c flow \<Rightarrow> 'c flow" where
  "put_writes r w = w\<lparr>fl_writes := r\<rparr>"

definition alive :: "'c flow \<Rightarrow> bool" where
  "alive w \<longleftrightarrow> fl_ended w = None"

interpretation lookups_run: driven_part "flow_step L docs js m rts fails" alive "old_lookup L docs" fl_lookups put_lookups
  for L docs js m rts fails
  by unfold_locales (auto simp: alive_def put_lookups_def intro: flow_step.looks_up)

interpretation pool_runs: driven_part "flow_step L docs js m rts fails" alive old_sched "\<lambda>w. fl_pools w rt" "put_pool rt"
  for L docs js m rts fails rt
  by unfold_locales (auto simp: alive_def put_pool_def intro: flow_step.schedules)

interpretation writes_run: driven_part "flow_step L docs js m rts fails" alive "old_write fails" fl_writes put_writes
  for L docs js m rts fails
  by unfold_locales (auto simp: alive_def put_writes_def intro: flow_step.writes)

section \<open>No answer gets stuck\<close>

fun writes_left :: "write_job \<Rightarrow> nat" where
  "writes_left (Asks t v) = 4"
| "writes_left (Opening t v) = 3"
| "writes_left (Storing t v h) = 2"
| "writes_left (Writing t v h) = 1"
| "writes_left (Written t v) = 0"

lemma write_moves:
  assumes "k < length (race_jobs r)" and "0 < writes_left (race_jobs r ! k)"
  shows "\<exists>r' j. old_write fails r r' \<and> race_jobs r' = (race_jobs r)[k := j] \<and> writes_left j < writes_left (race_jobs r ! k)"
proof -
  have moved: ?thesis if "write_step fails r (set_write k j q)" "race_jobs q = race_jobs r"
    "writes_left j < writes_left (race_jobs r ! k)" for j q
    using that by (intro exI [of _ "set_write k j q"] exI [of _ j]) (simp add: old_write_def set_write_def)
  show ?thesis
  proof (cases "race_jobs r ! k")
    case (Asks t v)
    show ?thesis
    proof (cases "writers (race_provider r) t")
      case None
      from moved [OF lookup_missed [OF assms(1) Asks None]] Asks show ?thesis by simp
    next
      case (Some h)
      from moved [OF lookup_found [OF assms(1) Asks Some]] Asks show ?thesis by simp
    qed
  next
    case (Opening t v)
    from moved [OF make_writer [OF assms(1) Opening rec_new_writer_def]] Opening show ?thesis by simp
  next
    case (Storing t v h)
    from moved [OF store_writer [OF assms(1) Storing]] Storing show ?thesis by simp
  next
    case (Writing t v h)
    from moved [OF write_out [OF assms(1) Writing surjective_pairing]] Writing show ?thesis by simp
  next
    case (Written t v)
    with assms(2) show ?thesis by simp
  qed
qed

lemma writes_finish:
  "\<exists>r'. (old_write fails)\<^sup>*\<^sup>* r r' \<and> (\<forall>j \<in> set (race_jobs r'). writes_left j = 0)"
proof (induction "sum_list (map writes_left (race_jobs r))" arbitrary: r rule: less_induct)
  case less
  show ?case
  proof (cases "\<forall>j \<in> set (race_jobs r). writes_left j = 0")
    case True
    then show ?thesis by blast
  next
    case False
    then obtain k where k: "k < length (race_jobs r)" "0 < writes_left (race_jobs r ! k)"
      by (metis in_set_conv_nth not_gr_zero)
    from write_moves [OF k] obtain r1 j where
      r1: "old_write fails r r1" "race_jobs r1 = (race_jobs r)[k := j]" "writes_left j < writes_left (race_jobs r ! k)"
      by blast
    then have "sum_list (map writes_left (race_jobs r1)) < sum_list (map writes_left (race_jobs r))"
      using k(1) by (simp add: map_update sum_list_update_less)
    from less [OF this] r1(1) show ?thesis by (meson converse_rtranclp_into_rtranclp)
  qed
qed

lemma nothing_in_writing: "\<forall>j \<in> set js. writes_left j = 0 \<Longrightarrow> in_writing js = {#}"
proof (induction js)
  case (Cons j js)
  then show ?case by (cases j) (auto simp: in_writing_def)
qed (simp add: in_writing_def)

lemma answers_cases: "answers js now1 now2 m job = [] \<or> (\<exists>t v. answers js now1 now2 m job = [(t, [v])])"
  by (cases job) (auto simp: answers_def encoded_def split: sum.splits)

lemma todo_finishes:
  assumes "alive w"
  shows "\<exists>w'. (flow_step L docs js m rts fails)\<^sup>*\<^sup>* w w' \<and> alive w' \<and> fl_todo w' = [] \<and> fl_acts w' = fl_acts w"
  using assms
proof (induction "fl_todo w" arbitrary: w)
  case Nil
  then show ?case by (intro exI [of _ w]) simp
next
  case (Cons x xs)
  obtain job now1 now2 where x: "fl_todo w ! 0 = (job, now1, now2)" using prod_cases3 by blast
  have todo: "0 < length (fl_todo w)" "drop_index 0 (fl_todo w) = xs" by (simp_all flip: Cons.hyps(2))
  obtain w1 where "flow_step L docs js m rts fails w w1" "alive w1" "fl_todo w1 = xs" "fl_acts w1 = fl_acts w"
    using answers_cases [of js now1 now2 m job] Cons.prems todo
      flow_step.answers_nothing [OF _ todo(1) x] flow_step.answers_it [OF _ todo(1) x]
    by (fastforce simp: alive_def)
  with Cons.hyps(1) [of w1] show ?case by (metis converse_rtranclp_into_rtranclp)
qed

lemma deliver_owed:
  assumes r: "reach (flow_start L names conn) (flow_step L docs js m rts fails) w" and "fl_ended w = None"
  shows "\<exists>w'. (flow_step L docs js m rts fails)\<^sup>*\<^sup>* w w' \<and> fl_acts w' = fl_acts w \<and>
     mset (delivered (race_client (fl_writes w'))) = all_owed js m (fl_acts w)"
proof -
  from assms(2) todo_finishes [of w L docs js m rts fails] obtain w1 where
    w1: "(flow_step L docs js m rts fails)\<^sup>*\<^sup>* w w1" "alive w1" "fl_todo w1 = []" "fl_acts w1 = fl_acts w"
    by (auto simp: alive_def)
  from writes_finish [of fails "fl_writes w1"] obtain r' where
    r': "(old_write fails)\<^sup>*\<^sup>* (fl_writes w1) r'" "\<forall>j \<in> set (race_jobs r'). writes_left j = 0" by blast
  let ?w = "put_writes r' w1"
  from w1(1) writes_run.run_part [OF r'(1) w1(2)] have run: "(flow_step L docs js m rts fails)\<^sup>*\<^sup>* w ?w"
    by (rule rtranclp_trans)
  from reach_rtranclp [OF r run] have reached: "reach (flow_start L names conn) (flow_step L docs js m rts fails) ?w" .
  have "mset (delivered (race_client r')) = all_owed js m (fl_acts w)"
    using answering.reach_inv [OF reached] racing.reach_inv [OF in_writes.reach_part [OF reached]]
      nothing_in_writing [OF r'(2)] asks_split [of "race_jobs r'"] w1(3,4)
    by (simp add: answers_inv_def race_inv_def put_writes_def)
  with run w1(4) show ?thesis by (intro exI [of _ ?w]) (simp add: put_writes_def)
qed



section \<open>A call of Run that can be answered\<close>

text \<open>
  When the goroutine of a call can go on to its answer by itself: with a worker in its hands always, else with
  a worker on a list that it looks at.
\<close>

fun can_serve :: "scheduler \<Rightarrow> job \<Rightarrow> bool" where
  "can_serve s (Wants f code) \<longleftrightarrow> undeployed s \<noteq> [] \<or> deployed s \<noteq> []"
| "can_serve s (Missed f code) \<longleftrightarrow> undeployed s \<noteq> [] \<or> deployed s \<noteq> []"
| "can_serve s (Forcing f code) \<longleftrightarrow> deployed s \<noteq> []"
| "can_serve s (Watching d) \<longleftrightarrow> False"
| "can_serve s (Restoring d) \<longleftrightarrow> False"
| "can_serve s j \<longleftrightarrow> True"

text \<open>The steps that the goroutine needs for that: none once the call is answered.\<close>

fun steps_left :: "scheduler \<Rightarrow> job \<Rightarrow> nat" where
  "steps_left s (Wants f code) = (if undeployed s = [] then 9 else 5)"
| "steps_left s (Missed f code) = (if undeployed s = [] then 8 else 4)"
| "steps_left s (Forcing f code) = 7"
| "steps_left s (Evicting d f code) = 6"
| "steps_left s (Loading d f code) = 3"
| "steps_left s (Sent d f) = 2"
| "steps_left s (Serving d f) = 1"
| "steps_left s (Loaded d f) = 1"
| "steps_left s j = 0"

definition nearer :: "nat \<Rightarrow> pool \<Rightarrow> pool \<Rightarrow> bool" where
  "nearer i p p' \<longleftrightarrow> old_sched p p' \<and> can_serve (sched p') (jobs p' ! i) \<and>
     steps_left (sched p') (jobs p' ! i) < steps_left (sched p) (jobs p ! i)"

lemma old_schedI: "\<lbrakk> sched_step p p'; \<forall>f code. jobs p' \<noteq> jobs p @ [Wants f code] \<rbrakk> \<Longrightarrow> old_sched p p'"
  by (auto simp: old_sched_def)

lemma nearerI:
  assumes "sched_step p (set_job i j q)" and "jobs q = jobs p" and "i < length (jobs p)"
    and "can_serve (sched q) j" and "steps_left (sched q) j < steps_left (sched p) (jobs p ! i)"
  shows "\<exists>p'. nearer i p p'"
proof -
  have "length (jobs (set_job i j q)) = length (jobs p)" by (simp add: set_job_def assms(2))
  then have "jobs (set_job i j q) \<noteq> jobs p @ [x]" for x by (metis length_append_singleton n_not_Suc_n)
  then have "old_sched p (set_job i j q)" by (intro old_schedI [OF assms(1)]) simp
  with assms show ?thesis by (intro exI [of _ "set_job i j q"]) (simp add: nearer_def set_job_def)
qed

lemma nearer_Wants:
  assumes i: "i < length (jobs p)" and job: "jobs p ! i = Wants g code" and can: "can_serve (sched p) (Wants g code)"
  shows "\<exists>p'. nearer i p p'"
proof (cases "RunDeployedFunction g (sched p)")
  case (Pair found s')
  show ?thesis
  proof (cases found)
    case None
    with Pair have run: "RunDeployedFunction g (sched p) = (None, s')" by simp
    with RunDeployedFunction_None have "s' = sched p" by blast
    with can job i show ?thesis by (intro nearerI [OF find_none [OF i job run]]) simp_all
  next
    case (Some d)
    with Pair have run: "RunDeployedFunction g (sched p) = (Some d, s')" by simp
    from job i show ?thesis by (intro nearerI [OF find_deployed [OF i job run]]) simp_all
  qed
qed

lemma nearer_Missed:
  assumes i: "i < length (jobs p)" and job: "jobs p ! i = Missed g code" and can: "can_serve (sched p) (Missed g code)"
  shows "\<exists>p'. nearer i p p'"
proof (cases "undeployed (sched p)")
  case Nil
  with job can i show ?thesis by (intro nearerI [OF none_undeployed [OF i job Nil]]) simp_all
next
  case (Cons d ds)
  then obtain s' where s': "RunUndeployed (sched p) = Inr (d, s')" by (simp add: RunUndeployed_def)
  with Cons job i show ?thesis by (intro nearerI [OF take_undeployed [OF i job s']]) simp_all
qed

lemma nearer_step:
  assumes c: "conserved names p" and i: "i < length (jobs p)" and w: "works_for f (jobs p ! i)"
    and code: "CodeString f = Inr src" and can: "can_serve (sched p) (jobs p ! i)" and "jobs p ! i \<noteq> Answered"
  shows "\<exists>p'. nearer i p p'"
proof (cases "jobs p ! i")
  case (Forcing g src')
  with can obtain d ds where "deployed (sched p) = d # ds" by (cases "deployed (sched p)") auto
  then obtain s' where s': "force_take (sched p) = Some (d, s')" by (simp add: force_take_def)
  with Forcing i show ?thesis by (intro nearerI [OF force [OF i Forcing s']]) simp_all
next
  case (Serving d g)
  then have "d \<in> set (running (sched p))" using held_running [OF c i] by simp
  then obtain s' where s': "RunComplete d (sched p) = Inr s'" using RunComplete_running by blast
  with Serving i show ?thesis by (intro nearerI [OF serve [OF i Serving s']]) simp_all
next
  case (Loading d g src')
  with w code have "jobs p ! i = Loading d g (Inr src)" by simp
  with i show ?thesis by (intro nearerI [OF send_code]) simp_all
next
  case (Sent d g)
  with i show ?thesis by (intro nearerI [OF set_function]) simp_all
next
  case (Loaded d g)
  then have "d \<in> set (running (sched p))" using held_running [OF c i] by simp
  then obtain s' where s': "RunComplete d (sched p) = Inr s'" using RunComplete_running by blast
  let ?p = "(set_job i Answered (p\<lparr>sched := ScheduleDecommission d s'\<rparr>))\<lparr>jobs := (jobs p)[i := Answered] @ [Watching d]\<rparr>"
  have "old_sched p ?p" by (rule old_schedI [OF load_done [OF i Loaded s']]) auto
  with Loaded i show ?thesis by (intro exI [of _ ?p]) (simp add: nearer_def nth_append)
next
  case (Evicting d g src')
  with i show ?thesis by (intro nearerI [OF evicted]) (simp_all add: give_back_def)
qed (use assms nearer_Wants [OF i] nearer_Missed [OF i] in simp_all)

lemma call_answered:
  assumes "sched_inv names p" and "i < length (jobs p)" and "works_for f (jobs p ! i)"
    and "CodeString f = Inr src" and "can_serve (sched p) (jobs p ! i)"
  shows "\<exists>p'. old_sched\<^sup>*\<^sup>* p p' \<and> jobs p' ! i = Answered"
  using assms
proof (induction "steps_left (sched p) (jobs p ! i)" arbitrary: p rule: less_induct)
  case less
  show ?case
  proof (cases "jobs p ! i = Answered")
    case False
    from less.prems(1) have "conserved names p" by (simp add: sched_inv_def)
    from nearer_step [OF this less.prems(2-5) False] obtain p1 where
      p1: "old_sched p p1" "can_serve (sched p1) (jobs p1 ! i)"
        "steps_left (sched p1) (jobs p1 ! i) < steps_left (sched p) (jobs p ! i)" by (auto simp: nearer_def)
    then have step: "sched_step p p1" by (simp add: old_sched_def)
    from works_for_step [OF step less.prems(2,3)] have on: "i < length (jobs p1)" "works_for f (jobs p1 ! i)" by simp_all
    from less.hyps [OF p1(3) scheduling.inv_step [OF less.prems(1) step] on less.prems(4) p1(2)] p1(1)
    show ?thesis by (meson converse_rtranclp_into_rtranclp)
  qed (use rtranclp.rtrancl_refl in blast)
qed


section \<open>One activation from its arrival to its answers\<close>

text \<open>
  The states of an example: the document of the database is the one the activation names, the pool has the
  one runtime of the default configuration with one worker.
\<close>

definition ex_docs :: "string \<Rightarrow> function_doc option" where
  "ex_docs = [docID_of ex_activation \<mapsto> ex_doc]"

definition ex_looked :: "lookup list \<Rightarrow> lru_state \<Rightarrow> lru_state lookups" where
  "ex_looked js c = \<lparr>lk_cache = c, lk_jobs = js\<rparr>"

definition ex_race :: race where
  "ex_race = \<lparr>race_provider = NewFakeProvider 0, race_client = blank, race_jobs = []\<rparr>"

definition ex_flow :: "lru_state lookups \<Rightarrow> pool \<Rightarrow> activity list \<Rightarrow> lru_state flow" where
  "ex_flow l p acts =
     \<lparr>fl_lookups = l, fl_pools = (\<lambda>rt. \<lparr>sched = NewScheduler [''w''] rt, jobs = [], lost = [], last_sent = (\<lambda>_. None)\<rparr>)(''python'' := p),
      fl_writes = ex_race, fl_todo = [], fl_stored = [], fl_acts = acts, fl_ended = None\<rparr>"

abbreviation ex_steps :: "lru_state flow \<Rightarrow> lru_state flow \<Rightarrow> bool" where
  "ex_steps \<equiv> flow_step list_lru ex_docs ex_codec (new_messenger 0) [''python''] (\<lambda>_. None)"

abbreviation ex_reach :: "lru_state flow \<Rightarrow> bool" where
  "ex_reach \<equiv> reach (flow_start list_lru (\<lambda>_. [''w'']) 0) ex_steps"

lemma ex_flow_simps [simp]:
  "fl_lookups (ex_flow l p acts) = l" "fl_pools (ex_flow l p acts) ''python'' = p" "fl_acts (ex_flow l p acts) = acts"
  "fl_ended (ex_flow l p acts) = None" "alive (ex_flow l p acts)" "fl_todo (ex_flow l p acts) = []"
  "fl_writes (ex_flow l p acts) = ex_race"
  "put_lookups l' (ex_flow l p acts) = ex_flow l' p acts" "put_pool ''python'' p' (ex_flow l p acts) = ex_flow l p' acts"
  "set_act k x (ex_flow l p acts) = ex_flow l p (acts[k := x])"
  by (simp_all add: ex_flow_def alive_def put_lookups_def put_pool_def set_act_def)

lemma ex_looked_simps [simp]:
  "lk_jobs (ex_looked js c) = js" "lk_cache (ex_looked js c) = c" "set_lookup k j (ex_looked js c) = ex_looked (js[k := j]) c"
  "(ex_looked js c)\<lparr>lk_cache := c'\<rparr> = ex_looked js c'"
  by (simp_all add: ex_looked_def set_lookup_def)

lemma ex_looks_up:
  "(old_lookup list_lru ex_docs)\<^sup>*\<^sup>* (ex_looked [Looking (docID_of ex_activation)] (64, []))
     (ex_looked [Got (docID_of ex_activation) (Inr ex_doc)] (lru_Add list_lru (docID_of ex_activation) ex_doc (64, [])))"
proof -
  let ?i = "docID_of ex_activation"
  let ?c = "(64, []) :: lru_state"
  have "\<not> lru_Contains list_lru ?c ?i" by (simp add: list_lru_def)
  with lacks_it [of 0 "ex_looked [Looking ?i] ?c" ?i list_lru ex_docs]
  have "old_lookup list_lru ex_docs (ex_looked [Looking ?i] ?c) (ex_looked [Missing ?i] ?c)"
    by (simp add: old_lookup_def)
  moreover from fetch_it [of 0 "ex_looked [Missing ?i] ?c" ?i ex_docs ex_doc list_lru]
  have "old_lookup list_lru ex_docs (ex_looked [Missing ?i] ?c) (ex_looked [Adding ?i ex_doc] ?c)"
    by (simp add: old_lookup_def ex_docs_def)
  moreover from add_it [of 0 "ex_looked [Adding ?i ex_doc] ?c" ?i ex_doc list_lru ex_docs]
  have "old_lookup list_lru ex_docs (ex_looked [Adding ?i ex_doc] ?c)
     (ex_looked [Got ?i (Inr ex_doc)] (lru_Add list_lru ?i ex_doc ?c))"
    by (simp add: old_lookup_def)
  ultimately show ?thesis by (meson converse_rtranclp_into_rtranclp rtranclp.rtrancl_refl)
qed

lemma ex_sends_code:
  "old_sched\<^sup>*\<^sup>* (ex_pool (ex_sched [''w''] [] [] [] []) [Wants (f_id ex_doc) (CodeString ex_doc)] None)
     (ex_pool (ex_sched [] [] [''w''] [] []) [Sent ''w'' (f_id ex_doc)] (Some (f_id ex_doc)))"
proof -
  let ?f = "f_id ex_doc"
  let ?c = "CodeString ex_doc"
  let ?idle = "ex_sched [''w''] [] [] [] []"
  let ?busy = "ex_sched [] [] [''w''] [] []"
  obtain code where code: "?c = Inr code" by (auto simp: CodeString_def ex_doc_def)
  have "old_sched (ex_pool ?idle [Wants ?f ?c] None) (ex_pool ?idle [Missed ?f ?c] None)"
    using find_none [of 0 "ex_pool ?idle [Wants ?f ?c] None" ?f ?c ?idle]
    by (intro old_schedI) (simp_all add: RunDeployedFunction_def ex_sched_simps)
  moreover have "old_sched (ex_pool ?idle [Missed ?f ?c] None) (ex_pool ?busy [Loading ''w'' ?f ?c] None)"
    using take_undeployed [of 0 "ex_pool ?idle [Missed ?f ?c] None" ?f ?c "''w''" ?busy]
    by (intro old_schedI) (simp_all add: RunUndeployed_def ex_sched_simps)
  moreover have "old_sched (ex_pool ?busy [Loading ''w'' ?f ?c] None) (ex_pool ?busy [Sent ''w'' ?f] (Some ?f))"
    using send_code [of 0 "ex_pool ?busy [Loading ''w'' ?f ?c] None" "''w''" ?f code]
    by (intro old_schedI) (simp_all add: code)
  ultimately show ?thesis by (meson converse_rtranclp_into_rtranclp rtranclp.rtrancl_refl)
qed

lemma ex_loads:
  "old_sched\<^sup>*\<^sup>* (ex_pool (ex_sched [] [] [''w''] [] []) [Sent ''w'' g] (Some g))
     (ex_pool (ex_sched [] [''w''] [] g [''w'']) [Answered, Watching ''w''] (Some g))"
proof -
  have "old_sched (ex_pool (ex_sched [] [] [''w''] [] []) [Sent ''w'' g] (Some g))
     (ex_pool (ex_sched [] [] [''w''] g []) [Loaded ''w'' g] (Some g))"
    using set_function [of 0 "ex_pool (ex_sched [] [] [''w''] [] []) [Sent ''w'' g] (Some g)" "''w''" g]
    by (intro old_schedI) (simp_all add: ex_sched_simps)
  moreover have "old_sched (ex_pool (ex_sched [] [] [''w''] g []) [Loaded ''w'' g] (Some g))
     (ex_pool (ex_sched [] [''w''] [] g [''w'']) [Answered, Watching ''w''] (Some g))"
    using load_done [of 0 "ex_pool (ex_sched [] [] [''w''] g []) [Loaded ''w'' g] (Some g)" "''w''" g
      "ex_sched [] [''w''] [] g []"]
    by (intro old_schedI) (simp_all add: RunComplete_def ex_sched_simps)
  ultimately show ?thesis by (meson converse_rtranclp_into_rtranclp rtranclp.rtrancl_refl)
qed

definition ex_running :: "lru_state lookups \<Rightarrow> lru_state flow" where
  "ex_running l = ex_flow l (ex_pool (ex_sched [] [] [''w''] [] []) [Sent ''w'' (f_id ex_doc)] (Some (f_id ex_doc)))
     [(ex_activation, Running ex_doc ''python'' 0)]"

lemma ex_reaches_running: "\<exists>l. ex_reach (ex_running l)"
proof -
  let ?i = "docID_of ex_activation"
  let ?idle = "ex_sched [''w''] [] [] [] []"
  let ?l = "ex_looked [Got ?i (Inr ex_doc)] (lru_Add list_lru ?i ex_doc (64, []))"
  have new: "ex_pool ?idle [] None = \<lparr>sched = NewScheduler [''w''] ''python'', jobs = [], lost = [], last_sent = (\<lambda>_. None)\<rparr>"
    by (simp add: ex_pool_def ex_sched_def NewScheduler_def new_workers_def fun_eq_iff)
  have "ex_reach (ex_flow (ex_looked [] (64, [])) (ex_pool ?idle [] None) [])"
    by (rule reach_init) (simp add: flow_start_def lookup_start_def pool_start_def race_start_def new ex_flow_def
      ex_looked_def ex_race_def list_lru_def defaultCacheSize_def)
  from reach_step [OF this, OF arrives [OF _ refl, where a = ex_activation]]
  have "ex_reach (ex_flow (ex_looked [Looking ?i] (64, [])) (ex_pool ?idle [] None) [(ex_activation, Fetching 0)])"
    by (simp add: ex_flow_def ex_looked_def)
  from reach_rtranclp [OF this, OF lookups_run.run_part, of ?l] ex_looks_up
  have "ex_reach (ex_flow ?l (ex_pool ?idle [] None) [(ex_activation, Fetching 0)])" by simp
  from reach_step [OF this, OF fetched [where k = 0 and i = 0 and rt = "''python''" and a = ex_activation and d = ?i
      and f = ex_doc, OF _ _ _ _ _ _ refl]]
  have "ex_reach (ex_flow ?l (ex_pool ?idle [Wants (f_id ex_doc) (CodeString ex_doc)] None)
     [(ex_activation, Running ex_doc ''python'' 0)])"
    by (simp add: ex_flow_def ex_looked_def set_act_def ex_doc_def)
  from reach_rtranclp [OF this, OF pool_runs.run_part [where rt = "''python''"]] ex_sends_code
  show ?thesis unfolding ex_running_def by (intro exI [of _ ?l]) simp
qed


definition ex_replied :: "lru_state lookups \<Rightarrow> lru_state flow" where
  "ex_replied l =
     (ex_flow l (ex_pool (ex_sched [] [''w''] [] (f_id ex_doc) [''w'']) [Answered, Watching ''w''] (Some (f_id ex_doc)))
       [(ex_activation, Replied ex_doc JNull 0 0)])
     \<lparr>fl_todo := map (\<lambda>job. (job, 0, 0)) (follow_ups ex_activation ex_doc JNull)\<rparr>"

lemma ex_reaches_replied: "\<exists>l. ex_reach (ex_replied l)"
proof -
  from ex_reaches_running obtain l where "ex_reach (ex_running l)" by blast
  from reach_rtranclp [OF this, OF pool_runs.run_part [where rt = "''python''"]] ex_loads
  have "ex_reach (ex_flow l (ex_pool (ex_sched [] [''w''] [] (f_id ex_doc) [''w'']) [Answered, Watching ''w''] (Some (f_id ex_doc)))
     [(ex_activation, Running ex_doc ''python'' 0)])" by (simp add: ex_running_def)
  from reach_step [OF this, OF replies [where k = 0 and i = 0 and rt = "''python''" and a = ex_activation and f = ex_doc
      and r = JNull and ?now1.0 = 0 and ?now2.0 = 0]]
  have "ex_reach (ex_replied l)" by (simp add: ex_replied_def ex_flow_def set_act_def)
  then show ?thesis by blast
qed



lemma ex_owed:
  "all_owed ex_codec (new_messenger 0) [(ex_activation, Replied ex_doc JNull 0 0)] =
     {#(''completed0'', [''a1'']), (''completed0'', [''echo''])#}"
  by (simp add: follow_ups_def answers_def encoded_def ex_codec_def ex_activation_def
    ex_doc_def controller_topic_def completion_of_def GenerateResponse_def new_messenger_def)



section \<open>What an interrupt loses\<close>

text \<open>
  The invoker does not wait for its activations when it is told to stop: it can exit with status 0 while the function
  of an activation is running, whose controller then never hears of it.
\<close>

theorem interrupt_drops_activations:
  "\<exists>w. ex_reach w \<and> fl_ended w = Some (Exit 0) \<and> fl_acts w = [(ex_activation, Running ex_doc ''python'' 0)] \<and>
     delivered (race_client (fl_writes w)) = [] \<and> (\<forall>w'. \<not> ex_steps w w')"
proof -
  from ex_reaches_running obtain l where r: "ex_reach (ex_running l)" by blast
  let ?w = "(ex_running l)\<lparr>fl_ended := Some (Exit 0)\<rparr>"
  have "\<not> ex_steps ?w w'" for w' by (auto elim!: flow_step.cases)
  with reach_step [OF r, OF interrupted] show ?thesis
    by (intro exI [of _ ?w]) (simp add: ex_running_def ex_flow_def ex_race_def blank_def delivered_def)
qed

end
