(* ===== verification/CRI_Service.thy ===== *)
theory CRI_Service
  imports Controller_Core Go_Env "HOL-Library.AList" "HOL-Library.Multiset"
begin

text \<open>
  \<open>cri\<close>: the container runtime service that runs beside a kubelet. \<open>controller_service.go\<close> keeps one
  controller per refunction container, \<open>create_container.go\<close> and \<open>start_container.go\<close> tie them to the
  containers of containerd, \<open>service.go\<close> passes everything else on, and \<open>main.go\<close> serves both APIs.
  containerd's own CRI service, the JSON and URL parsers and the SPDY client are parameters.
\<close>

section \<open>The controllers of the containers\<close>

record json_codec =
  js_unmarshal :: "string \<Rightarrow> error + json"
  js_marshal :: "json \<Rightarrow> error + string"

text \<open>
  \<open>map[string]controller.Controller\<close> as the list of its entries; the creator takes the name of the container
  whose process the new controller will talk to.
\<close>

record 'w controller_service =
  cs_controllers :: "(string \<times> 'w controller) list"
  cs_creator :: "string \<Rightarrow> 'w controller"

definition NewFakeControllerService :: "(string \<Rightarrow> 'w controller) \<Rightarrow> 'w controller_service" where
  "NewFakeControllerService creator = \<lparr>cs_controllers = [], cs_creator = creator\<rparr>"

definition NewControllerService :: "(string \<Rightarrow> 'w) \<Rightarrow> 'w controller_service" where
  "NewControllerService process = \<lparr>cs_controllers = [], cs_creator = (\<lambda>cid. NewController (process cid))\<rparr>"

definition cs_Controller :: "'w controller_service \<Rightarrow> string \<Rightarrow> 'w controller option" where
  "cs_Controller s cid = map_of (cs_controllers s) cid"

definition put_controller :: "string \<Rightarrow> 'w controller \<Rightarrow> 'w controller_service \<Rightarrow> 'w controller_service" where
  "put_controller cid c s = s\<lparr>cs_controllers := AList.update cid c (cs_controllers s)\<rparr>"

definition CreateController :: "string \<Rightarrow> 'w controller_service \<Rightarrow> 'w controller_service" where
  "CreateController cid s = put_controller cid (cs_creator s cid) s"

text \<open>
  The identifiers are written one after the other into a slice as long as the map; \<open>ord\<close> is the order in
  which the runtime walks over the map.
\<close>

fun fill_ids :: "nat \<Rightarrow> string list \<Rightarrow> string list \<Rightarrow> string list res" where
  "fill_ids i ids [] = Inr ids"
| "fill_ids i ids (k # ks) =
     (if i < length ids then fill_ids (Suc i) (ids[i := k]) ks else Inl (Panicked ''index out of range''))"

definition cs_ListContainers :: "(string list \<Rightarrow> string list) \<Rightarrow> 'w controller_service \<Rightarrow> string list res" where
  "cs_ListContainers ord s =
     fill_ids 0 (replicate (length (cs_controllers s)) []) (ord (map fst (cs_controllers s)))"

text \<open>\<open>controller, exists := s.controllers[id]\<close> and a call of a method of the controller.\<close>

definition with_ctrl :: "string \<Rightarrow> ('w controller, 'a) io \<Rightarrow> ('w controller_service, 'a) io" where
  "with_ctrl cid f s =
     (case cs_Controller s cid of
        None \<Rightarrow> (Inl (Returned (Errorf (''no such controller: '' @ cid))), s)
      | Some c \<Rightarrow> (case f c of (r, c') \<Rightarrow> (r, put_controller cid c' s)))"

definition cs_SendRequest :: "'w ctrl_ops \<Rightarrow> json_codec \<Rightarrow> string \<Rightarrow> string \<Rightarrow> ('w controller_service, string) io" where
  "cs_SendRequest ops js cid req =
     with_ctrl cid
       (bindS (wrapS (''could not unmarshal json request '' @ req) (liftS (of_sum (js_unmarshal js req)))) (\<lambda>request.
        bindS (wrapS (''error sending request to container '' @ cid) (SendRequest ops request)) (\<lambda>response.
        wrapS ''could not marshal response to bytes'' (liftS (of_sum (js_marshal js response))))))"

definition cs_SendFunction :: "'w ctrl_ops \<Rightarrow> string \<Rightarrow> string \<Rightarrow> ('w controller_service, unit) io" where
  "cs_SendFunction ops cid function =
     with_ctrl cid (wrapS (''error sending function to container '' @ cid) (SendFunction ops function))"

definition cs_Restore :: "'w ctrl_ops \<Rightarrow> string \<Rightarrow> ('w controller_service, unit) io" where
  "cs_Restore ops cid = with_ctrl cid (wrapS (''error restoring container '' @ cid) (Restore ops))"

section \<open>containerd\<close>

record container_config =
  cfg_stdin :: bool
  cfg_tty :: bool
  cfg_rest :: string

record create_request =
  crq_annotations :: "string \<Rightarrow> string option"
  crq_config :: "container_config option"

record attach_request =
  arq_container :: string
  arq_stdin :: bool
  arq_stdout :: bool
  arq_stderr :: bool

text \<open>The methods of the CRI that are only passed on; their requests and responses are their encodings.\<close>

datatype cri_method =
    RunPodSandbox | StopPodSandbox | RemovePodSandbox | PodSandboxStatus | ListPodSandbox
  | StopContainer | RemoveContainer | ListContainers | UpdateContainerResources | ReopenContainerLog
  | ExecSync | Exec | PortForward | ContainerStats | ListContainerStats | UpdateRuntimeConfig | Status
  | ListImages | ImageStatus | PullImage | RemoveImage | ImageFsInfo

record 'k containerd_cri =
  cd_CreateContainer :: "create_request \<Rightarrow> ('k, string) io"
  cd_StartContainer :: "string \<Rightarrow> ('k, unit) io"
  cd_ContainerStatus :: "string \<Rightarrow> bool \<Rightarrow> ('k, string \<Rightarrow> string option) io"
  cd_Attach :: "attach_request \<Rightarrow> ('k, string) io"
  cd_call :: "cri_method \<Rightarrow> string \<Rightarrow> ('k, string) io"
  cd_info :: "string \<Rightarrow> error + int"
  cd_url :: "string \<Rightarrow> error + string"
  cd_executor :: "string \<Rightarrow> ('k, unit) io"

section \<open>The service\<close>

record 'w cri_service =
  cri_client :: nat
  cri_controllers :: "'w controller_service"

type_synonym ('w, 'k) cri_sys = "'w cri_service \<times> 'k"

record cri_config =
  cc_runc_type :: string
  cc_containerd_root :: string
  cc_endpoint :: string
  cc_root_dir :: string
  cc_state_dir :: string

definition kubeAPIVersion :: string where "kubeAPIVersion = ''0.1.0''"
definition runtimeAPIVersion :: string where "runtimeAPIVersion = ''v1alpha2''"
definition defaultContainerdRootDir :: string where "defaultContainerdRootDir = ''/var/lib/containerd''"
definition defaultContainerdStateDir :: string where "defaultContainerdStateDir = ''/run/containerd''"

definition cri_config_of :: cri_config where
  "cri_config_of =
     \<lparr>cc_runc_type = ''io.containerd.runtime.v1.linux'', cc_containerd_root = defaultContainerdRootDir,
      cc_endpoint = defaultContainerdStateDir @ ''/containerd.sock'',
      cc_root_dir = defaultContainerdRootDir @ ''/refunction.v1.cri'', cc_state_dir = defaultContainerdStateDir\<rparr>"

text \<open>\<open>start\<close> is containerd's own constructor; the goroutine that runs its service is not modelled.\<close>

definition NewCRIService :: "(cri_config \<Rightarrow> ('k, unit) io) \<Rightarrow> (string \<Rightarrow> 'w) \<Rightarrow> nat \<Rightarrow> ('k, 'w cri_service) io" where
  "NewCRIService start process client =
     bindS (wrapS ''could not start containerdCRI'' (start cri_config_of)) (\<lambda>_.
     retS \<lparr>cri_client = client, cri_controllers = NewControllerService process\<rparr>)"

definition NewFakeCRIService :: "'w controller_service \<Rightarrow> 'w cri_service" where
  "NewFakeCRIService controllers = \<lparr>cri_client = 0, cri_controllers = controllers\<rparr>"

definition cri_Controller :: "'w cri_service \<Rightarrow> string \<Rightarrow> 'w controller res" where
  "cri_Controller s cid =
     (case cs_Controller (cri_controllers s) cid of
        None \<Rightarrow> Inl (Returned (Errorf (''no such controller for id: '' @ cid)))
      | Some c \<Rightarrow> Inr c)"

record version_response =
  vr_version :: string
  vr_runtime_name :: string
  vr_api_version :: string
  vr_runtime_version :: string

definition Version :: version_response where
  "Version = \<lparr>vr_version = kubeAPIVersion, vr_runtime_name = ''refunction'', vr_api_version = runtimeAPIVersion,
     vr_runtime_version = ''0.0.1''\<rparr>"

text \<open>The services that \<open>Register\<close> offers on the two servers.\<close>

datatype grpc_service = Runtime_service | Image_service | Refunction_service

definition Register :: "grpc_service list \<Rightarrow> grpc_service list \<Rightarrow> grpc_service list \<times> grpc_service list" where
  "Register criServer refunctionServer =
     (criServer @ [Runtime_service, Image_service], refunctionServer @ [Refunction_service])"

definition forward :: "'k containerd_cri \<Rightarrow> cri_method \<Rightarrow> string \<Rightarrow> (('w, 'k) cri_sys, string) io" where
  "forward cd m req = env (cd_call cd m req)"

definition cri_ContainerStatus :: "'k containerd_cri \<Rightarrow> string \<Rightarrow> bool \<Rightarrow> (('w, 'k) cri_sys, string \<Rightarrow> string option) io" where
  "cri_ContainerStatus cd cid verbose = env (cd_ContainerStatus cd cid verbose)"

definition cri_Attach :: "'k containerd_cri \<Rightarrow> attach_request \<Rightarrow> (('w, 'k) cri_sys, string) io" where
  "cri_Attach cd req = env (cd_Attach cd req)"

definition on_controllers :: "('w controller_service \<Rightarrow> 'w controller_service) \<Rightarrow> (('w, 'k) cri_sys, unit) io" where
  "on_controllers f = modS (\<lambda>s. s\<lparr>cri_controllers := f (cri_controllers s)\<rparr>)"

text \<open>A request without a container configuration makes the assignment to \<open>Stdin\<close> panic.\<close>

definition is_refunction :: "create_request \<Rightarrow> bool" where
  "is_refunction req \<longleftrightarrow> crq_annotations req ''refunction'' \<noteq> None"

definition open_stdin :: "create_request \<Rightarrow> create_request res" where
  "open_stdin req =
     (if \<not> is_refunction req then Inr req
      else case crq_config req of
             None \<Rightarrow> Inl nil_pointer
           | Some cfg \<Rightarrow> Inr (req\<lparr>crq_config := Some (cfg\<lparr>cfg_stdin := True\<rparr>)\<rparr>))"

definition CreateContainer :: "'k containerd_cri \<Rightarrow> create_request \<Rightarrow> (('w, 'k) cri_sys, string) io" where
  "CreateContainer cd req =
     bindS (liftS (open_stdin req)) (\<lambda>req.
     bindS (env (cd_CreateContainer cd req)) (\<lambda>cid.
     if is_refunction req then bindS (on_controllers (CreateController cid)) (\<lambda>_. retS cid)
     else retS cid))"

text \<open>A call of a method of the controller that \<open>StartContainer\<close> has looked up.\<close>

definition on_control :: "string \<Rightarrow> ('w controller, 'a) io \<Rightarrow> (('w, 'k) cri_sys, 'a) io" where
  "on_control cid f = recS (\<lambda>s.
     case cs_Controller (cri_controllers s) cid of
       None \<Rightarrow> (Inl nil_pointer, s)
     | Some c \<Rightarrow> (case f c of (r, c') \<Rightarrow> (r, s\<lparr>cri_controllers := put_controller cid c' (cri_controllers s)\<rparr>)))"

definition setControllerPid :: "'k containerd_cri \<Rightarrow> string \<Rightarrow> (('w, 'k) cri_sys, unit) io" where
  "setControllerPid cd cid =
     bindS (wrapS ''started container status error'' (cri_ContainerStatus cd cid True)) (\<lambda>infos.
     bindS (wrapS ''could not parse container info''
       (liftS (of_sum (cd_info cd (case infos ''info'' of None \<Rightarrow> [] | Some info \<Rightarrow> info))))) (\<lambda>pid.
     on_control cid (\<lambda>c. (Inr (), SetPid pid c))))"

definition setControllerStreams :: "'k containerd_cri \<Rightarrow> string \<Rightarrow> (('w, 'k) cri_sys, unit) io" where
  "setControllerStreams cd cid =
     bindS (wrapS ''could not attach to refunction container''
       (cri_Attach cd \<lparr>arq_container = cid, arq_stdin = True, arq_stdout = True, arq_stderr = True\<rparr>)) (\<lambda>url.
     bindS (liftS (of_sum (cd_url cd url))) (\<lambda>attachUrl.
     bindS (on_control cid (\<lambda>c. (Inr (), SetStreams c))) (\<lambda>_.
     wrapS ''could not stream refunction container'' (env (cd_executor cd attachUrl)))))"

definition StartContainer :: "'k containerd_cri \<Rightarrow> 'w ctrl_ops \<Rightarrow> string \<Rightarrow> (('w, 'k) cri_sys, unit) io" where
  "StartContainer cd ops cid =
     bindS (env (cd_StartContainer cd cid)) (\<lambda>startResp.
     bindS (askS (\<lambda>(s, k). cs_Controller (cri_controllers s) cid)) (\<lambda>control.
     if control = None then retS startResp
     else
       bindS (wrapS ''could not set started container pid'' (setControllerPid cd cid)) (\<lambda>_.
       bindS (wrapS ''could not set started container streams'' (setControllerStreams cd cid)) (\<lambda>_.
       bindS (wrapS (''could not activate refunction container '' @ cid) (on_control cid (Activate ops))) (\<lambda>_.
       retS startResp)))))"

section \<open>Serving\<close>

record 'k cri_os =
  os_RemoveAll :: "string \<Rightarrow> ('k, unit) io"
  os_Stat :: "string \<Rightarrow> ('k, unit) io"
  os_Listen :: "string \<Rightarrow> string \<Rightarrow> ('k, nat) io"
  os_containerd :: "string \<Rightarrow> string \<Rightarrow> ('k, nat) io"
  os_start_cri :: "cri_config \<Rightarrow> ('k, unit) io"

definition GRPCSocketAddr :: string where "GRPCSocketAddr = ''/tmp/refunction.sock''"
definition containerdSocketAddr :: string where "containerdSocketAddr = ''/run/containerd/containerd.sock''"
definition K8sContainerdNamespace :: string where "K8sContainerdNamespace = ''k8s.io''"
definition refunctionServerAddress :: string where "refunctionServerAddress = ''localhost:7777''"

text \<open>The service, the two listeners, and the services offered on the two servers.\<close>

definition start_up :: "'k cri_os \<Rightarrow> (string \<Rightarrow> 'w) \<Rightarrow>
    ('k, 'w cri_service \<times> nat \<times> nat \<times> grpc_service list \<times> grpc_service list) io" where
  "start_up os process =
     bindS (os_RemoveAll os GRPCSocketAddr) (\<lambda>_.
     bindS (os_Stat os containerdSocketAddr) (\<lambda>_.
     bindS (os_Listen os ''unix'' GRPCSocketAddr) (\<lambda>criLis.
     bindS (os_containerd os containerdSocketAddr K8sContainerdNamespace) (\<lambda>client.
     bindS (NewCRIService (os_start_cri os) process client) (\<lambda>criService.
     bindS (os_Listen os ''tcp'' refunctionServerAddress) (\<lambda>refunctionLis.
     retS (criService, criLis, refunctionLis, Register [] [])))))))"

text \<open>
  The two goroutines share the variable \<open>err\<close> of \<open>startCRIService\<close>: a server that returns assigns its
  result to it, then compares it with nil, and if it is not nil reads it again to send it, so that what is
  sent can be nil. \<open>Assigned r\<close>, \<open>Sending r\<close> and \<open>Finished r\<close> remember the result \<open>r\<close> that the server
  itself returned. The channel has room for both.
\<close>

datatype server = Serving | Assigned "error option" | Sending "error option" | Finished "error option"

record serving =
  sv_err :: "error option"
  sv_errors :: "error option list"
  sv_servers :: "server list"

definition serve_start :: "serving \<Rightarrow> bool" where
  "serve_start s \<longleftrightarrow> s = \<lparr>sv_err = None, sv_errors = [], sv_servers = [Serving, Serving]\<rparr>"

definition set_server :: "nat \<Rightarrow> server \<Rightarrow> serving \<Rightarrow> serving" where
  "set_server k p s = s\<lparr>sv_servers := (sv_servers s)[k := p]\<rparr>"

inductive serve_step :: "serving \<Rightarrow> serving \<Rightarrow> bool" where
  serve_returns: "\<lbrakk> k < length (sv_servers s); sv_servers s ! k = Serving \<rbrakk> \<Longrightarrow>
     serve_step s (set_server k (Assigned r) (s\<lparr>sv_err := r\<rparr>))"
| serve_checks: "\<lbrakk> k < length (sv_servers s); sv_servers s ! k = Assigned r \<rbrakk> \<Longrightarrow>
     serve_step s (set_server k (if sv_err s = None then Finished r else Sending r) s)"
| serve_sends: "\<lbrakk> k < length (sv_servers s); sv_servers s ! k = Sending r \<rbrakk> \<Longrightarrow>
     serve_step s (set_server k (Finished r) (s\<lparr>sv_errors := sv_errors s @ [sv_err s]\<rparr>))"

text \<open>The exit code is there when both servers are done, and it is 1 if the channel holds something, be it nil.\<close>

definition is_finished :: "server \<Rightarrow> bool" where
  "is_finished p = (case p of Finished r \<Rightarrow> True | _ \<Rightarrow> False)"

definition exit_code :: "serving \<Rightarrow> nat option" where
  "exit_code s =
     (if list_all is_finished (sv_servers s) then Some (if sv_errors s = [] then 0 else 1) else None)"

definition startCRIService :: "'k cri_os \<Rightarrow> (string \<Rightarrow> 'w) \<Rightarrow> serving \<Rightarrow> ('k, nat option) io" where
  "startCRIService os process final =
     bindS (tryS (start_up os process)) (\<lambda>r.
     retS (case r of Inl err \<Rightarrow> Some 1 | Inr _ \<Rightarrow> exit_code final))"

section \<open>One container does not disturb another\<close>

text \<open>
  A store of components that a key selects: an operation runs on the component of its key and puts it back,
  and it fails, changing nothing, when there is none.
\<close>

locale keyed_store =
  fixes look :: "'s \<Rightarrow> 'k \<Rightarrow> 'c option"
    and run_on :: "'k \<Rightarrow> ('c, 'a) io \<Rightarrow> ('s, 'a) io"
  assumes run_hit: "look s k = Some c \<Longrightarrow>
      fst (run_on k f s) = fst (f c) \<and> look (snd (run_on k f s)) = (look s)(k \<mapsto> snd (f c))"
    and run_miss: "look s k = None \<Longrightarrow> snd (run_on k f s) = s"
begin

lemma run_other: "j \<noteq> k \<Longrightarrow> look (snd (run_on k f s)) j = look s j"
proof (cases "look s k")
  case (Some c)
  with run_hit [OF Some, of f] show "j \<noteq> k \<Longrightarrow> ?thesis" by simp
qed (simp add: run_miss)

lemma run_keeps_keys: "dom (look (snd (run_on k f s))) = dom (look s)"
proof (cases "look s k")
  case (Some c)
  with run_hit [OF Some, of f] show ?thesis by auto
qed (simp add: run_miss)

text \<open>Operations on different keys can be exchanged: each has the result it would have had alone.\<close>

lemma run_commutes:
  assumes "j \<noteq> k" and "look s j = Some c" and "look s k = Some d"
  shows "look (snd (run_on j f (snd (run_on k g s)))) = look (snd (run_on k g (snd (run_on j f s))))"
    and "fst (run_on j f (snd (run_on k g s))) = fst (run_on j f s)"
proof -
  have j: "look (snd (run_on k g s)) j = Some c" and k: "look (snd (run_on j f s)) k = Some d"
    using assms run_other by simp_all
  from run_hit [OF j, of f] run_hit [OF k, of g] run_hit [OF assms(2), of f] run_hit [OF assms(3), of g] assms(1)
  show "look (snd (run_on j f (snd (run_on k g s)))) = look (snd (run_on k g (snd (run_on j f s))))"
    and "fst (run_on j f (snd (run_on k g s))) = fst (run_on j f s)"
    by (simp_all add: fun_upd_twist)
qed

end

lemma cs_Controller_put [simp]: "cs_Controller (put_controller cid c s) = (cs_Controller s)(cid \<mapsto> c)"
  by (simp add: cs_Controller_def put_controller_def fun_eq_iff update_conv')

interpretation containers: keyed_store "cs_Controller :: 'w controller_service \<Rightarrow> _" "with_ctrl :: _ \<Rightarrow> ('w controller, 'a) io \<Rightarrow> _"
proof
  fix s :: "'w controller_service" and k c and f :: "('w controller, 'a) io"
  assume "cs_Controller s k = Some c"
  then show "fst (with_ctrl k f s) = fst (f c) \<and> cs_Controller (snd (with_ctrl k f s)) = (cs_Controller s)(k \<mapsto> snd (f c))"
    by (simp add: with_ctrl_def split: prod.splits)
qed (simp add: with_ctrl_def)

text \<open>The calls of the API of the service; all of them go to the controller of one container.\<close>

datatype api_call = Api_request string | Api_function string | Api_restore

definition api :: "'w ctrl_ops \<Rightarrow> json_codec \<Rightarrow> string \<Rightarrow> api_call \<Rightarrow> ('w controller_service, string) io" where
  "api ops js cid call =
     (case call of
        Api_request req \<Rightarrow> cs_SendRequest ops js cid req
      | Api_function f \<Rightarrow> bindS (cs_SendFunction ops cid f) (\<lambda>_. retS [])
      | Api_restore \<Rightarrow> bindS (cs_Restore ops cid) (\<lambda>_. retS []))"

lemma with_ctrl_bind: "bindS (with_ctrl cid f) (\<lambda>_. retS y) = with_ctrl cid (bindS f (\<lambda>_. retS y))"
  by (auto simp: with_ctrl_def bindS_def fun_eq_iff split: option.splits prod.splits sum.splits)

lemma api_with_ctrl: "\<exists>f. api ops js cid call = with_ctrl cid f"
  by (cases call) (auto simp: api_def cs_SendRequest_def cs_SendFunction_def cs_Restore_def with_ctrl_bind)


section \<open>From the request of a container to a controller that is ready\<close>

definition same_identity :: "'w controller \<Rightarrow> 'w controller \<Rightarrow> bool" where
  "same_identity c c' \<longleftrightarrow> c_pid c' = c_pid c \<and> has_streams c' = has_streams c"

lemma on_sys_identity: "on_sys f c = (r, c') \<Longrightarrow> same_identity c c' \<and> checkpoints c' = checkpoints c \<and> attached c' = attached c"
  by (auto simp: on_sys_def same_identity_def split: prod.splits)

lemma sys_update_identity:
  "c' = c\<lparr>sys := x\<rparr> \<Longrightarrow> same_identity c c' \<and> checkpoints c' = checkpoints c \<and> attached c' = attached c"
  by (simp add: same_identity_def)

lemma next_message_identity:
  "next_message ops c = (r, c') \<Longrightarrow> same_identity c c' \<and> checkpoints c' = checkpoints c \<and> attached c' = attached c"
  by (auto simp: next_message_def on_world_def same_identity_def split: if_splits dest: on_sys_identity)

lemma await_message_identity:
  "await_message ops n ty c = (Inr msg, c') \<Longrightarrow> same_identity c c' \<and> checkpoints c' = checkpoints c"
proof (induction n arbitrary: c)
  case (Suc n)
  from Suc.prems obtain m c1 where one: "next_message ops c = (Inr m, c1)"
    and rest: "(if msg_type m = ty then retS m else await_message ops n ty) c1 = (Inr msg, c')"
    by (auto simp: bindS_Inr_iff)
  from next_message_identity [OF one] rest Suc.IH [of c1] show ?case
    by (auto simp: same_identity_def split: if_splits)
qed simp

lemma attach_task_identity:
  assumes "attach_task ops d c = (Inr (), c')"
  shows "same_identity c c' \<and> checkpoints c' = checkpoints c"
proof (cases "Atoi d")
  case (Inl e)
  with assms show ?thesis by (simp add: attach_task_def)
next
  case (Inr tid)
  from assms [unfolded attach_task_def Inr sum.case] obtain t c1 where
    w: "on_world (NewTraceTask (ptrace_ops.truncate ops) tid (c_pid c) (ptraceOptions c)) c = (Inr t, c1)"
    and c': "c' = store_task tid t c1" by (auto simp only: bindS_Inr_iff wrapS_Inr_iff prod.inject)
  from on_sys_identity [OF w [unfolded on_world_def]] show ?thesis by (simp add: c' store_task_def same_identity_def)
qed

lemma attach_loop_identity: "eachS (attach_task ops) ds c = (Inr (), c') \<Longrightarrow> same_identity c c' \<and> checkpoints c' = checkpoints c"
proof (induction ds arbitrary: c)
  case (Cons d ds)
  from Cons.prems obtain c1 where one: "attach_task ops d c = (Inr (), c1)" and rest: "eachS (attach_task ops) ds c1 = (Inr (), c')"
    by (auto simp: bindS_Inr_iff)
  from attach_task_identity [OF one] Cons.IH [OF rest] show ?case by (simp add: same_identity_def)
qed (simp add: same_identity_def)

lemma Attach_identity: "Attach ops c = (Inr (), c') \<Longrightarrow> same_identity c c' \<and> checkpoints c' = checkpoints c \<and> attached c'"
  by (auto simp: Attach_def bindS_Inr_iff same_identity_def split: if_splits dest!: attach_loop_identity)

lemma TakeCheckpoint_identity:
  assumes "TakeCheckpoint ops c = (Inr (), c')"
  shows "same_identity c c' \<and> attached c' = attached c \<and> (\<exists>st. checkpoints c' = checkpoints c @ [st])"
proof -
  from assms obtain c1 st c2 st' c3 c4 where
    stop: "Stop ops c = (Inr (), c1)" and state: "State ops c1 = (Inr st, c2)" and
    save: "save_pages_of ops st c2 = (Inr st', c3)" and clear: "ClearMemRefs ops c3 = (Inr (), c4)" and
    cont: "Continue_all ops (c4\<lparr>checkpoints := checkpoints c4 @ [st']\<rparr>) = (Inr (), c')"
    by (auto simp: TakeCheckpoint_def bindS_Inr_iff replaceS_Inr_iff)
  have "same_identity c c1 \<and> checkpoints c1 = checkpoints c \<and> attached c1 = attached c"
    using stop unfolding Stop_def by (rule on_sys_identity)
  moreover have "same_identity c1 c2 \<and> checkpoints c2 = checkpoints c1 \<and> attached c2 = attached c1"
    using state unfolding State_def wrapS_Inr_iff by (rule on_sys_identity)
  moreover have "c3 = c2" using save by (auto simp: save_pages_of_def split: prod.splits)
  moreover have "same_identity c3 c4 \<and> checkpoints c4 = checkpoints c3 \<and> attached c4 = attached c3"
    by (rule sys_update_identity [OF conjunct1 [OF ClearMemRefs_Inr [OF clear]]])
  moreover have "same_identity c4 c' \<and> checkpoints c' = checkpoints c4 @ [st'] \<and> attached c' = attached c4"
    using sys_update_identity [OF Continue_all_keeps [OF cont]] by (simp add: same_identity_def)
  ultimately show ?thesis by (simp add: same_identity_def)
qed

lemma Activate_ready:
  assumes "Activate ops c = (Inr (), c')"
  shows "c_pid c' = c_pid c \<and> has_streams c' \<and> attached c' \<and> (\<exists>st. checkpoints c' = checkpoints c @ [st])"
proof -
  from assms obtain m c1 c2 where s: "has_streams c" and await: "AwaitMessage ops ''started'' c = (Inr m, c1)"
    and attach: "Attach ops c1 = (Inr (), c2)" and take: "TakeCheckpoint ops c2 = (Inr (), c')"
    by (auto simp: Activate_def bindS_Inr_iff wrapS_Inr_iff split: if_splits)
  from await_message_identity [OF await [unfolded AwaitMessage_def]] Attach_identity [OF attach] TakeCheckpoint_identity [OF take] s
  show ?thesis by (simp add: same_identity_def)
qed

lemma on_control_Inr:
  assumes "on_control cid f s = (r, s')" and "cs_Controller (cri_controllers (fst s)) cid = Some c"
  obtains c' where "f c = (r, c')" and "cs_Controller (cri_controllers (fst s')) cid = Some c'"
  using assms by (cases s; cases "f c") (auto simp: on_control_def)

lemma setControllerPid_Inr:
  assumes "setControllerPid cd cid (s, k) = (Inr (), s')" and "cs_Controller (cri_controllers s) cid = Some c"
  shows "\<exists>infos k' pid. cd_ContainerStatus cd cid True k = (Inr infos, k') \<and>
     cd_info cd (case infos ''info'' of None \<Rightarrow> [] | Some i \<Rightarrow> i) = Inr pid \<and>
     cs_Controller (cri_controllers (fst s')) cid = Some (SetPid pid c)"
proof -
  from assms(1) obtain infos s1 pid where st: "cri_ContainerStatus cd cid True (s, k) = (Inr infos, s1)"
    and info: "cd_info cd (case infos ''info'' of None \<Rightarrow> [] | Some i \<Rightarrow> i) = Inr pid"
    and set: "on_control cid (\<lambda>c. (Inr (), SetPid pid c)) s1 = (Inr (), s')"
    unfolding setControllerPid_def by (auto simp only: bindS_Inr_iff wrapS_Inr_iff liftS_eval of_sum_Inr_iff prod.inject)
  from st obtain k' where k': "cd_ContainerStatus cd cid True k = (Inr infos, k')" "s1 = (s, k')"
    by (cases "cd_ContainerStatus cd cid True k") (simp add: cri_ContainerStatus_def)
  from on_control_Inr [OF set] k' assms(2) have "cs_Controller (cri_controllers (fst s')) cid = Some (SetPid pid c)" by auto
  with k' info show ?thesis by blast
qed

lemma setControllerStreams_Inr:
  assumes "setControllerStreams cd cid s = (Inr (), s')" and "cs_Controller (cri_controllers (fst s)) cid = Some c"
  shows "cs_Controller (cri_controllers (fst s')) cid = Some (SetStreams c)"
proof -
  from assms(1) obtain req url s1 u s2 where att: "env (cd_Attach cd req) s = (Inr url, s1)"
    and set: "on_control cid (\<lambda>c. (Inr (), SetStreams c)) s1 = (Inr (), s2)"
    and ex: "env (cd_executor cd u) s2 = (Inr (), s')"
    unfolding setControllerStreams_def cri_Attach_def
    by (auto simp only: bindS_Inr_iff wrapS_Inr_iff liftS_eval of_sum_Inr_iff prod.inject)
  have "fst s1 = fst s" "fst s' = fst s2" using att ex by (cases s; cases s2; auto)+
  with on_control_Inr [OF set, of c] assms(2) show ?thesis by auto
qed

text \<open>
  C21: A container of a refunction pod that was created and started successfully has a controller that is
  ready for requests: it has the process id that containerd reported for the container, is connected to its
  standard streams, is attached to the process, and holds exactly the checkpoint taken at its activation.
\<close>

theorem started_container_is_ready:
  assumes "is_refunction req" and "\<forall>x. checkpoints (cs_creator (cri_controllers (fst s)) x) = []"
    and "CreateContainer cd req s = (Inr cid, s1)" and "StartContainer cd ops cid s1 = (Inr (), s2)"
  shows "\<exists>c infos info pid k k' st. cs_Controller (cri_controllers (fst s2)) cid = Some c \<and>
     cd_ContainerStatus cd cid True k = (Inr infos, k') \<and> infos ''info'' = info \<and>
     cd_info cd (case info of None \<Rightarrow> [] | Some i \<Rightarrow> i) = Inr pid \<and> c_pid c = pid \<and>
     has_streams c \<and> attached c \<and> checkpoints c = [st]"
proof -
  from assms(1,3) obtain x k where s1: "s1 = ((fst s)\<lparr>cri_controllers := CreateController cid (cri_controllers (fst s))\<rparr>, k)"
    by (cases s) (auto simp: CreateContainer_def bindS_Inr_iff on_controllers_def is_refunction_def open_stdin_def
        split: if_splits option.splits)
  let ?c0 = "cs_creator (cri_controllers (fst s)) cid"
  have c0: "cs_Controller (cri_controllers (fst s1)) cid = Some ?c0" by (simp add: s1 CreateController_def)
  from assms(4) c0 obtain k1 t2 t3 where
    pid: "setControllerPid cd cid (fst s1, k1) = (Inr (), t2)" and str: "setControllerStreams cd cid t2 = (Inr (), t3)" and
    act: "on_control cid (Activate ops) t3 = (Inr (), s2)"
    by (auto simp: StartContainer_def bindS_Inr_iff wrapS_Inr_iff s1 split: if_splits)
  from setControllerPid_Inr [OF pid] c0 obtain infos k' pid where
    st: "cd_ContainerStatus cd cid True k1 = (Inr infos, k')" and
    info: "cd_info cd (case infos ''info'' of None \<Rightarrow> [] | Some i \<Rightarrow> i) = Inr pid" and
    t2: "cs_Controller (cri_controllers (fst t2)) cid = Some (SetPid pid ?c0)" by auto
  from on_control_Inr [OF act setControllerStreams_Inr [OF str t2]] obtain c' where
    a: "Activate ops (SetStreams (SetPid pid ?c0)) = (Inr (), c')"
    and s2: "cs_Controller (cri_controllers (fst s2)) cid = Some c'" by blast
  from Activate_ready [OF a] assms(2) have "c_pid c' = pid" "has_streams c'" "attached c'" "\<exists>st. checkpoints c' = [st]"
    by (auto simp: SetPid_def SetStreams_def)
  with s2 st info show ?thesis by blast
qed

section \<open>Containers that are not the service's own\<close>

text \<open>
  For a container of an ordinary pod the service is transparent: creating it is containerd's own
  operation with the request as it came, starting a container without a controller is containerd's own
  operation, and neither touches the controllers.
\<close>

theorem ordinary_containers_pass_through:
  assumes "\<not> is_refunction req" and "cs_Controller (cri_controllers s) cid = None"
  shows "CreateContainer cd req (s, k) = env (cd_CreateContainer cd req) (s, k) \<and>
     StartContainer cd ops cid (s, k) = env (cd_StartContainer cd cid) (s, k)"
proof
  show "CreateContainer cd req (s, k) = env (cd_CreateContainer cd req) (s, k)"
    using assms(1) by (cases "cd_CreateContainer cd req k"; cases "fst (cd_CreateContainer cd req k)")
      (simp_all add: CreateContainer_def open_stdin_def bindS_def)
  show "StartContainer cd ops cid (s, k) = env (cd_StartContainer cd cid) (s, k)"
    using assms(2) by (cases "cd_StartContainer cd cid k"; cases "fst (cd_StartContainer cd cid k)")
      (simp_all add: StartContainer_def bindS_def)
qed

text \<open>
  A request that arrives between the creation and the start of a container takes the service down:
  the controller is there but has no streams, so the write to its process dereferences a nil pointer.
\<close>

theorem request_before_start_panics:
  assumes "is_refunction req" and "\<forall>x. \<not> has_streams (cs_creator (cri_controllers (fst s)) x)"
    and "CreateContainer cd req s = (Inr cid, s1)"
    and "js_unmarshal js r = Inr v" and "c_marshal ops \<lparr>msg_type = ''request'', msg_data = v\<rparr> = Inr line"
  shows "fst (cs_SendRequest ops js cid r (cri_controllers (fst s1))) = Inl nil_pointer"
proof -
  let ?c0 = "cs_creator (cri_controllers (fst s)) cid"
  from assms(1,3) obtain k where "s1 = ((fst s)\<lparr>cri_controllers := CreateController cid (cri_controllers (fst s))\<rparr>, k)"
    by (cases s) (auto simp: CreateContainer_def bindS_Inr_iff on_controllers_def is_refunction_def open_stdin_def
        split: if_splits option.splits)
  then have "cs_Controller (cri_controllers (fst s1)) cid = Some ?c0" by (simp add: CreateController_def)
  moreover have "SendRequest ops v ?c0 = (Inl nil_pointer, ?c0)"
    using assms(2,5) by (simp add: SendRequest_def marshal_def bindS_def write_stdin_def)
  ultimately show ?thesis using assms(4)
    by (simp add: cs_SendRequest_def with_ctrl_def bindS_def wrapS_def nil_pointer_def)
qed

lemma fill_ids_all:
  "length ids = i + length ks \<Longrightarrow> fill_ids i ids ks = Inr (take i ids @ ks)"
proof (induction ks arbitrary: i ids)
  case Nil
  then show ?case by simp
next
  case (Cons k ks)
  then have "fill_ids (Suc i) (ids[i := k]) ks = Inr (take (Suc i) (ids[i := k]) @ ks)" by simp
  with Cons.prems show ?case by (simp add: take_Suc_conv_app_nth)
qed

lemma create_keys: "map fst (cs_controllers (CreateController cid s)) =
    (if cid \<in> set (map fst (cs_controllers s)) then map fst (cs_controllers s) else map fst (cs_controllers s) @ [cid])"
  by (simp add: CreateController_def put_controller_def update_keys)

lemma creates_keys:
  "distinct (map fst (cs_controllers s)) \<Longrightarrow>
   distinct (map fst (cs_controllers (fold CreateController ids s))) \<and>
   set (map fst (cs_controllers (fold CreateController ids s))) = set (map fst (cs_controllers s)) \<union> set ids"
proof (induction ids arbitrary: s)
  case Nil
  then show ?case by simp
next
  case (Cons i ids)
  have "distinct (map fst (cs_controllers (CreateController i s)))" using Cons.prems by (simp add: create_keys)
  from Cons.IH [OF this] show ?case by (auto simp: create_keys simp del: set_map)
qed

text \<open>
  In whatever order Go walks over the map, \<open>ListContainers\<close> returns every container for which a
  controller was created exactly once and nothing else, however often a container was created.
\<close>

theorem ListContainers_lists_each_once:
  assumes "mset (ord (map fst (cs_controllers (fold CreateController ids (NewControllerService process))))) =
      mset (map fst (cs_controllers (fold CreateController ids (NewControllerService process))))"
  shows "\<exists>xs. cs_ListContainers ord (fold CreateController ids (NewControllerService process)) = Inr xs \<and>
     distinct xs \<and> set xs = set ids"
proof -
  let ?s = "fold CreateController ids (NewControllerService process)"
  let ?ks = "map fst (cs_controllers ?s)"
  have "distinct ?ks" "set ?ks = set ids"
    using creates_keys [of "NewControllerService process" ids] by (simp_all add: NewControllerService_def)
  moreover have "length (ord ?ks) = length (cs_controllers ?s)"
    using mset_eq_length [OF assms] by simp
  ultimately show ?thesis
    using fill_ids_all [of "replicate (length (cs_controllers ?s)) []" 0 "ord ?ks"]
      mset_eq_setD [OF assms] mset_eq_imp_distinct_iff [OF assms]
    by (simp add: cs_ListContainers_def)
qed

text \<open>
  A container that was removed keeps its controller: every method that the service only passes on, the
  removal of a container and of a sandbox among them, leaves the controllers as they are, so the container
  is still listed and still takes requests.
\<close>

theorem removed_container_stays_listed:
  "\<exists>r k'. forward cd m req (s, k) = (r, (s, k')) \<and> cd_call cd m req k = (r, k') \<and>
     cs_ListContainers ord (cri_controllers (fst (snd (forward cd m req (s, k))))) = cs_ListContainers ord (cri_controllers s)"
  by (cases "cd_call cd m req k") (simp add: forward_def)

section \<open>The exit code\<close>

definition outcome :: "server \<Rightarrow> error option" where
  "outcome p = (case p of Finished r \<Rightarrow> r | _ \<Rightarrow> None)"

fun result_of :: "server \<Rightarrow> error option option" where
  "result_of Serving = None"
| "result_of (Assigned r) = Some r"
| "result_of (Sending r) = Some r"
| "result_of (Finished r) = Some r"

definition failed_server :: "server \<Rightarrow> bool" where
  "failed_server p \<longleftrightarrow> (case result_of p of Some (Some e) \<Rightarrow> True | _ \<Rightarrow> False)"

definition sending :: "server \<Rightarrow> bool" where
  "sending p \<longleftrightarrow> (case p of Sending r \<Rightarrow> True | _ \<Rightarrow> False)"

text \<open>
  Something in the channel or in the shared variable, or about to be sent, comes from a failed server; as
  long as no server has returned without an error, the variable is set once a server has returned, and
  every finished one has reported.
\<close>

definition serve_inv :: "serving \<Rightarrow> bool" where
  "serve_inv s \<longleftrightarrow> length (sv_servers s) = 2 \<and>
     (sv_err s \<noteq> None \<or> sv_errors s \<noteq> [] \<or> list_ex sending (sv_servers s) \<longrightarrow> list_ex failed_server (sv_servers s)) \<and>
     (list_all (\<lambda>p. result_of p \<noteq> Some None) (sv_servers s) \<longrightarrow>
        (list_ex (\<lambda>p. p \<noteq> Serving) (sv_servers s) \<longrightarrow> sv_err s \<noteq> None) \<and>
        (list_ex is_finished (sv_servers s) \<longrightarrow> sv_errors s \<noteq> []))"

lemma server_simps [simp]:
  "\<not> is_finished Serving" "\<not> is_finished (Assigned r)" "\<not> is_finished (Sending r)" "is_finished (Finished r)"
  "\<not> sending Serving" "\<not> sending (Assigned r)" "sending (Sending r)" "\<not> sending (Finished r)"
  "\<not> failed_server Serving" "failed_server (Assigned r) \<longleftrightarrow> r \<noteq> None" "failed_server (Sending r) \<longleftrightarrow> r \<noteq> None"
  "failed_server (Finished r) \<longleftrightarrow> r \<noteq> None"
  "outcome (Finished r) = r"
  by (auto simp: is_finished_def failed_server_def sending_def outcome_def split: option.splits)

lemma serve_inv_pair:
  "serve_inv \<lparr>sv_err = x, sv_errors = es, sv_servers = [p, q]\<rparr> \<longleftrightarrow>
     (x \<noteq> None \<or> es \<noteq> [] \<or> sending p \<or> sending q \<longrightarrow> failed_server p \<or> failed_server q) \<and>
     (result_of p \<noteq> Some None \<and> result_of q \<noteq> Some None \<longrightarrow>
        (p \<noteq> Serving \<or> q \<noteq> Serving \<longrightarrow> x \<noteq> None) \<and> (is_finished p \<or> is_finished q \<longrightarrow> es \<noteq> []))"
  by (simp add: serve_inv_def)

text \<open>The step of the first server, and that of the second, which is the same with the roles exchanged.\<close>

lemma serve_inv_swap:
  "serve_inv \<lparr>sv_err = x, sv_errors = es, sv_servers = [p, q]\<rparr> \<Longrightarrow> serve_inv \<lparr>sv_err = x, sv_errors = es, sv_servers = [q, p]\<rparr>"
  unfolding serve_inv_pair by blast

lemma serve_inv_returns:
  "serve_inv \<lparr>sv_err = x, sv_errors = es, sv_servers = [Serving, q]\<rparr> \<Longrightarrow>
   serve_inv \<lparr>sv_err = r, sv_errors = es, sv_servers = [Assigned r, q]\<rparr>"
  unfolding serve_inv_pair by (cases q; cases r; cases x; cases es) simp_all

lemma serve_inv_checks:
  "serve_inv \<lparr>sv_err = x, sv_errors = es, sv_servers = [Assigned r, q]\<rparr> \<Longrightarrow>
   serve_inv \<lparr>sv_err = x, sv_errors = es, sv_servers = [if x = None then Finished r else Sending r, q]\<rparr>"
  unfolding serve_inv_pair by (cases q; cases r; cases x; cases es) simp_all

lemma serve_inv_sends:
  "serve_inv \<lparr>sv_err = x, sv_errors = es, sv_servers = [Sending r, q]\<rparr> \<Longrightarrow>
   serve_inv \<lparr>sv_err = x, sv_errors = es @ [x], sv_servers = [Finished r, q]\<rparr>"
  unfolding serve_inv_pair by (cases q; cases r; cases x; cases es) simp_all

lemma serve_inv_set:
  assumes "\<And>q. serve_inv \<lparr>sv_err = x, sv_errors = es, sv_servers = [p, q]\<rparr> \<Longrightarrow>
      serve_inv \<lparr>sv_err = y, sv_errors = fs, sv_servers = [p', q]\<rparr>"
    and inv: "serve_inv \<lparr>sv_err = x, sv_errors = es, sv_servers = ps\<rparr>" and "k < length ps" and "ps ! k = p"
  shows "serve_inv \<lparr>sv_err = y, sv_errors = fs, sv_servers = ps[k := p']\<rparr>"
proof -
  from inv obtain a b where ps: "ps = [a, b]" by (auto simp: serve_inv_def length_Suc_conv numeral_2_eq_2)
  with assms(3) consider "k = 0" | "k = 1" by force
  then show ?thesis
  proof cases
    case 1
    then show ?thesis using assms by (simp add: ps)
  next
    case 2
    with assms(4) have "b = p" by (simp add: ps)
    with serve_inv_swap [OF inv [unfolded ps]] assms(1) have
      "serve_inv \<lparr>sv_err = y, sv_errors = fs, sv_servers = [p', a]\<rparr>" by simp
    from serve_inv_swap [OF this] 2 show ?thesis by (simp add: ps)
  qed
qed

lemma serve_inv_step:
  assumes "serve_inv s" and "serve_step s s'"
  shows "serve_inv s'"
proof -
  obtain x es ps where s: "s = \<lparr>sv_err = x, sv_errors = es, sv_servers = ps\<rparr>" by (cases s)
  from assms(2) show ?thesis
  proof cases
    case (serve_returns k r)
    then show ?thesis
      using serve_inv_set [OF serve_inv_returns [where r = r] assms(1) [unfolded s], where k = k] by (simp add: s set_server_def)
  next
    case (serve_checks k r)
    then show ?thesis
      using serve_inv_set [OF serve_inv_checks [where r = r] assms(1) [unfolded s], where k = k] by (simp add: s set_server_def)
  next
    case (serve_sends k r)
    then show ?thesis
      using serve_inv_set [OF serve_inv_sends [where r = r] assms(1) [unfolded s], where k = k] by (simp add: s set_server_def)
  qed
qed

interpretation serving: guarded_system serve_start serve_step serve_inv
proof
  show "serve_inv s" if "serve_start s" for s using that by (simp add: serve_start_def serve_inv_def)
  show "serve_inv t" if "serve_inv s" "serve_step s t" for s t using serve_inv_step that by blast
qed

lemma exit_code_cases:
  assumes "reach serve_start serve_step s" and "exit_code s = Some n"
  shows "n = 0 \<and> list_ex (\<lambda>p. outcome p = None) (sv_servers s) \<or> n = 1 \<and> list_ex (\<lambda>p. outcome p \<noteq> None) (sv_servers s)"
proof -
  have inv: "serve_inv s" by (rule serving.reach_inv [OF assms(1)])
  obtain x es ps where s: "s = \<lparr>sv_err = x, sv_errors = es, sv_servers = ps\<rparr>" by (cases s)
  with inv obtain p q where ps: "ps = [p, q]" by (auto simp: serve_inv_def length_Suc_conv numeral_2_eq_2)
  from assms(2) have "is_finished p" "is_finished q" by (auto simp: s ps exit_code_def split: if_splits)
  then obtain r1 r2 where "p = Finished r1" "q = Finished r2" by (cases p; cases q) auto
  with inv assms(2) show ?thesis unfolding s ps serve_inv_pair by (auto simp: exit_code_def split: if_splits)
qed


text \<open>
  A failure of one server can get lost: the goroutines share the variable, so when the other server
  returns without an error in between, the first one finds nil, nothing is reported, and the exit code is 0.
\<close>

theorem server_error_gets_lost:
  "\<exists>s. reach serve_start serve_step s \<and> sv_servers s = [Finished (Some e), Finished None] \<and> exit_code s = Some 0"
proof -
  let ?S = "\<lambda>err ps. \<lparr>sv_err = err, sv_errors = [], sv_servers = ps\<rparr>"
  have "reach serve_start serve_step (?S None [Serving, Serving])" by (rule reach_init) (simp add: serve_start_def)
  from reach_step [OF this, OF serve_returns [where k = 0 and r = "Some e"]]
  have "reach serve_start serve_step (?S (Some e) [Assigned (Some e), Serving])" by (simp add: set_server_def)
  from reach_step [OF this, OF serve_returns [where k = 1 and r = None]]
  have "reach serve_start serve_step (?S None [Assigned (Some e), Assigned None])" by (simp add: set_server_def)
  from reach_step [OF this, OF serve_checks [where k = 0 and r = "Some e"]]
  have "reach serve_start serve_step (?S None [Finished (Some e), Assigned None])" by (simp add: set_server_def)
  from reach_step [OF this, OF serve_checks [where k = 1 and r = None]]
  have "reach serve_start serve_step (?S None [Finished (Some e), Finished None])" by (simp add: set_server_def)
  moreover have "exit_code (?S None [Finished (Some e), Finished None]) = Some 0" by (simp add: exit_code_def is_finished_def)
  ultimately show ?thesis by (intro exI [of _ "?S None [Finished (Some e), Finished None]"]) simp
qed

section \<open>A service\<close>

definition ex_containerd :: "unit containerd_cri" where
  "ex_containerd =
     \<lparr>cd_CreateContainer = (\<lambda>req. retS ''c1''), cd_StartContainer = (\<lambda>_. retS ()),
      cd_ContainerStatus = (\<lambda>_ verbose. retS (if verbose then [''info'' \<mapsto> ''42''] else (\<lambda>_. None))),
      cd_Attach = (\<lambda>_. retS ''http://node''), cd_call = (\<lambda>_ req. retS req), cd_info = (\<lambda>_. Inr 42), cd_url = Inr,
      cd_executor = (\<lambda>_. retS ())\<rparr>"

definition ex_json :: json_codec where
  "ex_json = \<lparr>js_unmarshal = (\<lambda>s. Inr (JString s)), js_marshal = (\<lambda>v. Inr (case v of JString s \<Rightarrow> s | _ \<Rightarrow> []))\<rparr>"

definition ex_create :: create_request where
  "ex_create = \<lparr>crq_annotations = [''refunction'' \<mapsto> []],
     crq_config = Some \<lparr>cfg_stdin = False, cfg_tty = False, cfg_rest = []\<rparr>\<rparr>"

definition ex_service :: "string list cri_service" where
  "ex_service = NewFakeCRIService (NewControllerService (\<lambda>_. [''started'']))"

definition ex_created :: "string list cri_service" where
  "ex_created = ex_service\<lparr>cri_controllers := CreateController ''c1'' (cri_controllers ex_service)\<rparr>"

lemma ex_CreateContainer: "CreateContainer ex_containerd ex_create (ex_service, ()) = (Inr ''c1'', (ex_created, ()))"
  by (simp add: CreateContainer_def open_stdin_def is_refunction_def ex_create_def bindS_def on_controllers_def ex_containerd_def ex_created_def)

lemma ex_creator: "cs_creator (cri_controllers ex_service) x = NewController [''started'']"
  by (simp add: ex_service_def NewFakeCRIService_def NewControllerService_def)

lemma ex_created_controller: "cs_Controller (cri_controllers ex_created) ''c1'' = Some (NewController [''started''])"
  by (simp add: ex_created_def CreateController_def ex_creator)

lemma ex_on_control:
  "cs_Controller (cri_controllers s) cid = Some c \<Longrightarrow> f c = (r, c') \<Longrightarrow>
   on_control cid f (s, k) = (r, (s\<lparr>cri_controllers := put_controller cid c' (cri_controllers s)\<rparr>, k))"
  by (simp add: on_control_def)

lemma ex_StartContainer: "\<exists>s2. StartContainer ex_containerd line_ops ''c1'' (ex_created, ()) = (Inr (), s2)"
proof -
  let ?c0 = "NewController [''started'']"
  let ?s1 = "ex_created\<lparr>cri_controllers := put_controller ''c1'' (SetPid 42 ?c0) (cri_controllers ex_created)\<rparr>"
  let ?s2 = "?s1\<lparr>cri_controllers := put_controller ''c1'' (SetStreams (SetPid 42 ?c0)) (cri_controllers ?s1)\<rparr>"
  have pid: "setControllerPid ex_containerd ''c1'' (ex_created, ()) = (Inr (), (?s1, ()))"
    using ex_on_control [OF ex_created_controller, of "\<lambda>c. (Inr (), SetPid 42 c)" "Inr ()" "SetPid 42 ?c0" "()"]
    by (simp add: setControllerPid_def bindS_def wrapS_def cri_ContainerStatus_def ex_containerd_def)
  have c1: "cs_Controller (cri_controllers ?s1) ''c1'' = Some (SetPid 42 ?c0)" by simp
  have str: "setControllerStreams ex_containerd ''c1'' (?s1, ()) = (Inr (), (?s2, ()))"
    using ex_on_control [OF c1, of "\<lambda>c. (Inr (), SetStreams c)" "Inr ()" "SetStreams (SetPid 42 ?c0)" "()"]
    by (simp add: setControllerStreams_def bindS_def wrapS_def cri_Attach_def ex_containerd_def)
  have "SetStreams (SetPid 42 ?c0) = (line_controller [''started''])\<lparr>c_pid := 42\<rparr>"
    by (simp add: line_controller_def SetStreams_def SetPid_def NewController_def)
  then obtain c' where "Activate line_ops (SetStreams (SetPid 42 ?c0)) = (Inr (), c')" using ex_Activate by auto
  from ex_on_control [where f = "Activate line_ops" and s = ?s2 and cid = "''c1''" and k = "()", OF _ this] have
    "\<exists>s3. on_control ''c1'' (Activate line_ops) (?s2, ()) = (Inr (), s3)" by simp
  moreover have "env (cd_StartContainer ex_containerd ''c1'') (ex_created, ()) = (Inr (), (ex_created, ()))"
    by (simp add: ex_containerd_def)
  ultimately show ?thesis
    by (auto simp: StartContainer_def bindS_def wrapS_def pid str ex_created_controller)
qed

theorem started_container_is_ready_witness:
  "\<exists>s2 c st. StartContainer ex_containerd line_ops ''c1'' (ex_created, ()) = (Inr (), s2) \<and>
     cs_Controller (cri_controllers (fst s2)) ''c1'' = Some c \<and> c_pid c = 42 \<and> attached c \<and> checkpoints c = [st]"
proof -
  obtain s2 where s2: "StartContainer ex_containerd line_ops ''c1'' (ex_created, ()) = (Inr (), s2)" using ex_StartContainer by blast
  have "is_refunction ex_create" by (simp add: is_refunction_def ex_create_def)
  moreover have "\<forall>x. checkpoints (cs_creator (cri_controllers (fst (ex_service, ()))) x) = []" by (simp add: ex_creator NewController_def)
  ultimately obtain c pid info st where "cs_Controller (cri_controllers (fst s2)) ''c1'' = Some c"
    "cd_info ex_containerd (case info of None \<Rightarrow> [] | Some i \<Rightarrow> i) = Inr pid" "c_pid c = pid" "attached c" "checkpoints c = [st]"
    using started_container_is_ready [OF _ _ ex_CreateContainer s2] by blast
  with s2 show ?thesis by (auto simp: ex_containerd_def)
qed

theorem ordinary_containers_pass_through_witness:
  "CreateContainer ex_containerd (ex_create\<lparr>crq_annotations := (\<lambda>_. None)\<rparr>) (ex_service, ()) = (Inr ''c1'', (ex_service, ())) \<and>
   StartContainer ex_containerd line_ops ''c1'' (ex_service, ()) = (Inr (), (ex_service, ()))"
  using ordinary_containers_pass_through [of "ex_create\<lparr>crq_annotations := (\<lambda>_. None)\<rparr>" ex_service "''c1''" ex_containerd "()" line_ops]
  by (simp add: is_refunction_def cs_Controller_def ex_service_def NewFakeCRIService_def NewControllerService_def ex_containerd_def)

theorem request_before_start_panics_witness:
  "fst (cs_SendRequest line_ops ex_json ''c1'' ''hi'' (cri_controllers ex_created)) = Inl nil_pointer"
proof -
  have "fst (cs_SendRequest line_ops ex_json ''c1'' ''hi'' (cri_controllers (fst (ex_created, ())))) = Inl nil_pointer"
    by (rule request_before_start_panics [OF _ _ ex_CreateContainer, where v = "JString ''hi''" and line = "''request''"])
      (simp_all add: is_refunction_def ex_create_def ex_creator NewController_def ex_json_def line_ops_def)
  then show ?thesis by simp
qed

theorem ListContainers_lists_each_once_witness:
  "\<exists>xs. cs_ListContainers rev (fold CreateController [''a'', ''b'', ''a''] (NewControllerService (\<lambda>_. ''p''))) = Inr xs \<and>
     distinct xs \<and> set xs = {''a'', ''b''}"
  using ListContainers_lists_each_once [of rev "[''a'', ''b'', ''a'']" "\<lambda>_. ''p''"] by (simp add: insert_commute)


definition ex_cri_os :: "unit cri_os" where
  "ex_cri_os = \<lparr>os_RemoveAll = (\<lambda>_. retS ()), os_Stat = (\<lambda>_. retS ()), os_Listen = (\<lambda>_ _. retS 3), os_containerd = (\<lambda>_ _. retS 4),
     os_start_cri = (\<lambda>_. retS ())\<rparr>"

lemma ex_startCRIService: "startCRIService ex_cri_os process s () = (Inr (exit_code s), ())"
  by (simp add: startCRIService_def start_up_def NewCRIService_def bindS_def tryS_def wrapS_def ex_cri_os_def)


end
