(* ===== verification/Funk.thy ===== *)
theory Funk
  imports CRI_Service Go_Files
begin

text \<open>
  \<open>funk\<close>: the command line tool that talks to the refunction service of a node. \<open>funker.go\<close> has the
  commands, \<open>client.go\<close> the connection and the file with its target. The command line library, the file
  system and gRPC are parameters; the last section connects the tool with the service of \<open>CRI_Service\<close>.
\<close>

section \<open>The client\<close>

record 'k funk_ops =
  fo_home :: "'k \<Rightarrow> string"
  fo_WriteFile :: "string \<Rightarrow> string \<Rightarrow> ('k, unit) io"
  fo_ReadFile :: "string \<Rightarrow> ('k, string) io"
  fo_Print :: "string \<Rightarrow> ('k, unit) io"
  fo_Dial :: "string \<Rightarrow> ('k, nat) io"
  fo_CloseConn :: "nat \<Rightarrow> ('k, unit) io"
  fo_ListContainers :: "nat \<Rightarrow> ('k, string list) io"
  fo_SendRequest :: "nat \<Rightarrow> string \<Rightarrow> string \<Rightarrow> ('k, string) io"
  fo_SendFunction :: "nat \<Rightarrow> string \<Rightarrow> string \<Rightarrow> ('k, unit) io"
  fo_Restore :: "nat \<Rightarrow> string \<Rightarrow> ('k, unit) io"

text \<open>The connection and the client of the service, which is made from it.\<close>

record client =
  fc_conn :: "nat option"

type_synonym 'k funk_sys = "client \<times> 'k"

text \<open>\<open>path.Join(os.Getenv("HOME"), ".funkrc")\<close>: the file of the target.\<close>

definition funkrc :: "string \<Rightarrow> string" where
  "funkrc home = path_Join home ''.funkrc''"

definition getTarget :: "'k funk_ops \<Rightarrow> ('k, string) io" where
  "getTarget fo k = fo_ReadFile fo (funkrc (fo_home fo k)) k"

definition client_Start :: "'k funk_ops \<Rightarrow> ('k funk_sys, unit) io" where
  "client_Start fo =
     bindS (env (getTarget fo)) (\<lambda>target.
     bindS (env (fo_Dial fo target)) (\<lambda>conn.
     modS (\<lambda>c. c\<lparr>fc_conn := Some conn\<rparr>)))"

definition on_conn :: "(nat \<Rightarrow> ('k, 'a) io) \<Rightarrow> ('k funk_sys, 'a) io" where
  "on_conn f = (\<lambda>(c, k).
     case fc_conn c of None \<Rightarrow> (Inl nil_pointer, (c, k)) | Some conn \<Rightarrow> env (f conn) (c, k))"

definition client_Close :: "'k funk_ops \<Rightarrow> ('k funk_sys, unit) io" where
  "client_Close fo = loggedS (on_conn (fo_CloseConn fo))"

definition client_ListContainers :: "'k funk_ops \<Rightarrow> ('k funk_sys, string list) io" where
  "client_ListContainers fo = on_conn (fo_ListContainers fo)"

definition client_SendRequest :: "'k funk_ops \<Rightarrow> string \<Rightarrow> string \<Rightarrow> ('k funk_sys, string) io" where
  "client_SendRequest fo container request = on_conn (\<lambda>conn. fo_SendRequest fo conn container request)"

definition client_SendFunction :: "'k funk_ops \<Rightarrow> string \<Rightarrow> string \<Rightarrow> ('k funk_sys, unit) io" where
  "client_SendFunction fo container function = on_conn (\<lambda>conn. fo_SendFunction fo conn container function)"

definition client_Restore :: "'k funk_ops \<Rightarrow> string \<Rightarrow> ('k funk_sys, unit) io" where
  "client_Restore fo container = on_conn (\<lambda>conn. fo_Restore fo conn container)"

section \<open>The commands\<close>

definition NewFunker :: client where "NewFunker = \<lparr>fc_conn = None\<rparr>"
definition NewFakeFunker :: "client \<Rightarrow> client" where "NewFakeFunker c = c"

definition Funker_Start :: "'k funk_ops \<Rightarrow> ('k funk_sys, unit) io" where "Funker_Start fo = client_Start fo"
definition Funker_Close :: "'k funk_ops \<Rightarrow> ('k funk_sys, unit) io" where "Funker_Close fo = client_Close fo"

text \<open>\<open>fmt.Println\<close> and \<open>fmt.Printf\<close>, whose errors are dropped.\<close>

definition say :: "'k funk_ops \<Rightarrow> string \<Rightarrow> ('k funk_sys, unit) io" where
  "say fo line = loggedS (env (fo_Print fo line))"

definition SaveTarget :: "'k funk_ops \<Rightarrow> string \<Rightarrow> ('k funk_sys, unit) io" where
  "SaveTarget fo url =
     bindS (say fo (''saving target: '' @ url)) (\<lambda>_.
     env (\<lambda>k. fo_WriteFile fo (funkrc (fo_home fo k)) url k))"

definition funk_ListContainers :: "'k funk_ops \<Rightarrow> ('k funk_sys, unit) io" where
  "funk_ListContainers fo =
     bindS (Funker_Start fo) (\<lambda>_.
     bindS (client_ListContainers fo) (\<lambda>ids.
     bindS (say fo ''CONTAINERS'') (\<lambda>_.
     bindS (eachS (say fo) ids) (\<lambda>_.
     Funker_Close fo))))"

definition funk_SendFunction :: "'k funk_ops \<Rightarrow> string \<Rightarrow> string \<Rightarrow> ('k funk_sys, unit) io" where
  "funk_SendFunction fo container function =
     bindS (Funker_Start fo) (\<lambda>_.
     bindS (client_SendFunction fo container function) (\<lambda>_.
     bindS (say fo (''sent function '' @ function @ '' to container '' @ container)) (\<lambda>_.
     Funker_Close fo)))"

definition funk_SendRequest :: "'k funk_ops \<Rightarrow> string \<Rightarrow> string \<Rightarrow> ('k funk_sys, unit) io" where
  "funk_SendRequest fo container request =
     bindS (Funker_Start fo) (\<lambda>_.
     bindS (client_SendRequest fo container request) (\<lambda>response.
     bindS (say fo (''sent request '' @ request @ '' to container '' @ container)) (\<lambda>_.
     bindS (say fo (''response: '' @ response)) (\<lambda>_.
     Funker_Close fo))))"

definition funk_Restore :: "'k funk_ops \<Rightarrow> string \<Rightarrow> ('k funk_sys, unit) io" where
  "funk_Restore fo container =
     bindS (Funker_Start fo) (\<lambda>_.
     bindS (client_Restore fo container) (\<lambda>_.
     bindS (say fo (''restored container '' @ container)) (\<lambda>_.
     Funker_Close fo)))"

text \<open>The application as the command line library gets it; an action reads the flags by their names.\<close>

record cli_flag =
  fl_name :: string
  fl_aliases :: "string list"
  fl_required :: bool

record 'k cli_command =
  cl_name :: string
  cl_aliases :: "string list"
  cl_usage :: string
  cl_flags :: "cli_flag list"
  cl_action :: "(string \<Rightarrow> string) \<Rightarrow> ('k funk_sys, unit) io"

record 'k cli_app =
  app_name :: string
  app_usage :: string
  app_commands :: "'k cli_command list"

definition App :: "'k funk_ops \<Rightarrow> 'k cli_app" where
  "App fo =
     \<lparr>app_name = ''funk'', app_usage = ''communicate with k8s refunction containers'',
      app_commands =
        [\<lparr>cl_name = ''target'', cl_aliases = [''t''], cl_usage = ''save target kubelet url'',
          cl_flags = [\<lparr>fl_name = ''url'', fl_aliases = [''u''], fl_required = True\<rparr>],
          cl_action = (\<lambda>flag. SaveTarget fo (flag ''url''))\<rparr>,
         \<lparr>cl_name = ''list'', cl_aliases = [''l''], cl_usage = ''list refunction containers'', cl_flags = [],
          cl_action = (\<lambda>flag. funk_ListContainers fo)\<rparr>,
         \<lparr>cl_name = ''function'', cl_aliases = [''f''], cl_usage = ''load function into container'',
          cl_flags = [\<lparr>fl_name = ''container'', fl_aliases = [''c''], fl_required = True\<rparr>,
            \<lparr>fl_name = ''function'', fl_aliases = [''f''], fl_required = True\<rparr>],
          cl_action = (\<lambda>flag. funk_SendFunction fo (flag ''container'') (flag ''function''))\<rparr>,
         \<lparr>cl_name = ''request'', cl_aliases = [''r''], cl_usage = ''send request to container'',
          cl_flags = [\<lparr>fl_name = ''container'', fl_aliases = [''c''], fl_required = True\<rparr>,
            \<lparr>fl_name = ''request'', fl_aliases = [''r''], fl_required = True\<rparr>],
          cl_action = (\<lambda>flag. funk_SendRequest fo (flag ''container'') (flag ''request''))\<rparr>,
         \<lparr>cl_name = ''restore'', cl_aliases = [], cl_usage = ''restore container to initial state'',
          cl_flags = [\<lparr>fl_name = ''container'', fl_aliases = [''c''], fl_required = True\<rparr>],
          cl_action = (\<lambda>flag. funk_Restore fo (flag ''container''))\<rparr>]\<rparr>"

text \<open>The exit code of \<open>main\<close>; \<open>run\<close> is the command line library.\<close>

definition funk_main :: "('k cli_app \<Rightarrow> string list \<Rightarrow> ('k funk_sys, unit) io) \<Rightarrow> 'k funk_ops \<Rightarrow> string list \<Rightarrow> ('k funk_sys, nat) io" where
  "funk_main run fo args = bindS (tryS (run (App fo) args)) (\<lambda>r. retS (case r of Inl err \<Rightarrow> 1 | Inr _ \<Rightarrow> 0))"

section \<open>The target and the connection\<close>

text \<open>What was written to a file is what is read from it, and writing does not change the environment variables.\<close>

definition file_laws :: "'k funk_ops \<Rightarrow> bool" where
  "file_laws fo \<longleftrightarrow>
     (\<forall>p s k k'. fo_WriteFile fo p s k = (Inr (), k') \<longrightarrow> fo_ReadFile fo p k' = (Inr s, k') \<and> fo_home fo k' = fo_home fo k)"

lemma file_law: "file_laws fo \<Longrightarrow> fo_WriteFile fo p s k = (Inr (), k') \<Longrightarrow> fo_ReadFile fo p k' = (Inr s, k') \<and> fo_home fo k' = fo_home fo k"
  by (simp add: file_laws_def)

lemma SaveTarget_then_target:
  assumes "file_laws fo" and "SaveTarget fo url s = (Inr (), (c, k))"
  shows "getTarget fo k = (Inr url, k)"
proof -
  from assms(2) obtain s1 where "env (\<lambda>k. fo_WriteFile fo (funkrc (fo_home fo k)) url k) s1 = (Inr (), (c, k))"
    unfolding SaveTarget_def by (rule bindS_InrE) blast
  then obtain k1 where "fo_WriteFile fo (funkrc (fo_home fo k1)) url k1 = (Inr (), k)"
    by (cases s1; cases "fo_WriteFile fo (funkrc (fo_home fo (snd s1))) url (snd s1)") auto
  from file_law [OF assms(1) this] show ?thesis by (simp add: getTarget_def)
qed

text \<open>
  The target that \<open>funk target\<close> saves is the one that the other commands dial: a start after a
  successful save dials exactly the saved address and remembers the connection it gets.
\<close>

theorem saved_target_is_dialled:
  assumes "file_laws fo" and "SaveTarget fo url s = (Inr (), (c, k))"
  shows "client_Start fo (c', k) =
     (case fo_Dial fo url k of (Inl e, k') \<Rightarrow> (Inl e, (c', k')) | (Inr conn, k') \<Rightarrow> (Inr (), (c'\<lparr>fc_conn := Some conn\<rparr>, k')))"
  using SaveTarget_then_target [OF assms]
  by (cases "fo_Dial fo url k"; cases "fst (fo_Dial fo url k)") (simp_all add: client_Start_def bindS_def)

text \<open>The four commands that talk to the service.\<close>

datatype service_command =
    List_command | Function_command string string | Request_command string string | Restore_command string

definition rpc :: "'k funk_ops \<Rightarrow> service_command \<Rightarrow> nat \<Rightarrow> ('k, unit) io" where
  "rpc fo cmd conn =
     (case cmd of
        List_command \<Rightarrow> bindS (fo_ListContainers fo conn) (\<lambda>_. retS ())
      | Function_command cid f \<Rightarrow> fo_SendFunction fo conn cid f
      | Request_command cid r \<Rightarrow> bindS (fo_SendRequest fo conn cid r) (\<lambda>_. retS ())
      | Restore_command cid \<Rightarrow> fo_Restore fo conn cid)"

definition run_command :: "'k funk_ops \<Rightarrow> service_command \<Rightarrow> ('k funk_sys, unit) io" where
  "run_command fo cmd =
     (case cmd of
        List_command \<Rightarrow> funk_ListContainers fo
      | Function_command cid f \<Rightarrow> funk_SendFunction fo cid f
      | Request_command cid r \<Rightarrow> funk_SendRequest fo cid r
      | Restore_command cid \<Rightarrow> funk_Restore fo cid)"

text \<open>
  A call that fails leaves its connection open: whatever the command, when the service returns an error
  the command returns it at once, prints nothing and does not close the connection it has opened.
\<close>

theorem failed_call_leaves_connection_open:
  assumes "client_Start fo (c, k) = (Inr (), (c1, k1))" and "fc_conn c1 = Some conn"
    and "rpc fo cmd conn k1 = (Inl (Returned e), k2)"
  shows "run_command fo cmd (c, k) = (Inl (Returned e), (c1, k2))"
proof (cases cmd)
  case List_command
  with assms(3) have "fo_ListContainers fo conn k1 = (Inl (Returned e), k2)" by (auto simp: rpc_def bindS_def split: prod.splits sum.splits)
  with assms(1,2) List_command show ?thesis
    by (simp add: run_command_def funk_ListContainers_def Funker_Start_def bindS_def client_ListContainers_def on_conn_def)
next
  case (Request_command cid r)
  with assms(3) have "fo_SendRequest fo conn cid r k1 = (Inl (Returned e), k2)" by (auto simp: rpc_def bindS_def split: prod.splits sum.splits)
  with assms(1,2) Request_command show ?thesis
    by (simp add: run_command_def funk_SendRequest_def Funker_Start_def bindS_def client_SendRequest_def on_conn_def)
next
  case (Function_command cid f)
  with assms show ?thesis
    by (simp add: rpc_def run_command_def funk_SendFunction_def Funker_Start_def bindS_def client_SendFunction_def on_conn_def)
next
  case (Restore_command cid)
  with assms show ?thesis
    by (simp add: rpc_def run_command_def funk_Restore_def Funker_Start_def bindS_def client_Restore_def on_conn_def)
qed

text \<open>No two commands answer to the same word, and no two flags of a command do.\<close>

lemma App_unambiguous:
  "distinct (concat (map (\<lambda>c. cl_name c # cl_aliases c) (app_commands (App fo)))) \<and>
   list_all (\<lambda>c. distinct (concat (map (\<lambda>f. fl_name f # fl_aliases f) (cl_flags c)))) (app_commands (App fo))"
  by (simp add: App_def)

section \<open>The tool and the service of a node\<close>

text \<open>
  A node with its service, the terminal of the tool and its files. What the service returns travels over
  gRPC; an error, a crash or a deadline reach the tool as an error of the call.
\<close>

record 'w funk_node =
  nd_service :: "'w controller_service"
  nd_terminal :: "string list"
  nd_file :: "string \<Rightarrow> string option"

definition grpc :: "('w controller_service, 'a) io \<Rightarrow> ('w funk_node, 'a) io" where
  "grpc f n =
     (case f (nd_service n) of
        (Inr x, s) \<Rightarrow> (Inr x, n\<lparr>nd_service := s\<rparr>)
      | (Inl e, s) \<Rightarrow> (Inl (Returned (Ext ''rpc error'')), n\<lparr>nd_service := s\<rparr>))"

definition node_ops :: "'w ctrl_ops \<Rightarrow> json_codec \<Rightarrow> (string list \<Rightarrow> string list) \<Rightarrow> 'w funk_node funk_ops" where
  "node_ops ops js ord =
     \<lparr>fo_home = (\<lambda>_. ''/root''),
      fo_WriteFile = (\<lambda>p s n. (Inr (), n\<lparr>nd_file := (nd_file n)(p \<mapsto> s)\<rparr>)),
      fo_ReadFile = (\<lambda>p n. case nd_file n p of None \<Rightarrow> (Inl (Returned (Ext ''no such file'')), n) | Some s \<Rightarrow> (Inr s, n)),
      fo_Print = (\<lambda>line n. (Inr (), n\<lparr>nd_terminal := nd_terminal n @ [line]\<rparr>)),
      fo_Dial = (\<lambda>t. if t = refunctionServerAddress then retS 1 else faultS (Returned (Ext ''unreachable''))),
      fo_CloseConn = (\<lambda>_. retS ()),
      fo_ListContainers = (\<lambda>_. grpc (\<lambda>s. (cs_ListContainers ord s, s))),
      fo_SendRequest = (\<lambda>_ cid r. grpc (cs_SendRequest ops js cid r)),
      fo_SendFunction = (\<lambda>_ cid f. grpc (cs_SendFunction ops cid f)),
      fo_Restore = (\<lambda>_ cid. grpc (cs_Restore ops cid))\<rparr>"

lemma node_file_laws: "file_laws (node_ops ops js ord)"
  by (simp add: file_laws_def node_ops_def)

lemma node_Start:
  assumes "nd_file n ''/root/.funkrc'' = Some refunctionServerAddress"
  shows "Funker_Start (node_ops ops js ord) (c, n) = (Inr (), (c\<lparr>fc_conn := Some 1\<rparr>, n))"
  using assms by (simp add: Funker_Start_def client_Start_def getTarget_def funkrc_def path_Join_def path_Clean_def node_ops_def bindS_def)

lemma node_say: "say (node_ops ops js ord) line (c, n) = (Inr (), (c, n\<lparr>nd_terminal := nd_terminal n @ [line]\<rparr>))"
  by (simp add: say_def loggedS_def tryS_def bindS_def node_ops_def)

lemma node_Close: "Funker_Close (node_ops ops js ord) (c\<lparr>fc_conn := Some h\<rparr>, n) = (Inr (), (c\<lparr>fc_conn := Some h\<rparr>, n))"
  by (simp add: Funker_Close_def client_Close_def on_conn_def loggedS_def tryS_def bindS_def node_ops_def)

text \<open>The service answers a request with the data of the first response of the process.\<close>

lemma cs_SendRequest_answers:
  assumes "cs_Controller s cid = Some c" and "has_streams c" and "output_is ops out"
    and "js_unmarshal js r = Inr v" and "c_marshal ops \<lparr>msg_type = ''request'', msg_data = v\<rparr> = Inr line"
    and "c_write ops (line @ [CHR 0x0A]) (world (sys c)) = (Inr (), w1)"
    and "wanted (c_unmarshal ops) (out w1) = pre @ msg # post"
    and "\<forall>x \<in> set pre. msg_type x \<noteq> ''response''" and "msg_type msg = ''response''"
    and "length (out w1) \<le> p_fuel ops" and "length pre < p_fuel ops"
    and "js_marshal js (msg_data msg) = Inr answer"
  shows "\<exists>c'. cs_SendRequest ops js cid r s = (Inr answer, put_controller cid c' s) \<and>
     wanted (c_unmarshal ops) (out (world (sys c'))) = post"
proof -
  from write_then_await [OF assms(3,2,6-11)] obtain w2 where
    "bindS (write_stdin ops (line @ [CHR 0x0A])) (\<lambda>_. AwaitMessage ops ''response'') c =
       (Inr msg, c\<lparr>sys := (sys c)\<lparr>world := w2\<rparr>\<rparr>)" and post: "wanted (c_unmarshal ops) (out w2) = post" by blast
  then have "SendRequest ops v c = (Inr (msg_data msg), c\<lparr>sys := (sys c)\<lparr>world := w2\<rparr>\<rparr>)"
    by (auto simp: SendRequest_def marshal_def assms(5) bindS_Inr_iff)
  then have "cs_SendRequest ops js cid r s = (Inr answer, put_controller cid (c\<lparr>sys := (sys c)\<lparr>world := w2\<rparr>\<rparr>) s)"
    by (simp add: cs_SendRequest_def with_ctrl_def assms(1,4,12) bindS_def wrapS_def)
  with post show ?thesis by (intro exI [of _ "c\<lparr>sys := (sys c)\<lparr>world := w2\<rparr>\<rparr>"]) simp
qed


definition ex_node :: "string list funk_node" where
  "ex_node = \<lparr>nd_service = put_controller ''c1'' (line_controller [''log'', ''response'']) (NewControllerService (\<lambda>_. [])),
     nd_terminal = [], nd_file = [''/root/.funkrc'' \<mapsto> ''localhost:7777'']\<rparr>"


theorem saved_target_is_dialled_witness:
  "\<exists>c k. SaveTarget (node_ops line_ops ex_json rev) ''localhost:7777'' (NewFunker, ex_node\<lparr>nd_file := (\<lambda>_. None)\<rparr>) = (Inr (), (c, k)) \<and>
     client_Start (node_ops line_ops ex_json rev) (NewFunker, k) = (Inr (), (NewFunker\<lparr>fc_conn := Some 1\<rparr>, k))"
proof -
  let ?fo = "node_ops line_ops ex_json rev"
  have "\<exists>c k. SaveTarget ?fo ''localhost:7777'' (NewFunker, ex_node\<lparr>nd_file := (\<lambda>_. None)\<rparr>) = (Inr (), (c, k))"
    unfolding SaveTarget_def bindS_def node_say prod.case sum.case by (simp add: node_ops_def)
  then obtain c k where s: "SaveTarget ?fo ''localhost:7777'' (NewFunker, ex_node\<lparr>nd_file := (\<lambda>_. None)\<rparr>) = (Inr (), (c, k))" by blast
  have "fo_Dial ?fo ''localhost:7777'' k = (Inr 1, k)" by (simp add: node_ops_def refunctionServerAddress_def)
  with saved_target_is_dialled [OF node_file_laws s, of NewFunker] s show ?thesis by auto
qed

theorem failed_call_leaves_connection_open_witness:
  "run_command (node_ops line_ops ex_json rev) (Restore_command ''c2'') (NewFunker, ex_node) =
     (Inl (Returned (Ext ''rpc error'')), (NewFunker\<lparr>fc_conn := Some 1\<rparr>, ex_node))"
proof (rule failed_call_leaves_connection_open)
  have "nd_file ex_node ''/root/.funkrc'' = Some refunctionServerAddress" by (simp add: ex_node_def refunctionServerAddress_def)
  from node_Start [OF this, of line_ops ex_json rev NewFunker]
  show "client_Start (node_ops line_ops ex_json rev) (NewFunker, ex_node) = (Inr (), (NewFunker\<lparr>fc_conn := Some 1\<rparr>, ex_node))"
    by (simp add: Funker_Start_def)
  have "cs_Controller (nd_service ex_node) ''c2'' = None"
    by (simp add: ex_node_def cs_Controller_def NewControllerService_def)
  then show "rpc (node_ops line_ops ex_json rev) (Restore_command ''c2'') 1 ex_node = (Inl (Returned (Ext ''rpc error'')), ex_node)"
    by (simp add: rpc_def node_ops_def grpc_def cs_Restore_def with_ctrl_def)
qed simp

end
