(* ===== verification/Test_Programs.thy ===== *)
theory Test_Programs
  imports Worker_Core
begin

text \<open>
  The small programs of the repository that its tests run or clean up with: \<open>worker/images/attach-test\<close>,
  \<open>worker/images/go-ptrace-sleep\<close> and \<open>worker/clean-hung-test\<close>. The system calls, the commands they execute and the
  JSON codec are parameters; the texts they print for their user are left out.
\<close>

section \<open>attach-test\<close>

text \<open>\<open>fmt.Scanln\<close> is given the value of the variable it sets, which it keeps when it fails.\<close>

record 'k attach_ops =
  at_Scanln :: "string \<Rightarrow> ('k, string) io"
  at_PtraceAttach :: "int \<Rightarrow> ('k, unit) io"
  at_Wait4 :: "int \<Rightarrow> ('k, u32) io"
  at_PtraceCont :: "int \<Rightarrow> int \<Rightarrow> ('k, unit) io"
  at_Kill :: "int \<Rightarrow> int \<Rightarrow> ('k, unit) io"
  at_PtraceDetach :: "int \<Rightarrow> ('k, unit) io"

text \<open>The errors of attaching, continuing and detaching are dropped, all others end the program.\<close>

definition attach_main :: "'k attach_ops \<Rightarrow> ('k, unit) io" where
  "attach_main ao =
     bindS (at_Scanln ao []) (\<lambda>input.
     bindS (mustS (liftS (of_sum (Atoi input)))) (\<lambda>pid.
     bindS (loggedS (at_PtraceAttach ao pid)) (\<lambda>_.
     bindS (mustS (at_Wait4 ao pid)) (\<lambda>_.
     bindS (at_Scanln ao input) (\<lambda>input.
     bindS (loggedS (at_PtraceCont ao pid 0)) (\<lambda>_.
     bindS (at_Scanln ao input) (\<lambda>input.
     bindS (mustS (at_Kill ao pid SIGUSR1)) (\<lambda>_.
     bindS (mustS (at_Wait4 ao pid)) (\<lambda>_.
     bindS (at_Scanln ao input) (\<lambda>input.
     bindS (loggedS (at_PtraceCont ao pid 10)) (\<lambda>_.
     bindS (at_Scanln ao input) (\<lambda>input.
     bindS (mustS (at_Kill ao pid SIGSTOP)) (\<lambda>_.
     bindS (at_Scanln ao input) (\<lambda>input.
     bindS (at_Scanln ao input) (\<lambda>input.
     bindS (loggedS (at_PtraceDetach ao pid)) (\<lambda>_.
     bindS (at_Scanln ao input) (\<lambda>_. retS ())))))))))))))))))"

text \<open>An answer that is no number ends the program before it has touched any process.\<close>

lemma attach_main_wants_number:
  assumes "at_Scanln ao [] k = (Inr input, k1)" and "Atoi input = Inl e"
  shows "attach_main ao k = (Inl (Panicked ''panic(err)''), k1)"
  using assms by (simp add: attach_main_def bindS_def mustS_def)

section \<open>go-ptrace-sleep\<close>

record 'k sleep_ops =
  sl_marshal :: "string \<times> string \<Rightarrow> error + string"
  sl_unmarshal :: "string \<Rightarrow> error + string \<times> string"
  sl_Println :: "string \<Rightarrow> ('k, unit) io"
  sl_OpenFile :: "('k, unit) io"
  sl_WriteString :: "string \<Rightarrow> ('k, unit) io"

text \<open>Lines that are no message, and messages of other types, are skipped; so is the end of the input.\<close>

fun await_go :: "'k sleep_ops \<Rightarrow> string list \<Rightarrow> string list" where
  "await_go sl [] = []"
| "await_go sl (line # ls) =
     (case sl_unmarshal sl line of
        Inl e \<Rightarrow> await_go sl ls
      | Inr (ty, d) \<Rightarrow> if ty = ''go'' then ls else await_go sl ls)"

text \<open>The endless loop, up to the round in which the program is killed.\<close>

fun sleep_rounds :: "'k sleep_ops \<Rightarrow> nat \<Rightarrow> int \<Rightarrow> ('k, unit) io" where
  "sleep_rounds sl 0 i = retS ()"
| "sleep_rounds sl (Suc n) i =
     bindS (sl_Println sl ''sleeping for 2'') (\<lambda>_.
     bindS (mustS (sl_WriteString sl (Itoa i))) (\<lambda>_.
     sleep_rounds sl n (i + 1)))"

definition sleep_main :: "'k sleep_ops \<Rightarrow> string list \<Rightarrow> nat \<Rightarrow> ('k, string list) io" where
  "sleep_main sl input rounds =
     (case sl_marshal sl (''started'', []) of
        Inl e \<Rightarrow> faultS (Panicked ''could not marshal message'')
      | Inr messageJSON \<Rightarrow>
          bindS (sl_Println sl messageJSON) (\<lambda>_.
          bindS (mustS (sl_OpenFile sl)) (\<lambda>_.
          bindS (sleep_rounds sl rounds 0) (\<lambda>_. retS (await_go sl input)))))"

text \<open>The program reads up to the first message that tells it to go.\<close>

lemma await_go_first:
  assumes "list_all (\<lambda>l. \<forall>d. sl_unmarshal sl l \<noteq> Inr (''go'', d)) pre" and "sl_unmarshal sl line = Inr (''go'', d)"
  shows "await_go sl (pre @ line # ls) = ls"
  using assms by (induction pre) (auto split: sum.splits)

text \<open>The file holds the numbers of the rounds, one after the other.\<close>

definition on_paper :: "(string \<times> string \<Rightarrow> error + string) \<Rightarrow> (string \<Rightarrow> error + string \<times> string) \<Rightarrow> string sleep_ops" where
  "on_paper enc dec =
     \<lparr>sl_marshal = enc, sl_unmarshal = dec, sl_Println = (\<lambda>_. retS ()), sl_OpenFile = (\<lambda>_. (Inr (), [])),
      sl_WriteString = (\<lambda>s file. (Inr (), file @ s))\<rparr>"

lemma sleep_rounds_count:
  "sleep_rounds (on_paper enc dec) n i t = (Inr (), t @ concat (map (\<lambda>j. Itoa (i + int j)) [0..<n]))"
proof (induction n arbitrary: i t)
  case (Suc n)
  have "[0..<Suc n] = 0 # map Suc [0..<n]" by (simp add: map_Suc_upt upt_conv_Cons del: upt_Suc)
  with Suc show ?case by (simp add: on_paper_def bindS_def mustS_def comp_def add.commute add.left_commute del: upt_Suc)
qed simp

lemma sleep_main_counts:
  assumes "enc (''started'', []) = Inr started"
  shows "sleep_main (on_paper enc dec) input n t =
     (Inr (await_go (on_paper enc dec) input), concat (map (\<lambda>j. Itoa (int j)) [0..<n]))"
proof -
  have "sl_marshal (on_paper enc dec) = enc" "sl_Println (on_paper enc dec) s t = (Inr (), t)"
    "sl_OpenFile (on_paper enc dec) t = (Inr (), [])" for s t by (simp_all add: on_paper_def)
  with assms sleep_rounds_count [of enc dec n 0 "[]"] show ?thesis
    by (simp add: sleep_main_def bindS_def mustS_def)
qed

section \<open>clean-hung-test\<close>

text \<open>\<open>exec.Command(args).Output()\<close> gives the output and the error; no error is looked at.\<close>

record 'k clean_ops =
  cl_Output :: "string list \<Rightarrow> ('k, string \<times> error option) io"
  cl_RemoveAll :: "string \<Rightarrow> ('k, unit) io"

definition unmount_first :: "'k clean_ops \<Rightarrow> string \<Rightarrow> ('k, unit) io" where
  "unmount_first cl out =
     (if out \<noteq> []
      then bindS (liftS (index_res (Fields out) 1)) (\<lambda>mount.
           bindS (cl_Output cl [''umount'', ''-r'', mount]) (\<lambda>_. retS ()))
      else retS ())"

definition runc_dirs :: "string list" where
  "runc_dirs = map (\<lambda>i. ''/var/run/containerd/runc/refunction-worker'' @ Itoa (int i)) [0..<5]"

definition clean_main :: "'k clean_ops \<Rightarrow> string list \<Rightarrow> ('k, unit) io" where
  "clean_main cl args =
     bindS (liftS (index_res args 1)) (\<lambda>runDir.
     bindS (if 2 < length args then bindS (cl_Output cl [''kill'', ''-9'', args ! 2]) (\<lambda>_. retS ()) else retS ()) (\<lambda>_.
     bindS (cl_Output cl [''grep'', runDir, ''/proc/mounts'']) (\<lambda>(out, _).
     bindS (unmount_first cl out) (\<lambda>_.
     eachS (\<lambda>dir. loggedS (cl_RemoveAll cl dir)) (runDir # runc_dirs)))))"

text \<open>A system that notes the commands; \<open>out\<close> is what \<open>grep\<close> finds.\<close>

definition noting_clean :: "string \<Rightarrow> string list list clean_ops" where
  "noting_clean out =
     \<lparr>cl_Output = (\<lambda>args k. (Inr (if hd args = ''grep'' then out else [], None), k @ [args])),
      cl_RemoveAll = (\<lambda>dir k. (Inr (), k @ [[''rm'', dir]]))\<rparr>"

lemma remove_noted:
  "eachS (\<lambda>dir. loggedS (cl_RemoveAll (noting_clean out) dir)) dirs k = (Inr (), k @ map (\<lambda>d. [''rm'', d]) dirs)"
  by (induction dirs arbitrary: k) (simp_all add: bindS_def loggedS_def tryS_def noting_clean_def)

text \<open>
  However many file systems are mounted under the directory of the test, the clean-up unmounts the first of them
  only, and then removes the directory with whatever is mounted there.
\<close>

theorem only_first_mount_is_unmounted:
  assumes "dev \<noteq> []" "\<forall>c \<in> set dev. \<not> is_space c" and "mount \<noteq> []" "\<forall>c \<in> set mount. \<not> is_space c"
  shows "clean_main (noting_clean (dev @ CHR '' '' # mount @ CHR '' '' # rest)) [prog, dir] [] =
     (Inr (), [[''grep'', dir, ''/proc/mounts''], [''umount'', ''-r'', mount], [''rm'', dir]] @ map (\<lambda>d. [''rm'', d]) runc_dirs)"
proof -
  let ?out = "dev @ CHR '' '' # mount @ CHR '' '' # rest"
  have "is_space CHR '' ''" by (simp add: is_space_def)
  then have f: "Fields ?out = dev # mount # Fields rest" using assms by (simp add: fields_Cons_word)
  have "unmount_first (noting_clean ?out) ?out k = (Inr (), k @ [[''umount'', ''-r'', mount]])" for k
    unfolding unmount_first_def f by (simp add: index_res_def bindS_def noting_clean_def)
  moreover have "cl_Output (noting_clean ?out) [''grep'', dir, ''/proc/mounts''] k =
      (Inr (?out, None), k @ [[''grep'', dir, ''/proc/mounts'']])" for k by (simp add: noting_clean_def)
  ultimately show ?thesis
    by (simp add: clean_main_def bindS_def index_res_def remove_noted del: eachS.simps)
qed

end
