(* ===== verification/Spec2Isabelle.thy ===== *)
theory Spec2Isabelle
  imports Go_Base Go_Text Go_Env Proc_Memory Page_Restore Trace_Task Proc_State Controller_Core Function_Doc
    Scheduler Worker_Life Messaging Storage Snapshots Worker_Core Go_Files Worker_Pool Invoker Activations CRI_Service Funk
    Test_Programs
begin

text \<open>
  \<^bold>\<open>Refunction: serverless functions on restored processes.\<close>

  Refunction is an invoker for an OpenWhisk platform that does not start a container for each function.
  It keeps worker processes, takes a checkpoint of each when its language runtime has started, sends it the
  code of a function when one is needed, and later restores the checkpoint with \<open>ptrace\<close> to make room for
  another function. The development follows the program from the memory of one process to the whole
  invoker, and to the container runtime interface and the command line tool that use the same controller.

  \<^bold>\<open>Conventions.\<close> A Go function is a definition with its name; names that clash, in Go across packages or
  with HOL, have a prefix or suffix (\<open>GetFunction_doc\<close>, \<open>finish_task\<close>, \<open>Worker_End\<close>). A Go call has an outcome
  of type \<open>'a res\<close>: a value (\<open>Inr\<close>), or a fault (\<open>Inl\<close>): an error it returned, a panic, or waiting for ever.
  A method is a computation \<open>('s, 'a) io\<close>, a function from a state to an outcome and a state, composed with
  \<open>bindS\<close>; \<open>wrapS\<close> is \<open>fmt.Errorf\<close> around an error, \<open>tryS\<close> a call whose error is looked at. The state is the
  receiver paired with the environment that the libraries act on (\<open>Go_Env\<close>). The operating system,
  containerd, Kafka, CouchDB, HTTP, gRPC, the JSON and TOML codecs and the clock are not part of the
  program: they are fields of operation records (\<open>ctrl_ops\<close>, \<open>worker_env\<close>, \<open>clients\<close>, \<open>database\<close>, \<open>lru\<close>, \<open>snap_ops\<close>,
  \<open>pool_ops\<close>, \<open>containerd_cri\<close>, \<open>funk_ops\<close>), arguments of the definitions that use them. What the program
  relies on is a named hypothesis (\<open>lru_laws\<close>, \<open>snap_laws\<close>, \<open>file_laws\<close>, \<open>serves\<close>, \<open>output_is\<close>), and for each
  of these there is a concrete instance for which the properties are applied. Goroutines that share state are
  step relations with a state of all goroutines (\<open>batch_step\<close>, \<open>task_step\<close>, \<open>stream_step\<close>, \<open>sched_step\<close>,
  \<open>lookup_step\<close>, \<open>write_step\<close>, \<open>serve_step\<close>); their invariants are proved through the locale
  \<open>guarded_system\<close> and hold in every interleaving. \<open>flow_step\<close> composes three of them, and the locale \<open>subsystem\<close>
  carries the invariants of its parts over to it. A loop over a Go map takes the order of the visit as an
  argument.

  \<^bold>\<open>Theories.\<close>

  \<open>Go_Base\<close>, \<open>Go_Text\<close>, \<open>Go_Env\<close>, \<open>Go_Files\<close>: outcomes, computations, transition systems; \<open>strings\<close> and \<open>strconv\<close>;
  receivers beside an environment and tables of handles (locale \<open>handle_table\<close>); paths, files and tar archives.

  \<open>Proc_Memory\<close> (\<open>state/memory.go\<close>): the memory map of a process, parsing \<open>/proc/pid/maps\<close>, saving writable pages,
  comparing layouts, counting dirty pages. A location is the record \<open>memory\<close>; offsets are \<open>int\<close>, with the
  bounds of \<open>int64\<close> as properties. \<open>Page_Restore\<close>: the eight goroutines per location that write dirty
  pages back, in every interleaving; an iteration of one goroutine is a step, and the number of pages that
  are left is the measure that ends them.

  \<open>Trace_Task\<close> (\<open>controller/ptrace/ptrace.go\<close>, \<open>safewriter.go\<close>): the goroutine that traces one thread, its orders,
  its one-place channel of stops, and a system call run inside the thread.
  \<open>Proc_State\<close> (\<open>state/state.go\<close>, \<open>rlimit.go\<close>, \<open>filedescriptor.go\<close>): checkpoints of registers, descriptors and limits,
  and what \<open>Restore\<close> does to the layout of the process.
  \<open>Controller_Core\<close> (\<open>controller/controller.go\<close>): attaching, stopping, continuing, signals, checkpoints and
  restoration of a whole process, and the messages on its pipes. The checkpoint round trip and the order of
  the messages are its main results.

  \<open>Function_Doc\<close> (\<open>invoker/types/types.go\<close>): documents, activations, responses and the base64 code of a function.
  \<open>Scheduler\<close> (\<open>invoker/workerpool/scheduler.go\<close>): the three lists of workers; each critical section is a function on
  the scheduler, \<open>Run\<close> composes them for one caller, and \<open>sched_step\<close> interleaves callers and decommissioning
  goroutines. The locale \<open>worker_methods\<close> is the contract between the scheduler and the methods of its workers;
  \<open>Worker_Pool\<close> interprets it on the real ones. \<open>Worker_Life\<close>: an abstract life cycle of a worker (idle, in use, ready, cleaning, gone) with neither
  lists nor goroutines, which the scheduler refines; which goroutines of the scheduler can wait, and for what.
  \<open>Worker_Pool\<close> (\<open>workerpool.go\<close>, \<open>containerdrunner.go\<close>): making a pool from its configuration, choosing a
  runtime, and an invocation from the pool through the worker and its controller to the process and back;
  the downloads of runtimes and layers.
  \<open>Messaging\<close> (\<open>invoker/messages\<close>): readers and writers by topic, activations, completions, results and health pings.
  \<open>Storage\<close> (\<open>invoker/storage\<close>): the cache of functions in front of the database, for one caller and for many.
  \<open>Invoker\<close> (\<open>invoker/main.go\<close>): configuration, start up, the event loop and the answers to an activation. The
  follow-ups of an activation run in an arbitrary order, given by a permutation.

  \<open>Activations\<close> (\<open>invoker/main.go\<close>): any number of activations at once. A step of \<open>flow_step\<close> is one critical section
  or map access of one goroutine, in the storage, in the scheduler of a runtime or in the provider, or the passing
  of an activation from one of them to the next. The function database and the runtimes of the pool are fixed.

  \<open>Snapshots\<close> (\<open>worker/snapshot.go\<close>): the chain of layers that a runtime is made of. \<open>Worker_Core\<close> (\<open>worker/worker.go\<close>,
  \<open>localworker.go\<close>, \<open>go-test-helper\<close>): creating, starting and ending a worker, and its delegation to the controller.
  \<open>CRI_Service\<close> (\<open>cri/main.go\<close>, \<open>cri/service\<close>): the controllers of the containers of a node (locale \<open>keyed_store\<close>), the
  container requests that the service extends and those it forwards, and the two servers of the process.
  \<open>Funk\<close> (\<open>funk\<close>): the command line tool, composed with the service of a node. \<open>Test_Programs\<close>: what the
  tests of the repository run or clean up with (\<open>worker/images/attach-test\<close>, \<open>go-ptrace-sleep\<close>, \<open>worker/clean-hung-test\<close>).

  \<^bold>\<open>What is shown.\<close> For a process: a restored process has the registers and the saved memory of its
  checkpoint, whatever it did in between and however the restoring goroutines interleave; parsing and saving
  are exact; the tracing goroutine never blocks on its own channel. For the scheduler: workers are never
  lost or duplicated in any interleaving except where the code loses them, each goes along its life cycle,
  and a request only reaches a worker that holds its function; only a call that waits for an eviction can
  hang, and it can hang beside an idle worker. For the invoker: in every interleaving an activation
  runs its own function, can be answered as long as its call has or finds a worker (\<open>can_serve\<close>), and each of its
  answers is delivered at most once and can always be delivered while the invoker runs, but an interrupt loses
  those that are under way; an activation is answered on
  the topic of its controller, whatever the order of its goroutines; an invocation stays in the group of its
  runtime; the cache returns the documents of the
  database; success is only reported after an interrupt. For a node: a started container has a controller
  that is ready, calls for different containers commute, and the tool prints what the process answered.
  Error paths are values of the same definitions, and the theorems on them say what they leave behind: a
  worker, a connection, a snapshot, a message without an answer, a goroutine that waits for ever.

  \<^bold>\<open>Fuel.\<close> A loop that need not end has a bound, and running out of it is the outcome \<open>Blocked\<close>, so that it is
  never mistaken for a result. \<open>p_fuel\<close> bounds the stops a thread goes through before it takes an order and
  the lines read while waiting for a message: a theorem that such a call returns asks for a bound that is no
  less than the lines at hand. The first argument of \<open>Run\<close> bounds the evictions of one call; each uses one,
  and \<open>exhausted_pool_blocks\<close> says when no bound is enough. \<open>StartHealthPings\<close> has the number of polls of its stop
  channel. Everything else is structural or has a measure.

  \<^bold>\<open>Not modelled.\<close> Logging; a task of the operating system apart from its
  thread id; the parsing of flags and of the TOML file, which give the configuration as a value; the
  goroutine that runs containerd's own service and the SPDY transport of the attached streams. \<open>tools/tools.go\<close> is an
  import list. The files under
  \<open>controllerfakes\<close>, \<open>servicefakes\<close>, \<open>funkerfakes\<close> and \<open>messagesfakes\<close> and the protobuf bindings are generated
  from the interfaces and messages that the other theories model.
\<close>

end
